(* ===== verification/Prelude.thy ===== *)
theory Prelude
  imports Main "HOL-Library.Word"
begin

text \<open>
  Shared vocabulary of the development: bytes and machine integers, Go errors as values,
  the big-endian conversions of \<^verbatim>\<open>encoding/binary\<close>, and the generic
  lemmas the component theories use.

  Go strings are byte sequences, so \<^typ>\<open>string\<close> (a list of 8-bit characters) models them
  exactly; \<open>bytes_of_string\<close> is the conversion \<^verbatim>\<open>[]byte(s)\<close>.
\<close>

unbundle bit_operations_syntax

type_synonym byte = "8 word"
type_synonym bytes = "byte list"
type_synonym u32 = "32 word"
type_synonym u64 = "64 word"

named_theorems wire_simps \<open>encodings and their lengths\<close>
named_theorems inv_intros \<open>preservation of component invariants\<close>

subsection \<open>Errors\<close>

text \<open>
  A Go \<^verbatim>\<open>error\<close> is a value. \<open>Errorf\<close> is an error built from a finished text,
  \<open>Wrapf p e\<close> is \<^verbatim>\<open>fmt.Errorf("p: %w", e)\<close>, and \<open>Quotedf p s q\<close> is
  \<^verbatim>\<open>fmt.Errorf\<close> with one \<^verbatim>\<open>%q\<close> argument \<open>s\<close> between the texts \<open>p\<close> and \<open>q\<close>;
  \<open>QuotedWrapf p s e\<close> is \<^verbatim>\<open>fmt.Errorf("p%q: %w", s, e)\<close>.
  The other constructors are the errors the connection itself reports.
\<close>

datatype error =
    EOF
  | ErrUnexpectedEOF
  | ErrClosed
  | ErrTimeout
  | ErrReset
  | Errorf string
  | Wrapf string error
  | Quotedf string string string
  | QuotedWrapf string string error

type_synonym 'a result = "error + 'a"

text \<open>The innermost error of a chain of wrappings (\<^verbatim>\<open>errors.Unwrap\<close> to the end).\<close>

fun root_cause :: "error \<Rightarrow> error" where
  "root_cause (Wrapf p e) = root_cause e"
| "root_cause (QuotedWrapf p s e) = root_cause e"
| "root_cause e = e"

subsection \<open>Strings and bytes\<close>

definition bytes_of_string :: "string \<Rightarrow> bytes" where
  "bytes_of_string s = map of_char s"

definition string_of_bytes :: "bytes \<Rightarrow> string" where
  "string_of_bytes bs = map (\<lambda>b. char_of (unat b)) bs"

text \<open>\<^verbatim>\<open>strconv.Itoa\<close> (and \<^verbatim>\<open>%d\<close>) of a number that is not negative.\<close>

fun dec :: "nat \<Rightarrow> string" where
  "dec n = (if n < 10 then [char_of (48 + n)] else dec (n div 10) @ [char_of (48 + n mod 10)])"

declare dec.simps [simp del]

subsection \<open>Big-endian integers\<close>

definition PutUint32 :: "u32 \<Rightarrow> bytes" where
  "PutUint32 w = map (\<lambda>i. ucast (drop_bit (8 * i) w)) [3, 2, 1, 0]"

definition Uint32 :: "bytes \<Rightarrow> u32" where
  "Uint32 bs = foldl (\<lambda>acc b. push_bit 8 acc OR ucast b) 0 bs"

definition PutUint64 :: "u64 \<Rightarrow> bytes" where
  "PutUint64 w = map (\<lambda>i. ucast (drop_bit (8 * i) w)) [7, 6, 5, 4, 3, 2, 1, 0]"

definition Uint64 :: "bytes \<Rightarrow> u64" where
  "Uint64 bs = foldl (\<lambda>acc b. push_bit 8 acc OR ucast b) 0 bs"

lemma length_PutUint32 [simp, wire_simps]: "length (PutUint32 w) = 4"
  by (simp add: PutUint32_def)

lemma length_PutUint64 [simp, wire_simps]: "length (PutUint64 w) = 8"
  by (simp add: PutUint64_def)

lemma Uint32_PutUint32 [simp, wire_simps]: "Uint32 (PutUint32 w) = w"
proof (rule bit_word_eqI)
  fix n assume "n < LENGTH(32)"
  then consider "n < 8"
    | "8 \<le> n" "n < 16"
    | "16 \<le> n" "n < 24"
    | "24 \<le> n" "n < 32"
    by fastforce
  then show "bit (Uint32 (PutUint32 w)) n = bit w n"
    by cases (simp_all add: Uint32_def PutUint32_def bit_simps less_diff_conv2)
qed

lemma Uint64_PutUint64 [simp, wire_simps]: "Uint64 (PutUint64 w) = w"
proof (rule bit_word_eqI)
  fix n assume "n < LENGTH(64)"
  then consider "n < 8"
    | "8 \<le> n" "n < 16"
    | "16 \<le> n" "n < 24"
    | "24 \<le> n" "n < 32"
    | "32 \<le> n" "n < 40"
    | "40 \<le> n" "n < 48"
    | "48 \<le> n" "n < 56"
    | "56 \<le> n" "n < 64"
    by simp linarith
  then show "bit (Uint64 (PutUint64 w)) n = bit w n"
    by cases (simp_all add: Uint64_def PutUint64_def bit_simps less_diff_conv2)
qed

lemma byte_high_bit [simp]: "8 \<le> n \<Longrightarrow> \<not> bit (b :: byte) n"
  using bit_imp_le_length [of b n] by auto

text \<open>Reading and writing back: every list of four bytes is the encoding of its value.\<close>

lemma PutUint32_Uint32: "length bs = 4 \<Longrightarrow> PutUint32 (Uint32 bs) = bs"
proof -
  assume "length bs = 4"
  then obtain a b c d where bs: "bs = [a, b, c, d]"
    by (auto simp: numeral_eq_Suc length_Suc_conv)
  show ?thesis
    unfolding bs PutUint32_def Uint32_def
    by (auto intro!: bit_word_eqI simp: bit_simps)
qed

lemma PutUint32_inj [simp]: "PutUint32 v = PutUint32 w \<longleftrightarrow> v = w"
  by (metis Uint32_PutUint32)

lemma PutUint64_inj [simp]: "PutUint64 v = PutUint64 w \<longleftrightarrow> v = w"
  by (metis Uint64_PutUint64)

subsection \<open>Generic lemmas\<close>

lemma unat_of_nat_u32 [wire_simps]: "n < 2 ^ 32 \<Longrightarrow> unat (of_nat n :: u32) = n"
  by (simp add: unat_of_nat)

lemma of_nat_u64_inj:
  assumes "m < 2 ^ 64" and "n < 2 ^ 64"
  shows "(of_nat m :: u64) = of_nat n \<longleftrightarrow> m = n"
  using assms by (simp add: of_nat_inverse word_of_nat_eq_iff take_bit_eq_mod)

lemma unat_byte_of_char: "unat (of_char c :: byte) = (of_char c :: nat)"
proof -
  have "unat (of_nat (of_char c :: nat) :: byte) = (of_char c :: nat)"
    by (simp add: unat_of_nat take_bit_eq_mod)
  then show ?thesis by (simp add: of_nat_of_char)
qed

lemma char_of_byte [simp]: "char_of (unat (of_char c :: byte)) = c"
  by (simp add: unat_byte_of_char)

lemma byte_of_char [simp]: "of_char (char_of (unat b)) = (b :: byte)"
proof (rule word_unat_eq_iff [THEN iffD2])
  have "unat b < 256" using unsigned_less [of b, where ?'a = nat] by simp
  then show "unat (of_char (char_of (unat b)) :: byte) = unat b"
    by (simp add: unat_byte_of_char)
qed

lemma string_of_bytes_of_string [simp]: "string_of_bytes (bytes_of_string s) = s"
  by (simp add: string_of_bytes_def bytes_of_string_def comp_def)

lemma bytes_of_string_inj [simp]: "bytes_of_string s = bytes_of_string t \<longleftrightarrow> s = t"
  by (metis string_of_bytes_of_string)

lemma length_bytes_of_string [simp]: "length (bytes_of_string s) = length s"
  by (simp add: bytes_of_string_def)

end
