(* ===== verification/Router.thy ===== *)
theory Router
  imports Prelude
begin

text \<open>
  \<^verbatim>\<open>pkg/broker/router.go\<close>: which client listens under which connection ID, and which
  two clients are linked. A \<^verbatim>\<open>*ClientConn\<close> is known here by its identity (\<open>cid\<close>).
  Every operation holds the router's lock for its whole body, so it is one step.

  Go iterates over a map in an unspecified order; \<open>Remove\<close> takes the order of its loop as the
  list \<open>ord\<close> of the keys, and the theorems hold for every order.
\<close>

type_synonym cid = nat

record router =
  listeners :: "string \<rightharpoonup> cid"
  peers :: "cid \<rightharpoonup> cid"

definition NewRouter :: router where
  "NewRouter = \<lparr>listeners = Map.empty, peers = Map.empty\<rparr>"

definition RegisterListener :: "router \<Rightarrow> string \<Rightarrow> cid \<Rightarrow> error option \<times> router" where
  "RegisterListener r connectionID client =
     (case listeners r connectionID of
        Some _ \<Rightarrow> (Some (Quotedf ''connection ID '' connectionID '' is already registered''), r)
      | None \<Rightarrow> (None, r\<lparr>listeners := (listeners r)(connectionID \<mapsto> client)\<rparr>))"

definition FindListener :: "router \<Rightarrow> string \<Rightarrow> cid option" where
  "FindListener r connectionID = listeners r connectionID"

definition LinkConnector :: "router \<Rightarrow> string \<Rightarrow> cid \<Rightarrow> error option \<times> router" where
  "LinkConnector r connectionID connector =
     (case listeners r connectionID of
        None \<Rightarrow> (Some (Quotedf ''no listener registered for connection ID '' connectionID ''''), r)
      | Some listener \<Rightarrow>
          (case peers r listener of
             Some _ \<Rightarrow> (Some (Quotedf ''connection ID '' connectionID '' already has a linked connector''), r)
           | None \<Rightarrow> (None, r\<lparr>peers := (peers r)(listener \<mapsto> connector, connector \<mapsto> listener)\<rparr>)))"

definition GetPeer :: "router \<Rightarrow> cid \<Rightarrow> cid option" where
  "GetPeer r client = peers r client"

text \<open>The loop over the listeners stops at the first key that belongs to the client.\<close>

definition Remove :: "string list \<Rightarrow> router \<Rightarrow> cid \<Rightarrow> router" where
  "Remove ord r client =
     (let r1 = (case find (\<lambda>k. listeners r k = Some client) ord of
                  None \<Rightarrow> r
                | Some k \<Rightarrow> r\<lparr>listeners := (listeners r)(k := None)\<rparr>)
      in case peers r1 client of
           None \<Rightarrow> r1
         | Some peer \<Rightarrow> r1\<lparr>peers := (peers r1)(peer := None, client := None)\<rparr>)"

text \<open>An order in which Go may visit the map.\<close>

definition map_order :: "string list \<Rightarrow> router \<Rightarrow> bool" where
  "map_order ord r \<longleftrightarrow> distinct ord \<and> set ord = dom (listeners r)"

text \<open>
  The invariant: links are mutual, a client listens under at most one ID, and there are finitely
  many registrations. The second part is what makes the early exit of \<open>Remove\<close>'s loop correct.
\<close>

definition router_inv :: "router \<Rightarrow> bool" where
  "router_inv r \<longleftrightarrow>
     (\<forall>a b. peers r a = Some b \<longrightarrow> peers r b = Some a) \<and>
     (\<forall>i j c. listeners r i = Some c \<longrightarrow> listeners r j = Some c \<longrightarrow> i = j) \<and>
     finite (dom (listeners r))"

lemma router_inv_sym: "router_inv r \<Longrightarrow> peers r a = Some b \<Longrightarrow> peers r b = Some a"
  unfolding router_inv_def by blast

lemma router_inv_inj: "router_inv r \<Longrightarrow> listeners r i = Some c \<Longrightarrow> listeners r j = Some c \<Longrightarrow> i = j"
  unfolding router_inv_def by blast

lemma router_inv_finite: "router_inv r \<Longrightarrow> finite (dom (listeners r))"
  unfolding router_inv_def by blast

lemma router_invI [intro]:
  assumes "\<And>a b. peers r a = Some b \<Longrightarrow> peers r b = Some a"
    and "\<And>i j c. listeners r i = Some c \<Longrightarrow> listeners r j = Some c \<Longrightarrow> i = j"
    and "finite (dom (listeners r))"
  shows "router_inv r"
  unfolding router_inv_def using assms by blast

lemma router_inv_New [inv_intros]: "router_inv NewRouter"
  by (simp add: router_inv_def NewRouter_def)

lemma RegisterListener_cases:
  assumes "RegisterListener r k c = (e, r')"
  obtains d where "listeners r k = Some d" "e \<noteq> None" "r' = r"
  | "listeners r k = None" "e = None" "r' = r\<lparr>listeners := (listeners r)(k \<mapsto> c)\<rparr>"
  using assms by (auto simp: RegisterListener_def split: option.splits)

lemma LinkConnector_cases:
  assumes "LinkConnector r k c = (e, r')"
  obtains "listeners r k = None" "e \<noteq> None" "r' = r"
  | l p where "listeners r k = Some l" "peers r l = Some p" "e \<noteq> None" "r' = r"
  | l where "listeners r k = Some l" "peers r l = None" "e = None"
      "r' = r\<lparr>peers := (peers r)(l \<mapsto> c, c \<mapsto> l)\<rparr>"
proof (cases "listeners r k")
  case None
  with assms show ?thesis by (intro that(1)) (auto simp: LinkConnector_def)
next
  case (Some l)
  show ?thesis
  proof (cases "peers r l")
    case None
    with Some assms show ?thesis by (intro that(3) [of l]) (simp_all add: LinkConnector_def)
  next
    case p: (Some p)
    with Some assms show ?thesis by (intro that(2) [of l p]) (auto simp: LinkConnector_def)
  qed
qed

lemma router_inv_Register [inv_intros]:
  assumes inv: "router_inv r" and reg: "RegisterListener r k c = (e, r')" and fresh: "c \<notin> ran (listeners r)"
  shows "router_inv r'"
  using reg
proof (cases rule: RegisterListener_cases)
  case 2
  show ?thesis
  proof
    fix a b assume "peers r' a = Some b"
    then have "peers r a = Some b" using 2 by simp
    from router_inv_sym [OF inv this] show "peers r' b = Some a" using 2 by simp
  next
    fix i j d assume "listeners r' i = Some d" "listeners r' j = Some d"
    moreover from fresh have "listeners r x \<noteq> Some c" for x by (auto intro: ranI)
    ultimately show "i = j" using 2 router_inv_inj [OF inv] by (auto split: if_splits)
  next
    show "finite (dom (listeners r'))" using 2 router_inv_finite [OF inv] by simp
  qed
qed (use inv in simp)

lemma router_inv_Link [inv_intros]:
  assumes inv: "router_inv r" and lnk: "LinkConnector r k c = (e, r')" and fresh: "peers r c = None"
  shows "router_inv r'"
  using lnk
proof (cases rule: LinkConnector_cases)
  case (3 l)
  show ?thesis
  proof
    fix a b assume ab: "peers r' a = Some b"
    show "peers r' b = Some a"
    proof (cases "a = c \<or> a = l")
      case True
      then show ?thesis using ab 3 by (auto split: if_splits)
    next
      case False
      with ab 3 have "peers r a = Some b" by simp
      from router_inv_sym [OF inv this]
      have "peers r b = Some a" .
      with 3 fresh show ?thesis by auto
    qed
  next
    fix i j d assume "listeners r' i = Some d" "listeners r' j = Some d"
    then show "i = j" using 3 router_inv_inj [OF inv] by simp
  next
    show "finite (dom (listeners r'))" using 3 router_inv_finite [OF inv] by simp
  qed
qed (use inv in simp_all)

lemma Remove_listeners:
  assumes "router_inv r" "map_order ord r"
  shows "listeners (Remove ord r c) = (\<lambda>k. if listeners r k = Some c then None else listeners r k)"
proof (cases "find (\<lambda>k. listeners r k = Some c) ord")
  case None
  then have "\<forall>k\<in>dom (listeners r). listeners r k \<noteq> Some c"
    using assms(2) by (auto simp: find_None_iff map_order_def)
  then have none: "listeners r k \<noteq> Some c" for k by (cases "listeners r k") auto
  from None have "listeners (Remove ord r c) = listeners r"
    by (simp add: Remove_def Let_def split: option.split)
  with none show ?thesis by (auto simp: fun_eq_iff)
next
  case (Some i)
  then have i: "listeners r i = Some c" by (auto simp: find_Some_iff)
  have "listeners (Remove ord r c) = (listeners r)(i := None)"
    by (simp add: Remove_def Some Let_def split: option.split)
  moreover have "listeners r j = Some c \<longleftrightarrow> j = i" for j
    using i router_inv_inj [OF assms(1)] by blast
  ultimately show ?thesis by (simp add: fun_eq_iff)
qed

lemma Remove_peers:
  "peers (Remove ord r c) =
     (\<lambda>x. if x = c \<or> peers r c = Some x then None else peers r x)"
  by (auto simp: Remove_def Let_def fun_eq_iff split: option.splits)

lemma router_inv_Remove [inv_intros]:
  assumes "router_inv r" "map_order ord r"
  shows "router_inv (Remove ord r c)"
proof (rule router_invI; unfold Remove_listeners [OF assms] Remove_peers)
  fix a b
  assume "(if a = c \<or> peers r c = Some a then None else peers r a) = Some b"
  then have ab: "a \<noteq> c" "peers r c \<noteq> Some a" "peers r a = Some b" by (auto split: if_splits)
  then have ba: "peers r b = Some a" by (blast intro: router_inv_sym [OF assms(1)])
  with ab have "b \<noteq> c" "peers r c \<noteq> Some b"
    using router_inv_sym [OF assms(1), of c b] by auto
  with ba show "(if b = c \<or> peers r c = Some b then None else peers r b) = Some a" by simp
next
  fix i j d
  assume "(if listeners r i = Some c then None else listeners r i) = Some d"
    and "(if listeners r j = Some c then None else listeners r j) = Some d"
  then show "i = j" using router_inv_inj [OF assms(1)] by (auto split: if_splits)
next
  have "dom (\<lambda>k. if listeners r k = Some c then None else listeners r k) \<subseteq> dom (listeners r)"
    by (auto split: if_splits)
  then show "finite (dom (\<lambda>k. if listeners r k = Some c then None else listeners r k))"
    using router_inv_finite [OF assms(1)] by (rule finite_subset)
qed

subsection \<open>The interface the broker relies on\<close>

text \<open>
  A pairing service: clients are found under a name, and at most two clients are linked to each
  other. The broker's relay and close sequence use only these laws.
\<close>

locale pairing_service =
  fixes find :: "'r \<Rightarrow> string \<Rightarrow> cid option"
    and peer :: "'r \<Rightarrow> cid \<Rightarrow> cid option"
    and link :: "'r \<Rightarrow> string \<Rightarrow> cid \<Rightarrow> error option \<times> 'r"
    and rem :: "'o \<Rightarrow> 'r \<Rightarrow> cid \<Rightarrow> 'r"
    and order :: "'o \<Rightarrow> 'r \<Rightarrow> bool"
    and inv :: "'r \<Rightarrow> bool"
  assumes peer_sym: "inv r \<Longrightarrow> peer r a = Some b \<Longrightarrow> peer r b = Some a"
    and link_ok: "inv r \<Longrightarrow> peer r c = None \<Longrightarrow> find r k = Some l \<Longrightarrow> peer r l = None \<Longrightarrow>
          \<exists>r'. link r k c = (None, r') \<and> inv r' \<and> peer r' = (peer r)(l \<mapsto> c, c \<mapsto> l) \<and> find r' = find r"
    and link_err: "inv r \<Longrightarrow> find r k = None \<or> (\<exists>l. find r k = Some l \<and> peer r l \<noteq> None) \<Longrightarrow>
          \<exists>e. link r k c = (Some e, r)"
    and peer_rem: "inv r \<Longrightarrow> order ord r \<Longrightarrow>
          peer (rem ord r c) x = (if x = c \<or> peer r c = Some x then None else peer r x)"
    and find_rem: "inv r \<Longrightarrow> order ord r \<Longrightarrow>
          find (rem ord r c) k = (if find r k = Some c then None else find r k)"
    and inv_rem: "inv r \<Longrightarrow> order ord r \<Longrightarrow> inv (rem ord r c)"
begin

text \<open>After a removal nothing refers to the client any more, on either side.\<close>

lemma removed_unreferenced:
  assumes "inv r" "order ord r"
  shows "find (rem ord r c) k \<noteq> Some c" "peer (rem ord r c) c = None" "peer (rem ord r c) x \<noteq> Some c"
proof -
  show "find (rem ord r c) k \<noteq> Some c" using find_rem [OF assms] by simp
  show "peer (rem ord r c) c = None" using peer_rem [OF assms] by simp
  then show "peer (rem ord r c) x \<noteq> Some c"
    using peer_sym [OF inv_rem [OF assms], of _ x c] by auto
qed

text \<open>Removing a client frees its peer, so the peer's own removal finds no peer.\<close>

lemma peer_freed: "inv r \<Longrightarrow> order ord r \<Longrightarrow> peer r c = Some p \<Longrightarrow> peer (rem ord r c) p = None"
  by (simp add: peer_rem)

text \<open>Other links survive.\<close>

lemma others_kept:
  assumes "inv r" "order ord r" "peer r x = Some y" "x \<noteq> c" "y \<noteq> c"
  shows "peer (rem ord r c) x = Some y"
  using assms peer_sym [OF assms(1), of c x] by (auto simp: peer_rem)

text \<open>The listener side of a successful link is reserved until one of the two is removed.\<close>

lemma link_exclusive:
  assumes "inv r" "peer r c = None" "link r k c = (None, r')"
  shows "\<exists>e. link r' k d = (Some e, r')"
proof -
  obtain l where l: "find r k = Some l" "peer r l = None"
    using link_err [OF assms(1), of k c] assms(3) by (cases "find r k") force+
  with link_ok [OF assms(1,2) l] assms(3) show ?thesis
    by (intro link_err) auto
qed

end

interpretation rt: pairing_service FindListener GetPeer LinkConnector Remove map_order router_inv
proof
  fix r a b assume "router_inv r" "GetPeer r a = Some b"
  then show "GetPeer r b = Some a" unfolding GetPeer_def by (rule router_inv_sym)
next
  fix r c k l
  assume "router_inv r" "GetPeer r c = None" "FindListener r k = Some l" "GetPeer r l = None"
  then show "\<exists>r'. LinkConnector r k c = (None, r') \<and> router_inv r' \<and>
      GetPeer r' = (GetPeer r)(l \<mapsto> c, c \<mapsto> l) \<and> FindListener r' = FindListener r"
    using router_inv_Link [of r k c None]
    by (auto simp: LinkConnector_def GetPeer_def FindListener_def fun_eq_iff)
next
  fix r k c
  assume "FindListener r k = None \<or> (\<exists>l. FindListener r k = Some l \<and> GetPeer r l \<noteq> None)"
  then show "\<exists>e. LinkConnector r k c = (Some e, r)"
    by (auto simp: LinkConnector_def FindListener_def GetPeer_def)
next
  fix r ord c x
  show "GetPeer (Remove ord r c) x = (if x = c \<or> GetPeer r c = Some x then None else GetPeer r x)"
    by (simp add: GetPeer_def Remove_peers)
next
  fix r ord c k assume "router_inv r" "map_order ord r"
  then show "FindListener (Remove ord r c) k = (if FindListener r k = Some c then None else FindListener r k)"
    by (simp add: FindListener_def Remove_listeners)
next
  fix r ord c assume "router_inv r" "map_order ord r"
  then show "router_inv (Remove ord r c)" by (rule router_inv_Remove)
qed

subsection \<open>Refinement of an abstract registry\<close>

text \<open>
  The abstract registry is a set of registrations and a set of two-element (or, for a client
  linked to itself, one-element) links.
\<close>

type_synonym registry = "(string \<times> cid) set \<times> cid set set"

definition links_of :: "(cid \<rightharpoonup> cid) \<Rightarrow> cid set set" where
  "links_of p = {{a, b} | a b. p a = Some b}"

definition registry_of :: "router \<Rightarrow> registry" where
  "registry_of r = ({(i, c). listeners r i = Some c}, links_of (peers r))"

definition spec_register :: "registry \<Rightarrow> string \<Rightarrow> cid \<Rightarrow> registry option" where
  "spec_register g i c =
     (if \<exists>d. (i, d) \<in> fst g then None else Some (insert (i, c) (fst g), snd g))"

definition spec_link :: "registry \<Rightarrow> string \<Rightarrow> cid \<Rightarrow> registry \<Rightarrow> bool" where
  "spec_link g i c g' \<longleftrightarrow>
     (\<exists>l. (i, l) \<in> fst g \<and> (\<forall>p\<in>snd g. l \<notin> p) \<and> g' = (fst g, insert {l, c} (snd g)))"

definition spec_remove :: "registry \<Rightarrow> cid \<Rightarrow> registry" where
  "spec_remove g c = ({x \<in> fst g. snd x \<noteq> c}, {p \<in> snd g. c \<notin> p})"

lemma mem_links_of: "x \<in> links_of p \<longleftrightarrow> (\<exists>a b. p a = Some b \<and> x = {a, b})"
  by (auto simp: links_of_def)

lemma registry_link_iff:
  assumes "router_inv r"
  shows "(\<exists>p\<in>links_of (peers r). l \<in> p) \<longleftrightarrow> peers r l \<noteq> None"
proof
  assume "\<exists>p\<in>links_of (peers r). l \<in> p"
  then obtain a b where "peers r a = Some b" "l = a \<or> l = b" by (auto simp: mem_links_of)
  then show "peers r l \<noteq> None" using router_inv_sym [OF assms, of a b] by auto
next
  assume "peers r l \<noteq> None"
  then obtain p where "peers r l = Some p" by auto
  then have "{l, p} \<in> links_of (peers r)" unfolding mem_links_of by blast
  then show "\<exists>p\<in>links_of (peers r). l \<in> p" by blast
qed

lemma refine_register:
  assumes "RegisterListener r i c = (e, r')"
  shows "case e of None \<Rightarrow> spec_register (registry_of r) i c = Some (registry_of r')
     | Some _ \<Rightarrow> spec_register (registry_of r) i c = None \<and> r' = r"
  using assms
  by (cases rule: RegisterListener_cases) (auto simp: spec_register_def registry_of_def split: if_splits)

lemma links_of_linked:
  assumes "p l = None" "p c = None"
  shows "links_of (p(l \<mapsto> c, c \<mapsto> l)) = insert {l, c} (links_of p)"
proof (rule set_eqI, rule iffI)
  fix x assume "x \<in> links_of (p(l \<mapsto> c, c \<mapsto> l))"
  then show "x \<in> insert {l, c} (links_of p)"
    by (auto simp: mem_links_of split: if_splits)
next
  fix x assume "x \<in> insert {l, c} (links_of p)"
  then consider "x = {c, l}" | a b where "p a = Some b" "x = {a, b}" by (auto simp: mem_links_of)
  then show "x \<in> links_of (p(l \<mapsto> c, c \<mapsto> l))"
  proof cases
    case 1
    have "(p(l \<mapsto> c, c \<mapsto> l)) c = Some l" by simp
    with 1 show ?thesis unfolding mem_links_of by blast
  next
    case 2
    with assms have "(p(l \<mapsto> c, c \<mapsto> l)) a = Some b" by auto
    with 2 show ?thesis unfolding mem_links_of by blast
  qed
qed

lemma refine_link:
  assumes inv: "router_inv r" and lnk: "LinkConnector r i c = (e, r')" and fresh: "peers r c = None"
  shows "case e of None \<Rightarrow> spec_link (registry_of r) i c (registry_of r')
    | Some _ \<Rightarrow> (\<nexists>g. spec_link (registry_of r) i c g) \<and> r' = r"
  using lnk
proof (cases rule: LinkConnector_cases)
  case 1
  then show ?thesis by (auto simp: spec_link_def registry_of_def)
next
  case (2 l p)
  then have "\<exists>p\<in>links_of (peers r). l \<in> p" by (simp add: registry_link_iff [OF inv])
  with 2 show ?thesis by (auto simp: spec_link_def registry_of_def)
next
  case (3 l)
  then have "\<forall>p\<in>links_of (peers r). l \<notin> p" using registry_link_iff [OF inv, of l] by blast
  moreover have "registry_of r' = (fst (registry_of r), insert {l, c} (snd (registry_of r)))"
    using 3 links_of_linked [of "peers r", OF 3(2) fresh] by (simp add: registry_of_def)
  ultimately show ?thesis using 3 by (auto simp: spec_link_def registry_of_def)
qed

lemma links_of_Remove:
  assumes "router_inv r"
  shows "links_of (peers (Remove ord r c)) = {p \<in> links_of (peers r). c \<notin> p}" (is "?A = ?B")
proof (rule set_eqI, rule iffI)
  fix x assume "x \<in> ?A"
  then obtain a b where x: "x = {a, b}" "a \<noteq> c" "peers r c \<noteq> Some a" "peers r a = Some b"
    by (auto simp: mem_links_of Remove_peers split: if_splits)
  then have "b \<noteq> c" using router_inv_sym [OF assms] by blast
  with x show "x \<in> ?B" by (auto simp: mem_links_of)
next
  fix x assume "x \<in> ?B"
  then obtain a b where x: "x = {a, b}" "peers r a = Some b" "a \<noteq> c" "b \<noteq> c"
    by (auto simp: mem_links_of)
  then have "peers (Remove ord r c) a = Some b"
    using router_inv_sym [OF assms, of c a] by (auto simp: Remove_peers)
  with x show "x \<in> ?A" unfolding mem_links_of by blast
qed

lemma refine_remove:
  assumes "router_inv r" "map_order ord r"
  shows "registry_of (Remove ord r c) = spec_remove (registry_of r) c"
  by (auto simp: registry_of_def spec_remove_def Remove_listeners [OF assms]
      links_of_Remove [OF assms(1)] split: if_splits)

text \<open>C22: the router implements an abstract registry. Registering, linking and removing commute
  with the abstraction to a set of registrations and a set of links; an operation fails exactly
  when the specification does not allow it, and then changes nothing; the removal takes away
  every registration and link of the client in whatever order Go visits the map.\<close>

theorem router_refines_registry:
  assumes "router_inv r" "map_order ord r" "peers r c = None"
  shows "(case RegisterListener r i d of
            (None, r') \<Rightarrow> spec_register (registry_of r) i d = Some (registry_of r')
          | (Some _, r') \<Rightarrow> spec_register (registry_of r) i d = None \<and> r' = r) \<and>
    (case LinkConnector r i c of
            (None, r') \<Rightarrow> spec_link (registry_of r) i c (registry_of r')
          | (Some _, r') \<Rightarrow> (\<nexists>g. spec_link (registry_of r) i c g) \<and> r' = r) \<and>
    registry_of (Remove ord r x) = spec_remove (registry_of r) x"
proof (intro conjI)
  show "case RegisterListener r i d of
            (None, r') \<Rightarrow> spec_register (registry_of r) i d = Some (registry_of r')
          | (Some _, r') \<Rightarrow> spec_register (registry_of r) i d = None \<and> r' = r"
    using refine_register [of r i d] by (auto split: prod.split option.split)
  show "case LinkConnector r i c of
            (None, r') \<Rightarrow> spec_link (registry_of r) i c (registry_of r')
          | (Some _, r') \<Rightarrow> (\<nexists>g. spec_link (registry_of r) i c g) \<and> r' = r"
    using refine_link [OF assms(1) _ assms(3), of i] by (auto split: prod.split option.split)
  show "registry_of (Remove ord r x) = spec_remove (registry_of r) x"
    by (rule refine_remove [OF assms(1,2)])
qed

definition sample_router :: router where
  "sample_router = \<lparr>listeners = [''web'' \<mapsto> 1, ''ssh'' \<mapsto> 4], peers = [1 \<mapsto> 2, 2 \<mapsto> 1]\<rparr>"

lemma sample_router_inv: "router_inv sample_router"
  by (rule router_invI) (auto simp: sample_router_def split: if_splits)

lemma sample_router_order: "map_order [''ssh'', ''web''] sample_router"
  by (auto simp: map_order_def sample_router_def)

theorem router_refines_registry_witness:
  "registry_of (Remove [''ssh'', ''web''] sample_router 1) = spec_remove (registry_of sample_router) 1 \<and>
   spec_link (registry_of sample_router) ''ssh'' 3 (registry_of (snd (LinkConnector sample_router ''ssh'' 3))) \<and>
   spec_register (registry_of sample_router) ''web'' 9 = None"
proof -
  have "peers sample_router 3 = None" by (simp add: sample_router_def)
  note t = router_refines_registry [OF sample_router_inv sample_router_order this]
  have "LinkConnector sample_router ''ssh'' 3 = (None, snd (LinkConnector sample_router ''ssh'' 3))"
    by (simp add: LinkConnector_def sample_router_def)
  then have "spec_link (registry_of sample_router) ''ssh'' 3 (registry_of (snd (LinkConnector sample_router ''ssh'' 3)))"
    using t [of "''ssh''" 0 0] by (simp split: prod.splits option.splits)
  moreover have "spec_register (registry_of sample_router) ''web'' 9 = None"
    using t [of "''web''" 9 0] by (simp add: RegisterListener_def sample_router_def)
  ultimately show ?thesis using t [of "''web''" 9 1] by blast
qed

end
