(* ===== verification/Go_Crypto.thy ===== *)
theory Go_Crypto
  imports Prelude
begin

text \<open>
  The parts of Go's standard library that \<^verbatim>\<open>pkg/crypto\<close> and the authentication code
  call: \<^verbatim>\<open>crypto/sha256\<close>, \<^verbatim>\<open>crypto/hkdf\<close>, \<^verbatim>\<open>crypto/aes\<close> with a 32-byte key and
  \<^verbatim>\<open>crypto/cipher\<close>'s GCM with its standard 12-byte nonce and 16-byte tag, all as
  executable definitions that follow FIPS 180-4, RFC 2104, RFC 5869, FIPS 197 and NIST SP 800-38D.
  X25519 (\<^verbatim>\<open>crypto/ecdh\<close>) is not defined here: the key exchange takes it
  as a parameter.
\<close>

subsection \<open>SHA-256\<close>

definition sha256_K :: "u32 list" where
  "sha256_K =
    [1116352408, 1899447441, 3049323471, 3921009573, 961987163, 1508970993, 2453635748,
     2870763221, 3624381080, 310598401, 607225278, 1426881987, 1925078388, 2162078206,
     2614888103, 3248222580, 3835390401, 4022224774, 264347078, 604807628, 770255983,
     1249150122, 1555081692, 1996064986, 2554220882, 2821834349, 2952996808, 3210313671,
     3336571891, 3584528711, 113926993, 338241895, 666307205, 773529912, 1294757372,
     1396182291, 1695183700, 1986661051, 2177026350, 2456956037, 2730485921, 2820302411,
     3259730800, 3345764771, 3516065817, 3600352804, 4094571909, 275423344, 430227734,
     506948616, 659060556, 883997877, 958139571, 1322822218, 1537002063, 1747873779,
     1955562222, 2024104815, 2227730452, 2361852424, 2428436474, 2756734187, 3204031479,
     3329325298]"

definition sha256_H0 :: "u32 list" where
  "sha256_H0 =
    [1779033703, 3144134277, 1013904242, 2773480762, 1359893119, 2600822924, 528734635,
     1541459225]"

definition rotr32 :: "nat \<Rightarrow> u32 \<Rightarrow> u32" where
  "rotr32 n w = word_rotr n w"

fun chunks :: "nat \<Rightarrow> 'a list \<Rightarrow> 'a list list" where
  "chunks n xs = (if n = 0 \<or> xs = [] then [] else take n xs # chunks n (drop n xs))"

declare chunks.simps [simp del]

definition sha256_pad :: "bytes \<Rightarrow> bytes" where
  "sha256_pad m =
     m @ [0x80] @ replicate ((119 - length m mod 64) mod 64) 0 @ PutUint64 (of_nat (8 * length m))"

definition sha256_schedule_step :: "u32 list \<Rightarrow> nat \<Rightarrow> u32 list" where
  "sha256_schedule_step w t =
     (let a = w ! (t - 2); b = w ! (t - 15);
          s1 = rotr32 17 a XOR rotr32 19 a XOR drop_bit 10 a;
          s0 = rotr32 7 b XOR rotr32 18 b XOR drop_bit 3 b
      in w @ [s1 + w ! (t - 7) + s0 + w ! (t - 16)])"

definition sha256_schedule :: "bytes \<Rightarrow> u32 list" where
  "sha256_schedule block = foldl sha256_schedule_step (map Uint32 (chunks 4 block)) [16..<64]"

fun sha256_round :: "u32 list \<Rightarrow> u32 \<times> u32 \<Rightarrow> u32 list" where
  "sha256_round [a, b, c, d, e, f, g, h] (k, w) =
     (let t1 = h + (rotr32 6 e XOR rotr32 11 e XOR rotr32 25 e) + ((e AND f) XOR (NOT e AND g)) + k + w;
          t2 = (rotr32 2 a XOR rotr32 13 a XOR rotr32 22 a) + ((a AND b) XOR (a AND c) XOR (b AND c))
      in [t1 + t2, a, b, c, d + t1, e, f, g])"
| "sha256_round st _ = st"

definition sha256_block :: "u32 list \<Rightarrow> bytes \<Rightarrow> u32 list" where
  "sha256_block hs block =
     map2 (+) hs (foldl sha256_round hs (zip sha256_K (sha256_schedule block)))"

definition sha256_Sum256 :: "bytes \<Rightarrow> bytes" where
  "sha256_Sum256 m =
     concat (map PutUint32 (foldl sha256_block sha256_H0 (chunks 64 (sha256_pad m))))"

subsection \<open>HMAC and HKDF\<close>

definition xor_pad :: "byte \<Rightarrow> bytes \<Rightarrow> bytes" where
  "xor_pad b key = map (\<lambda>x. x XOR b) (key @ replicate (64 - length key) 0)"

definition hmac_sha256 :: "bytes \<Rightarrow> bytes \<Rightarrow> bytes" where
  "hmac_sha256 key msg =
     (let k = (if length key > 64 then sha256_Sum256 key else key)
      in sha256_Sum256 (xor_pad 0x5c k @ sha256_Sum256 (xor_pad 0x36 k @ msg)))"

fun hkdf_blocks :: "bytes \<Rightarrow> bytes \<Rightarrow> bytes \<Rightarrow> nat \<Rightarrow> nat \<Rightarrow> bytes" where
  "hkdf_blocks prk info prev i 0 = []"
| "hkdf_blocks prk info prev i (Suc n) =
     (let t = hmac_sha256 prk (prev @ info @ [of_nat i])
      in t @ hkdf_blocks prk info t (Suc i) n)"

text \<open>\<^verbatim>\<open>hkdf.Key(sha256.New, secret, salt, info, keyLength)\<close>.\<close>

definition hkdf_Key :: "bytes \<Rightarrow> bytes \<Rightarrow> string \<Rightarrow> nat \<Rightarrow> bytes result" where
  "hkdf_Key secret salt info keyLength =
     (if keyLength > 255 * 32 then Inl (Errorf ''hkdf: requested key length too large'')
      else Inr (take keyLength
        (hkdf_blocks (hmac_sha256 salt secret) (bytes_of_string info) [] 1 ((keyLength + 31) div 32))))"

lemma length_sha256_round [simp]: "length (sha256_round st kw) = length st"
  by (induction st kw rule: sha256_round.induct) (simp_all add: Let_def)

lemma length_foldl_keep: "(\<And>s x. length (f s x) = length s) \<Longrightarrow> length (foldl f s xs) = length s"
  by (induction xs arbitrary: s) simp_all

lemma length_sha256_block [simp]: "length (sha256_block hs b) = length hs"
  by (simp add: sha256_block_def length_foldl_keep)

lemma length_concat_PutUint32: "length (concat (map PutUint32 ws)) = 4 * length ws"
  by (induction ws) simp_all

lemma length_sha256 [simp, wire_simps]: "length (sha256_Sum256 m) = 32"
  by (simp add: sha256_Sum256_def length_concat_PutUint32 length_foldl_keep sha256_H0_def)

lemma length_hmac [simp, wire_simps]: "length (hmac_sha256 k m) = 32"
  by (simp add: hmac_sha256_def Let_def)

lemma length_hkdf_blocks [simp]: "length (hkdf_blocks prk info prev i n) = 32 * n"
  by (induction n arbitrary: prev i) (simp_all add: Let_def)

lemma hkdf_Key_length: "hkdf_Key secret salt info n = Inr k \<Longrightarrow> length k = n"
  by (auto simp: hkdf_Key_def split: if_splits)

lemma hkdf_Key_ok: "n \<le> 8160 \<Longrightarrow> \<exists>k. hkdf_Key secret salt info n = Inr k"
  by (simp add: hkdf_Key_def)

subsection \<open>AES-256\<close>

definition aes_sbox :: bytes where
  "aes_sbox =
    [0x63, 0x7c, 0x77, 0x7b, 0xf2, 0x6b, 0x6f, 0xc5, 0x30, 0x01, 0x67, 0x2b, 0xfe, 0xd7, 0xab, 0x76,
     0xca, 0x82, 0xc9, 0x7d, 0xfa, 0x59, 0x47, 0xf0, 0xad, 0xd4, 0xa2, 0xaf, 0x9c, 0xa4, 0x72, 0xc0,
     0xb7, 0xfd, 0x93, 0x26, 0x36, 0x3f, 0xf7, 0xcc, 0x34, 0xa5, 0xe5, 0xf1, 0x71, 0xd8, 0x31, 0x15,
     0x04, 0xc7, 0x23, 0xc3, 0x18, 0x96, 0x05, 0x9a, 0x07, 0x12, 0x80, 0xe2, 0xeb, 0x27, 0xb2, 0x75,
     0x09, 0x83, 0x2c, 0x1a, 0x1b, 0x6e, 0x5a, 0xa0, 0x52, 0x3b, 0xd6, 0xb3, 0x29, 0xe3, 0x2f, 0x84,
     0x53, 0xd1, 0x00, 0xed, 0x20, 0xfc, 0xb1, 0x5b, 0x6a, 0xcb, 0xbe, 0x39, 0x4a, 0x4c, 0x58, 0xcf,
     0xd0, 0xef, 0xaa, 0xfb, 0x43, 0x4d, 0x33, 0x85, 0x45, 0xf9, 0x02, 0x7f, 0x50, 0x3c, 0x9f, 0xa8,
     0x51, 0xa3, 0x40, 0x8f, 0x92, 0x9d, 0x38, 0xf5, 0xbc, 0xb6, 0xda, 0x21, 0x10, 0xff, 0xf3, 0xd2,
     0xcd, 0x0c, 0x13, 0xec, 0x5f, 0x97, 0x44, 0x17, 0xc4, 0xa7, 0x7e, 0x3d, 0x64, 0x5d, 0x19, 0x73,
     0x60, 0x81, 0x4f, 0xdc, 0x22, 0x2a, 0x90, 0x88, 0x46, 0xee, 0xb8, 0x14, 0xde, 0x5e, 0x0b, 0xdb,
     0xe0, 0x32, 0x3a, 0x0a, 0x49, 0x06, 0x24, 0x5c, 0xc2, 0xd3, 0xac, 0x62, 0x91, 0x95, 0xe4, 0x79,
     0xe7, 0xc8, 0x37, 0x6d, 0x8d, 0xd5, 0x4e, 0xa9, 0x6c, 0x56, 0xf4, 0xea, 0x65, 0x7a, 0xae, 0x08,
     0xba, 0x78, 0x25, 0x2e, 0x1c, 0xa6, 0xb4, 0xc6, 0xe8, 0xdd, 0x74, 0x1f, 0x4b, 0xbd, 0x8b, 0x8a,
     0x70, 0x3e, 0xb5, 0x66, 0x48, 0x03, 0xf6, 0x0e, 0x61, 0x35, 0x57, 0xb9, 0x86, 0xc1, 0x1d, 0x9e,
     0xe1, 0xf8, 0x98, 0x11, 0x69, 0xd9, 0x8e, 0x94, 0x9b, 0x1e, 0x87, 0xe9, 0xce, 0x55, 0x28, 0xdf,
     0x8c, 0xa1, 0x89, 0x0d, 0xbf, 0xe6, 0x42, 0x68, 0x41, 0x99, 0x2d, 0x0f, 0xb0, 0x54, 0xbb, 0x16]"

definition SubByte :: "byte \<Rightarrow> byte" where
  "SubByte b = aes_sbox ! unat b"

definition xtime :: "byte \<Rightarrow> byte" where
  "xtime b = push_bit 1 b XOR (if bit b 7 then 0x1b else 0)"

definition key_schedule_step :: "bytes list \<Rightarrow> nat \<Rightarrow> bytes list" where
  "key_schedule_step w i =
     (let prev = w ! (i - 1);
          temp = (if i mod 8 = 0
                  then map2 (XOR) (map SubByte (rotate1 prev)) [push_bit (i div 8 - 1) 1, 0, 0, 0]
                  else if i mod 8 = 4 then map SubByte prev else prev)
      in w @ [map2 (XOR) (w ! (i - 8)) temp])"

text \<open>The 15 round keys of 16 bytes.\<close>

definition aes_round_keys :: "bytes \<Rightarrow> bytes list" where
  "aes_round_keys key = chunks 16 (concat (foldl key_schedule_step (chunks 4 key) [8..<60]))"

definition AddRoundKey :: "bytes \<Rightarrow> bytes \<Rightarrow> bytes" where
  "AddRoundKey k s = map (\<lambda>i. s ! i XOR k ! i) [0..<16]"

definition ShiftRows :: "bytes \<Rightarrow> bytes" where
  "ShiftRows s = map (\<lambda>i. s ! ((i mod 4 + 4 * ((i div 4 + i mod 4) mod 4)))) [0..<16]"

fun MixColumn :: "bytes \<Rightarrow> bytes" where
  "MixColumn [a, b, c, d] =
     [xtime a XOR (xtime b XOR b) XOR c XOR d, a XOR xtime b XOR (xtime c XOR c) XOR d,
      a XOR b XOR xtime c XOR (xtime d XOR d), (xtime a XOR a) XOR b XOR c XOR xtime d]"
| "MixColumn s = s"

definition aes_round :: "bytes \<Rightarrow> bytes \<Rightarrow> bytes" where
  "aes_round s k = AddRoundKey k (concat (map MixColumn (chunks 4 (ShiftRows (map SubByte s)))))"

definition aes_block :: "bytes list \<Rightarrow> bytes \<Rightarrow> bytes" where
  "aes_block ks blk =
     AddRoundKey (ks ! 14) (ShiftRows (map SubByte
       (foldl aes_round (AddRoundKey (ks ! 0) blk) (map (\<lambda>i. ks ! i) [1..<14]))))"

lemma length_aes_block [simp]: "length (aes_block ks blk) = 16"
  by (simp add: aes_block_def AddRoundKey_def)

subsection \<open>GCM\<close>

text \<open>
  A value of the interface type \<^verbatim>\<open>cipher.AEAD\<close>: its two methods. The additional data is
  always \<^verbatim>\<open>nil\<close> in this program. \<open>Open\<close> is \<^term>\<open>None\<close> where Go returns
  \<^verbatim>\<open>cipher: message authentication failed\<close>.
\<close>

record cipher_AEAD =
  Seal :: "bytes \<Rightarrow> bytes \<Rightarrow> bytes"
  Open :: "bytes \<Rightarrow> bytes \<Rightarrow> bytes option"

definition word_of_block :: "bytes \<Rightarrow> 128 word" where
  "word_of_block bs = foldl (\<lambda>acc b. push_bit 8 acc OR ucast b) 0 bs"

definition block_of_word :: "128 word \<Rightarrow> bytes" where
  "block_of_word w = map (\<lambda>i. ucast (drop_bit (8 * (15 - i)) w)) [0..<16]"

definition gf_step :: "128 word \<Rightarrow> 128 word \<times> 128 word \<Rightarrow> nat \<Rightarrow> 128 word \<times> 128 word" where
  "gf_step x zv i =
     (case zv of (z, v) \<Rightarrow>
        (if bit x (127 - i) then z XOR v else z,
         drop_bit 1 v XOR (if bit v 0 then 0xe1000000000000000000000000000000 else 0)))"

definition gf_mult :: "128 word \<Rightarrow> 128 word \<Rightarrow> 128 word" where
  "gf_mult x y = fst (foldl (gf_step x) (0, y) [0..<128])"

definition ghash :: "128 word \<Rightarrow> bytes \<Rightarrow> 128 word" where
  "ghash h c =
     (let pad = (\<lambda>b. b @ replicate (16 - length b) 0);
          y = foldl (\<lambda>acc b. gf_mult (acc XOR word_of_block (pad b)) h) 0 (chunks 16 c)
      in gf_mult (y XOR of_nat (8 * length c)) h)"

function gctr :: "(bytes \<Rightarrow> bytes) \<Rightarrow> bytes \<Rightarrow> u32 \<Rightarrow> bytes \<Rightarrow> bytes" where
  "gctr E nonce ctr xs =
     (if xs = [] then []
      else map2 (XOR) (take 16 xs) (E (nonce @ PutUint32 ctr)) @ gctr E nonce (ctr + 1) (drop 16 xs))"
  by pat_completeness auto
termination
  by (relation "measure (\<lambda>(E, nonce, ctr, xs). length xs)") auto

declare gctr.simps [simp del]

definition gcm_tag :: "(bytes \<Rightarrow> bytes) \<Rightarrow> bytes \<Rightarrow> bytes \<Rightarrow> bytes" where
  "gcm_tag E nonce c =
     block_of_word (ghash (word_of_block (E (replicate 16 0))) c XOR word_of_block (E (nonce @ PutUint32 1)))"

definition gcm_Seal :: "(bytes \<Rightarrow> bytes) \<Rightarrow> bytes \<Rightarrow> bytes \<Rightarrow> bytes" where
  "gcm_Seal E nonce plaintext =
     (let c = gctr E nonce 2 plaintext in c @ gcm_tag E nonce c)"

definition gcm_Open :: "(bytes \<Rightarrow> bytes) \<Rightarrow> bytes \<Rightarrow> bytes \<Rightarrow> bytes option" where
  "gcm_Open E nonce ciphertext =
     (if length ciphertext < 16 then None
      else let c = take (length ciphertext - 16) ciphertext;
               tag = drop (length ciphertext - 16) ciphertext
           in if tag = gcm_tag E nonce c then Some (gctr E nonce 2 c) else None)"

text \<open>\<^verbatim>\<open>cipher.NewGCM(aes.NewCipher(key))\<close> for a 32-byte key.\<close>

definition aes_NewGCM :: "bytes \<Rightarrow> cipher_AEAD" where
  "aes_NewGCM key =
     (let E = aes_block (aes_round_keys key) in \<lparr>Seal = gcm_Seal E, Open = gcm_Open E\<rparr>)"

lemma length_gcm_tag [simp]: "length (gcm_tag E nonce c) = 16"
  by (simp add: gcm_tag_def block_of_word_def)

lemma length_gctr:
  "(\<And>b. length (E b) = 16) \<Longrightarrow> length (gctr E nonce ctr xs) = length xs"
proof (induction E nonce ctr xs rule: gctr.induct)
  case (1 E nonce ctr xs)
  then show ?case
    by (subst gctr.simps) (simp add: min_def)
qed

lemma map2_xor_cancel:
  "length xs \<le> length ks \<Longrightarrow> map2 (XOR) (map2 (XOR) xs ks) ks = (xs :: bytes)"
  by (rule nth_equalityI) (simp_all add: xor.assoc)

text \<open>Counter mode is its own inverse.\<close>

lemma gctr_involution:
  "(\<And>b. length (E b) = 16) \<Longrightarrow> gctr E nonce ctr (gctr E nonce ctr xs) = xs"
proof (induction E nonce ctr xs rule: gctr.induct)
  case (1 E nonce ctr xs)
  show ?case
  proof (cases "xs = []")
    case True
    then show ?thesis by (simp add: gctr.simps)
  next
    case False
    define k where "k = E (nonce @ PutUint32 ctr)"
    define r where "r = gctr E nonce (ctr + 1) (drop 16 xs)"
    have lk: "length k = 16" by (simp add: k_def "1.prems")
    have IH: "gctr E nonce (ctr + 1) r = drop 16 xs"
      unfolding r_def using False "1.prems" by (rule "1.IH")
    have eq: "gctr E nonce ctr xs = map2 (XOR) (take 16 xs) k @ r"
      using False by (simp add: gctr.simps [of E nonce ctr xs] k_def r_def)
    have short: "r = []" if "length xs < 16"
      using that by (simp add: r_def gctr.simps)
    define u where "u = map2 (XOR) (take 16 xs) k @ r"
    have tk: "take 16 u = map2 (XOR) (take 16 xs) k" and dr: "drop 16 u = r"
      using lk short by (cases "length xs < 16"; simp add: u_def min_def)+
    have "u \<noteq> []"
    proof
      assume "u = []"
      with tk have "map2 (XOR) (take 16 xs) k = []" by simp
      with False lk show False by auto
    qed
    then have "gctr E nonce ctr u = map2 (XOR) (take 16 u) k @ gctr E nonce (ctr + 1) (drop 16 u)"
      by (simp add: gctr.simps [of E nonce ctr u] k_def)
    also have "\<dots> = xs"
      using lk by (simp add: tk dr map2_xor_cancel IH)
    finally show ?thesis by (simp only: eq u_def)
  qed
qed

text \<open>What \<^verbatim>\<open>pkg/crypto\<close> relies on: opening a sealed message gives it back.\<close>

lemma aes_NewGCM_Open_Seal [simp]:
  "Open (aes_NewGCM key) nonce (Seal (aes_NewGCM key) nonce p) = Some p"
  by (simp add: aes_NewGCM_def Let_def gcm_Open_def gcm_Seal_def gctr_involution)

lemma length_aes_NewGCM_Seal [simp, wire_simps]:
  "length (Seal (aes_NewGCM key) nonce p) = length p + 16"
  by (simp add: aes_NewGCM_def Let_def gcm_Seal_def length_gctr)

end
