(* ===== verification/Aead.thy ===== *)
theory Aead
  imports Go_Crypto
begin

text \<open>
  \<^verbatim>\<open>pkg/crypto/aead.go\<close>: AES-256-GCM with counter nonces. The state of an
  \<^verbatim>\<open>AEAD\<close> is the cipher and a 64-bit counter; the mutex around \<^verbatim>\<open>nextNonce\<close>
  makes reading and advancing the counter one step. The lemmas show that nonces never repeat
  within \<open>2 ^ 64\<close> messages, and that the receiver accepts genuine messages only at the position
  they were sent at.
\<close>

definition AESKeySize :: nat where
  "AESKeySize = 32"

definition NonceSize :: nat where
  "NonceSize = 12"

definition crypto_MaxFrameSize :: nat where
  "crypto_MaxFrameSize = 1048576"

record AEAD =
  gcm :: cipher_AEAD
  counter :: u64

definition NewAEAD :: "bytes \<Rightarrow> AEAD result" where
  "NewAEAD key =
     (if length key \<noteq> AESKeySize
      then Inl (Errorf (''invalid key size: got '' @ dec (length key) @ '' bytes, want '' @
             dec AESKeySize @ '' bytes''))
      else Inr \<lparr>gcm = aes_NewGCM key, counter = 0\<rparr>)"

definition nextNonce :: "AEAD \<Rightarrow> bytes \<times> AEAD" where
  "nextNonce a = (replicate 4 0 @ PutUint64 (counter a), a\<lparr>counter := counter a + 1\<rparr>)"

definition nonceEqual :: "bytes \<Rightarrow> bytes \<Rightarrow> bool" where
  "nonceEqual a b =
     (if length a \<noteq> length b then False else list_all (\<lambda>i. a ! i = b ! i) [0..<length a])"

definition Encrypt :: "AEAD \<Rightarrow> bytes \<Rightarrow> bytes result \<times> AEAD" where
  "Encrypt a plaintext =
     (if length plaintext > crypto_MaxFrameSize
      then (Inl (Errorf (''plaintext exceeds maximum frame size: '' @ dec (length plaintext) @
              '' > '' @ dec crypto_MaxFrameSize)), a)
      else let (nonce, a') = nextNonce a;
               ciphertext = Seal (gcm a) nonce plaintext
           in (Inr (nonce @ ciphertext), a'))"

definition Decrypt :: "AEAD \<Rightarrow> bytes \<Rightarrow> bytes result \<times> AEAD" where
  "Decrypt a ciphertextWithNonce =
     (if length ciphertextWithNonce < NonceSize
      then (Inl (Errorf ''ciphertext too short: missing nonce''), a)
      else let wireNonce = take NonceSize ciphertextWithNonce;
               ciphertext = drop NonceSize ciphertextWithNonce;
               (expectedNonce, a') = nextNonce a
           in if \<not> nonceEqual wireNonce expectedNonce
              then (Inl (Errorf ''nonce mismatch: possible replay or reorder attack''), a')
              else case Open (gcm a) wireNonce ciphertext of
                     None \<Rightarrow> (Inl (Wrapf ''decryption failed''
                                (Errorf ''cipher: message authentication failed'')), a')
                   | Some plaintext \<Rightarrow> (Inr plaintext, a'))"

text \<open>Runs of calls on one object.\<close>

fun Encrypt_all :: "AEAD \<Rightarrow> bytes list \<Rightarrow> bytes result list \<times> AEAD" where
  "Encrypt_all a [] = ([], a)"
| "Encrypt_all a (p # ps) =
     (let (r, a') = Encrypt a p; (rs, a'') = Encrypt_all a' ps in (r # rs, a''))"

fun Decrypt_all :: "AEAD \<Rightarrow> bytes list \<Rightarrow> bytes result list \<times> AEAD" where
  "Decrypt_all a [] = ([], a)"
| "Decrypt_all a (c # cs) =
     (let (r, a') = Decrypt a c; (rs, a'') = Decrypt_all a' cs in (r # rs, a''))"

subsection \<open>Nonces\<close>

definition nonce_at :: "u64 \<Rightarrow> bytes" where
  "nonce_at c = replicate 4 0 @ PutUint64 c"

lemma length_nonce_at [simp]: "length (nonce_at c) = NonceSize"
  by (simp add: nonce_at_def NonceSize_def)

lemma nonce_at_inj [simp]: "nonce_at c = nonce_at d \<longleftrightarrow> c = d"
  by (simp add: nonce_at_def)

lemma nextNonce_eq: "nextNonce a = (nonce_at (counter a), a\<lparr>counter := counter a + 1\<rparr>)"
  by (simp add: nextNonce_def nonce_at_def)

lemma nonceEqual_iff [simp]: "nonceEqual a b \<longleftrightarrow> a = b"
  by (auto simp: nonceEqual_def list_all_iff intro: nth_equalityI)

subsection \<open>Single calls\<close>

lemma Encrypt_ok:
  "length p \<le> crypto_MaxFrameSize \<Longrightarrow>
    Encrypt a p = (Inr (nonce_at (counter a) @ Seal (gcm a) (nonce_at (counter a)) p),
                   a\<lparr>counter := counter a + 1\<rparr>)"
  by (simp add: Encrypt_def nextNonce_eq)

lemma Encrypt_oversize:
  "crypto_MaxFrameSize < length p \<Longrightarrow> \<exists>e. Encrypt a p = (Inl e, a)"
  by (simp add: Encrypt_def)

lemma Encrypt_cases:
  obtains (ok) "length p \<le> crypto_MaxFrameSize"
      "Encrypt a p = (Inr (nonce_at (counter a) @ Seal (gcm a) (nonce_at (counter a)) p),
                      a\<lparr>counter := counter a + 1\<rparr>)"
    | (err) e where "crypto_MaxFrameSize < length p" "Encrypt a p = (Inl e, a)"
  using Encrypt_ok [of p a] Encrypt_oversize [of p a] by (meson not_le)

text \<open>Acceptance, exactly: the expected nonce and a valid tag.\<close>

lemma Decrypt_iff:
  "fst (Decrypt a ct) = Inr p \<longleftrightarrow>
     (\<exists>c. ct = nonce_at (counter a) @ c \<and> Open (gcm a) (nonce_at (counter a)) c = Some p)"
proof
  assume "fst (Decrypt a ct) = Inr p"
  then have "take NonceSize ct = nonce_at (counter a)"
    and "Open (gcm a) (nonce_at (counter a)) (drop NonceSize ct) = Some p"
    by (auto simp: Decrypt_def nextNonce_eq Let_def split: if_splits option.splits)
  then show "\<exists>c. ct = nonce_at (counter a) @ c \<and> Open (gcm a) (nonce_at (counter a)) c = Some p"
    by (metis append_take_drop_id)
qed (auto simp: Decrypt_def nextNonce_eq)

lemma Decrypt_counter:
  "snd (Decrypt a ct) = (if length ct < NonceSize then a else a\<lparr>counter := counter a + 1\<rparr>)"
  by (simp add: Decrypt_def nextNonce_eq Let_def split: option.split)

lemma Decrypt_mismatch:
  "NonceSize \<le> length ct \<Longrightarrow> take NonceSize ct \<noteq> nonce_at (counter a) \<Longrightarrow>
    fst (Decrypt a ct) = Inl (Errorf ''nonce mismatch: possible replay or reorder attack'')"
  by (simp add: Decrypt_def nextNonce_eq)

lemma Decrypt_Encrypt:
  assumes "gcm b = gcm a" "counter b = counter a" "gcm a = aes_NewGCM key"
    and "Encrypt a p = (Inr ct, a')"
  shows "Decrypt b ct = (Inr p, b\<lparr>counter := counter b + 1\<rparr>)" "counter a' = counter a + 1"
    "gcm a' = gcm a" "length ct = length p + 28"
  using assms by (cases rule: Encrypt_cases [of p a];
      auto simp: Decrypt_def nextNonce_eq NonceSize_def)+

subsection \<open>Runs\<close>

lemma Encrypt_all_nth:
  assumes "\<forall>p\<in>set ps. length p \<le> crypto_MaxFrameSize" "i < length ps"
  shows "fst (Encrypt_all a ps) ! i =
    Inr (nonce_at (counter a + of_nat i) @
         Seal (gcm a) (nonce_at (counter a + of_nat i)) (ps ! i))"
  using assms
proof (induction ps arbitrary: a i)
  case Nil
  then show ?case by simp
next
  case (Cons p ps)
  show ?case
  proof (cases i)
    case 0
    with Cons.prems show ?thesis by (simp add: Encrypt_ok Let_def split_def)
  next
    case (Suc j)
    with Cons.prems Cons.IH [of j "a\<lparr>counter := counter a + 1\<rparr>"]
    show ?thesis by (simp add: Encrypt_ok Let_def split_def add.assoc)
  qed
qed

lemma length_Encrypt_all [simp]: "length (fst (Encrypt_all a ps)) = length ps"
  by (induction ps arbitrary: a) (simp_all add: Let_def split_def)

lemma length_Decrypt_all [simp]: "length (fst (Decrypt_all a cs)) = length cs"
  by (induction cs arbitrary: a) (simp_all add: Let_def split_def)

lemma Decrypt_all_gcm [simp]: "gcm (snd (Decrypt_all a cs)) = gcm a"
  by (induction cs arbitrary: a) (simp_all add: Let_def split_def Decrypt_counter)

text \<open>A call that fails after the length check still uses up its position.\<close>

lemma Decrypt_all_counter:
  "counter (snd (Decrypt_all a cs)) =
     counter a + of_nat (length (filter (\<lambda>c. NonceSize \<le> length c) cs))"
  by (induction cs arbitrary: a) (auto simp: Let_def split_def Decrypt_counter)

lemma Decrypt_all_append:
  "Decrypt_all a (cs @ ds) =
     (fst (Decrypt_all a cs) @ fst (Decrypt_all (snd (Decrypt_all a cs)) ds),
      snd (Decrypt_all (snd (Decrypt_all a cs)) ds))"
  by (induction cs arbitrary: a) (simp_all add: Let_def split_def)

lemma Decrypt_all_nth:
  "i < length cs \<Longrightarrow>
    fst (Decrypt_all a cs) ! i = fst (Decrypt (snd (Decrypt_all a (take i cs))) (cs ! i))"
proof (induction cs arbitrary: a i)
  case Nil
  then show ?case by simp
next
  case (Cons c cs)
  then show ?case by (cases i) (simp_all add: Let_def split_def)
qed

text \<open>
  Messages of one sender at their positions: what was encrypted as number \<open>j\<close> is accepted as
  number \<open>i\<close> only if \<open>i = j\<close>.
\<close>

lemma Decrypt_position:
  assumes small: "i < 2 ^ 64" "j < 2 ^ 64"
    and dec: "fst (Decrypt a (nonce_at (counter a0 + of_nat j) @ c)) = Inr q"
    and pos: "counter a = counter a0 + of_nat i"
  shows "i = j"
proof -
  from dec obtain c' where "nonce_at (counter a0 + of_nat j) @ c = nonce_at (counter a) @ c'"
    using Decrypt_iff by blast
  then have "counter a0 + of_nat j = counter a" by simp
  with pos have "(of_nat i :: u64) = of_nat j" by simp
  then show ?thesis using of_nat_u64_inj [OF small] by simp
qed

text \<open>C11: no nonce is used twice under one key within the first \<open>2 ^ 64\<close> messages: the nonces
  in front of the ciphertexts that successive \<^verbatim>\<open>Encrypt\<close> calls return are pairwise
  different, whatever the plaintexts are.\<close>

theorem Encrypt_nonces_distinct:
  assumes "\<forall>p\<in>set ps. length p \<le> crypto_MaxFrameSize" "length ps \<le> 2 ^ 64"
    and "fst (Encrypt_all a ps) = map Inr cts"
  shows "distinct (map (take NonceSize) cts)"
proof -
  have len: "length cts = length ps"
    using assms(3) by (metis length_Encrypt_all length_map)
  have at: "take NonceSize (cts ! i) = nonce_at (counter a + of_nat i)" if "i < length ps" for i
    using Encrypt_all_nth [OF assms(1) that, of a] that by (simp add: assms(3) len)
  have "map (take NonceSize) cts ! i \<noteq> map (take NonceSize) cts ! j"
    if "i < length ps" "j < length ps" "i \<noteq> j" for i j
    using that assms(2) of_nat_u64_inj [of i j] by (simp add: len at)
  then show ?thesis by (simp add: distinct_conv_nth len)
qed

theorem Encrypt_nonces_distinct_witness:
  "distinct (map (take NonceSize)
     [nonce_at 0 @ Seal (aes_NewGCM (replicate 32 0)) (nonce_at 0) [1, 2],
      nonce_at 1 @ Seal (aes_NewGCM (replicate 32 0)) (nonce_at 1) [1, 2]])"
  by (rule Encrypt_nonces_distinct [of "[[1, 2], [1, 2]]" "\<lparr>gcm = aes_NewGCM (replicate 32 0), counter = 0\<rparr>"])
    (simp_all add: crypto_MaxFrameSize_def Encrypt_ok)

text \<open>C10: replayed, reordered and dropped messages are detected. An adversary delivers any
  sequence \<open>ds\<close> of ciphertexts the sender produced (in any order, any number of times, with any
  gaps); a message accepted as number \<open>i\<close> is the message that was sent as number \<open>i\<close>. This
  holds for every position, also after earlier messages were rejected.\<close>

theorem Decrypt_accepts_in_order:
  assumes "\<forall>p\<in>set ps. length p \<le> crypto_MaxFrameSize" "length ps \<le> 2 ^ 64"
    and "fst (Encrypt_all a ps) = map Inr cts" "gcm a = aes_NewGCM key"
    and "gcm b = gcm a" "counter b = counter a"
    and "set ds \<subseteq> set cts" "length ds \<le> 2 ^ 64" "i < length ds"
    and "fst (Decrypt_all b ds) ! i = Inr q"
  shows "i < length ps \<and> q = ps ! i"
proof -
  have len: "length cts = length ps"
    using assms(3) by (metis length_Encrypt_all length_map)
  have at: "cts ! j = nonce_at (counter a + of_nat j) @
      Seal (gcm a) (nonce_at (counter a + of_nat j)) (ps ! j)" if "j < length ps" for j
    using Encrypt_all_nth [OF assms(1) that, of a] that by (simp add: assms(3) len)
  have long: "NonceSize \<le> length d" if "d \<in> set cts" for d
    using that at len by (auto simp: in_set_conv_nth)
  from assms(7,9) obtain j where j: "j < length ps" "ds ! i = cts ! j"
    using len by (metis in_set_conv_nth subsetD)
  define b' where "b' = snd (Decrypt_all b (take i ds))"
  have "filter (\<lambda>c. NonceSize \<le> length c) (take i ds) = take i ds"
    using long assms(7) by (auto simp: filter_id_conv dest: in_set_takeD)
  then have cnt: "counter b' = counter a + of_nat i"
    using assms(6,9) by (simp add: b'_def Decrypt_all_counter)
  from assms(9,10) have dec: "fst (Decrypt b' (cts ! j)) = Inr q"
    by (simp add: Decrypt_all_nth b'_def j)
  then have "i = j"
    using Decrypt_position [of i j b' a _ q] at [OF j(1)] cnt j(1) assms(2,8,9) by simp
  with dec at [OF j(1)] cnt assms(4,5) have "q = ps ! i"
    by (auto simp: Decrypt_iff b'_def)
  with \<open>i = j\<close> j(1) show ?thesis by simp
qed

theorem Decrypt_accepts_in_order_witness:
  "\<exists>c0 c1. (let a = \<lparr>gcm = aes_NewGCM (replicate 32 0), counter = 0\<rparr> in
     fst (Encrypt_all a [[7], [8]]) = map Inr [c0, c1] \<and>
     fst (Decrypt_all a [c0, c0, c1]) ! 0 = Inr [7] \<and> 0 < length [[7::byte], [8]] \<and> [7] = [[7::byte], [8]] ! 0)"
proof -
  define a where "a = \<lparr>gcm = aes_NewGCM (replicate 32 0), counter = 0\<rparr>"
  define c0 where "c0 = nonce_at 0 @ Seal (gcm a) (nonce_at 0) [7]"
  define c1 where "c1 = nonce_at 1 @ Seal (gcm a) (nonce_at 1) [8]"
  have enc: "fst (Encrypt_all a [[7], [8]]) = map Inr [c0, c1]"
    by (simp add: Encrypt_ok crypto_MaxFrameSize_def c0_def c1_def a_def)
  have "fst (Decrypt a c0) = Inr [7]"
    by (simp add: Decrypt_iff c0_def a_def)
  then have dec: "fst (Decrypt_all a [c0, c0, c1]) ! 0 = Inr [7]"
    by (simp add: Let_def split_def)
  have "0 < length [[7::byte], [8]] \<and> [7] = [[7::byte], [8]] ! 0"
    by (rule Decrypt_accepts_in_order [OF _ _ enc, of "replicate 32 0" a "[c0, c0, c1]" 0 "[7]"])
      (use dec in \<open>simp_all add: crypto_MaxFrameSize_def a_def\<close>)
  with enc dec show ?thesis unfolding a_def [symmetric] Let_def by blast
qed

end
