(* ===== verification/KeyExchange.thy ===== *)
theory KeyExchange
  imports Aead
begin

text \<open>
  \<^verbatim>\<open>pkg/crypto/handshake.go\<close>: X25519 key pairs and the derivation of one AES key per
  direction. Curve arithmetic (\<^verbatim>\<open>crypto/ecdh\<close>) is the parameter \<open>curve\<close>; what the
  program relies on is stated where it is used: both sides compute the same shared secret.
\<close>

text \<open>
  \<^verbatim>\<open>PrivateKey.PublicKey().Bytes()\<close> and \<^verbatim>\<open>PrivateKey.ECDH(remote)\<close> on raw
  32-byte keys; \<^verbatim>\<open>ECDH\<close> fails on a remote point of low order.
\<close>

record curve =
  public_of :: "bytes \<Rightarrow> bytes"
  ECDH :: "bytes \<Rightarrow> bytes \<Rightarrow> bytes result"

definition HKDFInfoClientToServer :: string where
  "HKDFInfoClientToServer = ''go-connect-v1-client-to-server''"

definition HKDFInfoServerToClient :: string where
  "HKDFInfoServerToClient = ''go-connect-v1-server-to-client''"

record DirectionalKeys =
  SendKey :: bytes
  RecvKey :: bytes

record KeyPair =
  PrivateKey :: bytes
  PublicKey :: bytes

text \<open>\<open>rand\<close> is what \<^verbatim>\<open>GenerateKey(rand.Reader)\<close> returns.\<close>

definition GenerateKeyPair :: "curve \<Rightarrow> bytes result \<Rightarrow> KeyPair result" where
  "GenerateKeyPair cv rand =
     (case rand of
        Inl err \<Rightarrow> Inl (Wrapf ''failed to generate X25519 key pair'' err)
      | Inr priv \<Rightarrow> Inr \<lparr>PrivateKey = priv, PublicKey = public_of cv priv\<rparr>)"

definition PublicKeyBytes :: "KeyPair \<Rightarrow> bytes" where
  "PublicKeyBytes kp = PublicKey kp"

text \<open>\<^verbatim>\<open>ecdh.X25519().NewPublicKey\<close> accepts exactly the 32-byte strings.\<close>

definition NewPublicKey :: "bytes \<Rightarrow> bytes result" where
  "NewPublicKey bs = (if length bs = 32 then Inr bs else Inl (Errorf ''crypto/ecdh: invalid public key''))"

text \<open>\<^verbatim>\<open>bytes.Compare\<close>: -1, 0 or 1 in lexicographic order.\<close>

fun bytes_Compare :: "bytes \<Rightarrow> bytes \<Rightarrow> int" where
  "bytes_Compare [] [] = 0"
| "bytes_Compare [] (b # bs) = -1"
| "bytes_Compare (a # as) [] = 1"
| "bytes_Compare (a # as) (b # bs) =
     (if a < b then -1 else if b < a then 1 else bytes_Compare as bs)"

definition DeriveDirectionalKeys :: "curve \<Rightarrow> KeyPair \<Rightarrow> bytes \<Rightarrow> DirectionalKeys result" where
  "DeriveDirectionalKeys cv loc remotePublicKeyBytes =
     (case NewPublicKey remotePublicKeyBytes of
        Inl err \<Rightarrow> Inl (Wrapf ''failed to parse remote public key'' err)
      | Inr remotePubKey \<Rightarrow>
     (case ECDH cv (PrivateKey loc) remotePubKey of
        Inl err \<Rightarrow> Inl (Wrapf ''ECDH key exchange failed'' err)
      | Inr sharedSecret \<Rightarrow>
     let localPubBytes = PublicKeyBytes loc;
         saltInput = (if bytes_Compare localPubBytes remotePublicKeyBytes < 0
                      then localPubBytes @ remotePublicKeyBytes
                      else remotePublicKeyBytes @ localPubBytes);
         salt = sha256_Sum256 saltInput
     in
     (case hkdf_Key sharedSecret salt HKDFInfoClientToServer AESKeySize of
        Inl err \<Rightarrow> Inl (Wrapf ''HKDF key derivation (client-to-server) failed'' err)
      | Inr clientToServerKey \<Rightarrow>
     (case hkdf_Key sharedSecret salt HKDFInfoServerToClient AESKeySize of
        Inl err \<Rightarrow> Inl (Wrapf ''HKDF key derivation (server-to-client) failed'' err)
      | Inr serverToClientKey \<Rightarrow>
     if bytes_Compare localPubBytes remotePublicKeyBytes < 0
     then Inr \<lparr>SendKey = clientToServerKey, RecvKey = serverToClientKey\<rparr>
     else Inr \<lparr>SendKey = serverToClientKey, RecvKey = clientToServerKey\<rparr>))))"

lemma bytes_Compare_zero [simp]: "bytes_Compare a b = 0 \<longleftrightarrow> a = b"
  by (induction a b rule: bytes_Compare.induct) auto

lemma bytes_Compare_swap: "bytes_Compare b a = - bytes_Compare a b"
  by (induction a b rule: bytes_Compare.induct) auto

lemma bytes_Compare_less_iff: "a \<noteq> b \<Longrightarrow> bytes_Compare a b < 0 \<longleftrightarrow> \<not> bytes_Compare b a < 0"
  using bytes_Compare_zero [of a b] by (simp add: bytes_Compare_swap [of b a] not_less le_less)

text \<open>The two keys of an exchange, named by the direction they protect.\<close>

definition direction_key :: "bytes \<Rightarrow> bytes \<Rightarrow> bytes \<Rightarrow> string \<Rightarrow> bytes" where
  "direction_key secret lo hi info =
     take 32 (hkdf_blocks (hmac_sha256 (sha256_Sum256 (lo @ hi)) secret) (bytes_of_string info) [] 1 1)"

lemma hkdf_Key_32:
  "hkdf_Key secret (sha256_Sum256 (lo @ hi)) info AESKeySize = Inr (direction_key secret lo hi info)"
  by (simp add: hkdf_Key_def AESKeySize_def direction_key_def)

lemma length_direction_key [simp]: "length (direction_key s lo hi info) = 32"
  by (simp add: direction_key_def)

lemma DeriveDirectionalKeys_eq:
  assumes "length remote = 32" "ECDH cv (PrivateKey loc) remote = Inr secret"
  shows "DeriveDirectionalKeys cv loc remote = Inr
    (if bytes_Compare (PublicKey loc) remote < 0
     then \<lparr>SendKey = direction_key secret (PublicKey loc) remote HKDFInfoClientToServer,
           RecvKey = direction_key secret (PublicKey loc) remote HKDFInfoServerToClient\<rparr>
     else \<lparr>SendKey = direction_key secret remote (PublicKey loc) HKDFInfoServerToClient,
           RecvKey = direction_key secret remote (PublicKey loc) HKDFInfoClientToServer\<rparr>)"
  using assms by (simp add: DeriveDirectionalKeys_def NewPublicKey_def PublicKeyBytes_def Let_def hkdf_Key_32)

lemma DeriveDirectionalKeys_ok:
  assumes "DeriveDirectionalKeys cv loc remote = Inr ks"
  shows "length remote = 32" "\<exists>secret. ECDH cv (PrivateKey loc) remote = Inr secret"
    "length (SendKey ks) = 32" "length (RecvKey ks) = 32"
proof -
  show len: "length remote = 32" and ex: "\<exists>secret. ECDH cv (PrivateKey loc) remote = Inr secret"
    using assms by (auto simp: DeriveDirectionalKeys_def NewPublicKey_def split: if_splits sum.splits)
  then obtain secret where "ECDH cv (PrivateKey loc) remote = Inr secret" by blast
  from DeriveDirectionalKeys_eq [OF len this] assms
  show "length (SendKey ks) = 32" "length (RecvKey ks) = 32"
    by (auto split: if_splits)
qed

lemma DeriveDirectionalKeys_mirror:
  assumes "length (PublicKey a) = 32" "length (PublicKey b) = 32" "PublicKey a \<noteq> PublicKey b"
    and "ECDH cv (PrivateKey a) (PublicKey b) = Inr secret"
    and "ECDH cv (PrivateKey b) (PublicKey a) = Inr secret"
  shows "\<exists>ka kb. DeriveDirectionalKeys cv a (PublicKey b) = Inr ka \<and>
    DeriveDirectionalKeys cv b (PublicKey a) = Inr kb \<and>
    SendKey ka = RecvKey kb \<and> RecvKey ka = SendKey kb"
  using bytes_Compare_less_iff [OF assms(3)] assms
  by (auto simp: DeriveDirectionalKeys_eq)

text \<open>C12: key agreement. When the two private keys give the same shared secret (the X25519
  contract) and the public keys are different 32-byte strings, both sides derive keys, what one
  side sends with is what the other receives with, and every key has 32 bytes. The roles come
  from the order of the public keys alone, so neither side needs to know who connected to
  whom.\<close>

theorem DeriveDirectionalKeys_agree:
  assumes "length (PublicKey a) = 32" "length (PublicKey b) = 32" "PublicKey a \<noteq> PublicKey b"
    and "ECDH cv (PrivateKey a) (PublicKey b) = Inr secret"
    and "ECDH cv (PrivateKey b) (PublicKey a) = Inr secret"
  shows "\<exists>ka kb. DeriveDirectionalKeys cv a (PublicKey b) = Inr ka \<and>
    DeriveDirectionalKeys cv b (PublicKey a) = Inr kb \<and>
    SendKey ka = RecvKey kb \<and> RecvKey ka = SendKey kb \<and>
    length (SendKey ka) = AESKeySize \<and> length (RecvKey ka) = AESKeySize"
  using DeriveDirectionalKeys_mirror [OF assms] DeriveDirectionalKeys_ok(3,4)
  by (metis AESKeySize_def)

text \<open>A commutative exchange, for the witnesses.\<close>

definition sample_curve :: curve where
  "sample_curve =
     \<lparr>public_of = (\<lambda>k. k),
      ECDH = (\<lambda>k p. Inr (map2 (XOR) k p))\<rparr>"

theorem DeriveDirectionalKeys_agree_witness:
  "\<exists>ka kb.
     DeriveDirectionalKeys sample_curve \<lparr>PrivateKey = replicate 32 1, PublicKey = replicate 32 1\<rparr>
       (replicate 32 2) = Inr ka \<and>
     DeriveDirectionalKeys sample_curve \<lparr>PrivateKey = replicate 32 2, PublicKey = replicate 32 2\<rparr>
       (replicate 32 1) = Inr kb \<and> SendKey ka = RecvKey kb \<and> RecvKey ka = SendKey kb"
  using DeriveDirectionalKeys_agree
      [of "\<lparr>PrivateKey = replicate 32 1, PublicKey = replicate 32 1\<rparr>"
          "\<lparr>PrivateKey = replicate 32 2, PublicKey = replicate 32 2\<rparr>" sample_curve "replicate 32 3"]
  by (auto simp: sample_curve_def zip_replicate)

end
