(* ===== verification/Conn.thy ===== *)
theory Conn
  imports Prelude
begin

text \<open>
  The connection under every component: \<^verbatim>\<open>net.Conn\<close> as the sources use it
  (\<^verbatim>\<open>Write\<close>, \<^verbatim>\<open>io.ReadFull\<close>, \<^verbatim>\<open>Close\<close>, \<^verbatim>\<open>SetReadDeadline\<close>), and the
  FIFO contract a reliable byte stream gives to the layers above it.

  A connection holds the bytes the peer has sent and this side has not read (\<open>rx\<close>), what a
  read reports once they are used up (\<open>rx_end\<close>: end of stream, a timeout, a reset), the bytes
  this side has written (\<open>tx\<close>), how many more bytes it can take before a write fails
  (\<open>tx_room\<close>, \<^term>\<open>None\<close> for a connection that never fails), and whether it is closed.
\<close>

record net_conn =
  rx :: bytes
  rx_end :: error
  tx :: bytes
  tx_room :: "nat option"
  conn_closed :: bool

text \<open>A write that fails half-way has written a proper prefix.\<close>

definition conn_Write :: "net_conn \<Rightarrow> bytes \<Rightarrow> error option \<times> net_conn" where
  "conn_Write c bs =
     (if conn_closed c then (Some ErrClosed, c)
      else case tx_room c of
        None \<Rightarrow> (None, c\<lparr>tx := tx c @ bs\<rparr>)
      | Some n \<Rightarrow>
          if length bs \<le> n then (None, c\<lparr>tx := tx c @ bs, tx_room := Some (n - length bs)\<rparr>)
          else (Some ErrReset, c\<lparr>tx := tx c @ take n bs, tx_room := Some 0\<rparr>))"

text \<open>
  \<^verbatim>\<open>io.ReadFull\<close>: exactly \<open>n\<close> bytes or an error; an end of stream after some but
  not all bytes is \<open>ErrUnexpectedEOF\<close>.
\<close>

definition io_ReadFull :: "net_conn \<Rightarrow> nat \<Rightarrow> bytes result \<times> net_conn" where
  "io_ReadFull c n =
     (if n = 0 then (Inr [], c)
      else if conn_closed c then (Inl ErrClosed, c)
      else if n \<le> length (rx c) then (Inr (take n (rx c)), c\<lparr>rx := drop n (rx c)\<rparr>)
      else (Inl (if rx c \<noteq> [] \<and> rx_end c = EOF then ErrUnexpectedEOF else rx_end c),
            c\<lparr>rx := []\<rparr>))"

definition conn_Close :: "net_conn \<Rightarrow> net_conn" where
  "conn_Close c = c\<lparr>conn_closed := True\<rparr>"

definition conn_SetReadDeadline :: "net_conn \<Rightarrow> error option" where
  "conn_SetReadDeadline c = (if conn_closed c then Some ErrClosed else None)"

text \<open>
  TCP between the two ends of a connection: what one end has written arrives, in order and
  complete, behind what the other end has not read yet.
\<close>

definition deliver :: "net_conn \<Rightarrow> net_conn \<Rightarrow> net_conn \<times> net_conn" where
  "deliver a b = (a\<lparr>tx := []\<rparr>, b\<lparr>rx := rx b @ tx a\<rparr>)"

text \<open>An end that neither fails nor is closed.\<close>

definition healthy :: "net_conn \<Rightarrow> bool" where
  "healthy c \<longleftrightarrow> \<not> conn_closed c \<and> tx_room c = None"

lemma healthy_Write [simp]: "healthy c \<Longrightarrow> conn_Write c bs = (None, c\<lparr>tx := tx c @ bs\<rparr>)"
  by (simp add: healthy_def conn_Write_def)

lemma healthy_rx_tx [simp]:
  "healthy (c\<lparr>rx := a\<rparr>) = healthy c" "healthy (c\<lparr>tx := a\<rparr>) = healthy c"
  by (simp_all add: healthy_def)

lemma healthy_not_closed [simp]: "healthy c \<Longrightarrow> \<not> conn_closed c"
  by (simp add: healthy_def)

text \<open>A read never touches the outgoing side, a write never touches the incoming side.\<close>

lemma conn_Write_frame:
  assumes "conn_Write c bs = (r, c')"
  shows "rx c' = rx c" "rx_end c' = rx_end c" "conn_closed c' = conn_closed c"
    "\<exists>n. tx c' = tx c @ take n bs" "r = None \<Longrightarrow> tx c' = tx c @ bs"
proof -
  show "rx c' = rx c" "rx_end c' = rx_end c" "conn_closed c' = conn_closed c"
    using assms by (auto simp: conn_Write_def split: if_splits option.splits)
  show "\<exists>n. tx c' = tx c @ take n bs"
  proof (cases "conn_closed c")
    case True
    with assms have "tx c' = tx c @ take 0 bs" by (simp add: conn_Write_def)
    then show ?thesis ..
  next
    case alive: False
    show ?thesis
    proof (cases "tx_room c")
      case None
      with assms alive have "tx c' = tx c @ take (length bs) bs" by (auto simp: conn_Write_def)
      then show ?thesis ..
    next
      case (Some n)
      with assms alive have "tx c' = tx c @ take n bs"
        by (auto simp: conn_Write_def split: if_splits)
      then show ?thesis ..
    qed
  qed
  show "r = None \<Longrightarrow> tx c' = tx c @ bs"
    using assms by (auto simp: conn_Write_def split: if_splits option.splits)
qed

lemma io_ReadFull_frame:
  assumes "io_ReadFull c n = (r, c')"
  shows "tx c' = tx c" "tx_room c' = tx_room c" "conn_closed c' = conn_closed c"
    "rx_end c' = rx_end c" "length (rx c') \<le> length (rx c)"
  using assms by (auto simp: io_ReadFull_def split: if_splits)

lemma io_ReadFull_ok:
  assumes "io_ReadFull c n = (Inr bs, c')"
  shows "length bs = n" "rx c = bs @ rx c'"
  using assms by (auto simp: io_ReadFull_def split: if_splits)

lemma io_ReadFull_avail [simp]:
  "\<not> conn_closed c \<Longrightarrow> rx c = bs @ rest \<Longrightarrow> length bs = n \<Longrightarrow>
    io_ReadFull c n = (Inr bs, c\<lparr>rx := rest\<rparr>)"
  by (auto simp: io_ReadFull_def)

subsection \<open>The FIFO contract\<close>

text \<open>
  What a layer promises to the one above: a queue of messages in flight. \<open>push\<close> adds a message
  at the back or fails; \<open>pull\<close> takes the message at the front. \<open>flight\<close> is the abstract
  queue and \<open>sound\<close> the layer's invariant. Nothing is lost, duplicated or reordered.
\<close>

fun push_all :: "('w \<Rightarrow> 'm \<Rightarrow> 'w option) \<Rightarrow> 'w \<Rightarrow> 'm list \<Rightarrow> 'w option" where
  "push_all push w [] = Some w"
| "push_all push w (m # ms) = (case push w m of None \<Rightarrow> None | Some w' \<Rightarrow> push_all push w' ms)"

fun pull_n :: "('w \<Rightarrow> ('m \<times> 'w) option) \<Rightarrow> nat \<Rightarrow> 'w \<Rightarrow> ('m list \<times> 'w) option" where
  "pull_n pull 0 w = Some ([], w)"
| "pull_n pull (Suc n) w = (case pull w of None \<Rightarrow> None
     | Some (m, w') \<Rightarrow>
         (case pull_n pull n w' of None \<Rightarrow> None | Some (ms, w'') \<Rightarrow> Some (m # ms, w'')))"

locale fifo_channel =
  fixes push :: "'w \<Rightarrow> 'm \<Rightarrow> 'w option"
    and pull :: "'w \<Rightarrow> ('m \<times> 'w) option"
    and flight :: "'w \<Rightarrow> 'm list"
    and sound :: "'w \<Rightarrow> bool"
  assumes push_flight: "sound w \<Longrightarrow> push w m = Some w' \<Longrightarrow> flight w' = flight w @ [m]"
    and push_sound: "sound w \<Longrightarrow> push w m = Some w' \<Longrightarrow> sound w'"
    and pull_flight: "sound w \<Longrightarrow> flight w = m # q \<Longrightarrow>
          \<exists>w'. pull w = Some (m, w') \<and> flight w' = q \<and> sound w'"
    and pull_empty: "sound w \<Longrightarrow> flight w = [] \<Longrightarrow> pull w = None"
begin

lemma push_all_flight:
  "sound w \<Longrightarrow> push_all push w ms = Some w' \<Longrightarrow> flight w' = flight w @ ms \<and> sound w'"
proof (induction ms arbitrary: w)
  case Nil
  then show ?case by simp
next
  case (Cons m ms)
  then obtain w1 where w1: "push w m = Some w1" and rest: "push_all push w1 ms = Some w'"
    by (auto split: option.splits)
  from Cons.IH [OF push_sound [OF Cons.prems(1) w1] rest] push_flight [OF Cons.prems(1) w1]
  show ?case by simp
qed

lemma pull_n_flight:
  "sound w \<Longrightarrow> flight w = ms @ q \<Longrightarrow>
    \<exists>w'. pull_n pull (length ms) w = Some (ms, w') \<and> flight w' = q \<and> sound w'"
proof (induction ms arbitrary: w)
  case Nil
  then show ?case by simp
next
  case (Cons m ms)
  then obtain w1 where w1: "pull w = Some (m, w1)" "flight w1 = ms @ q" "sound w1"
    using pull_flight [OF Cons.prems(1), of m "ms @ q"] by auto
  from Cons.IH [OF w1(3,2)] w1(1) show ?case by auto
qed

text \<open>Everything sent on an idle channel is received, in the order it was sent.\<close>

lemma send_receive:
  assumes "sound w" "flight w = []" "push_all push w ms = Some w'"
  shows "\<exists>w''. pull_n pull (length ms) w' = Some (ms, w'') \<and> flight w'' = [] \<and> sound w''"
  using pull_n_flight [of w' ms "[]"] push_all_flight [OF assms(1,3)] assms(2) by simp

text \<open>A pull returns only what is in flight, whatever the state of the queue.\<close>

lemma pull_only_flight:
  assumes "sound w" "pull w = Some (m, w')"
  shows "flight w = m # flight w' \<and> sound w'"
proof (cases "flight w")
  case Nil
  with assms show ?thesis by (simp add: pull_empty)
next
  case (Cons a q)
  with pull_flight [OF assms(1) Cons] assms(2) show ?thesis by auto
qed

end

end
