(* ===== verification/Framing.thy ===== *)
theory Framing
  imports Conn
begin

text \<open>
  \<^verbatim>\<open>pkg/protocol/framing.go\<close>: length-prefixed frames. A frame is a 4-byte
  big-endian length and that many payload bytes, at most \<open>MaxFrameSize\<close>.
\<close>

definition MaxFrameSize :: nat where
  "MaxFrameSize = 1048576"

definition frameLengthSize :: nat where
  "frameLengthSize = 4"

definition WriteFrame :: "net_conn \<Rightarrow> bytes \<Rightarrow> error option \<times> net_conn" where
  "WriteFrame w payload =
     (if length payload > MaxFrameSize
      then (Some (Errorf (''payload size '' @ dec (length payload) @
              '' exceeds maximum frame size '' @ dec MaxFrameSize)), w)
      else let frame = PutUint32 (of_nat (length payload)) @ payload
           in case conn_Write w frame of
                (Some err, w') \<Rightarrow> (Some (Wrapf ''failed to write frame'' err), w')
              | (None, w') \<Rightarrow> (None, w'))"

definition ReadFrame :: "net_conn \<Rightarrow> bytes result \<times> net_conn" where
  "ReadFrame r =
     (case io_ReadFull r frameLengthSize of
        (Inl err, r') \<Rightarrow> (Inl (Wrapf ''failed to read frame header'' err), r')
      | (Inr header, r') \<Rightarrow>
          let size = Uint32 header
          in if unat size > MaxFrameSize
             then (Inl (Errorf (''frame size '' @ dec (unat size) @
                     '' exceeds maximum frame size '' @ dec MaxFrameSize)), r')
             else if size > 0
             then (case io_ReadFull r' (unat size) of
                     (Inl err, r'') \<Rightarrow> (Inl (Wrapf ''failed to read frame payload'' err), r'')
                   | (Inr payload, r'') \<Rightarrow> (Inr payload, r''))
             else (Inr [], r'))"

text \<open>The bytes of one frame on the wire.\<close>

definition frame_bytes :: "bytes \<Rightarrow> bytes" where
  "frame_bytes p = PutUint32 (of_nat (length p)) @ p"

lemma length_frame_bytes [simp, wire_simps]: "length (frame_bytes p) = 4 + length p"
  by (simp add: frame_bytes_def)

lemma frame_header [simp]:
  "length p \<le> MaxFrameSize \<Longrightarrow> unat (of_nat (length p) :: u32) = length p"
  by (rule unat_of_nat_u32) (simp add: MaxFrameSize_def)

text \<open>The two operations in terms of \<open>frame_bytes\<close>; every later proof uses these.\<close>

lemma WriteFrame_healthy:
  "healthy w \<Longrightarrow> length p \<le> MaxFrameSize \<Longrightarrow>
    WriteFrame w p = (None, w\<lparr>tx := tx w @ frame_bytes p\<rparr>)"
  by (simp add: WriteFrame_def frame_bytes_def Let_def)

lemma WriteFrame_oversize:
  "length p > MaxFrameSize \<Longrightarrow> \<exists>e. WriteFrame w p = (Some e, w)"
  by (simp add: WriteFrame_def)

lemma WriteFrame_ok:
  assumes "WriteFrame w p = (None, w')"
  shows "length p \<le> MaxFrameSize" "tx w' = tx w @ frame_bytes p"
    "rx w' = rx w" "rx_end w' = rx_end w" "conn_closed w' = conn_closed w"
proof -
  from assms show le: "length p \<le> MaxFrameSize"
    by (auto simp: WriteFrame_def split: if_splits)
  from assms le have "conn_Write w (frame_bytes p) = (None, w')"
    by (auto simp: WriteFrame_def frame_bytes_def Let_def split: prod.splits option.splits)
  then show "tx w' = tx w @ frame_bytes p"
    "rx w' = rx w" "rx_end w' = rx_end w" "conn_closed w' = conn_closed w"
    using conn_Write_frame by blast+
qed

lemma WriteFrame_conn:
  assumes "WriteFrame w p = (e, w')"
  shows "rx w' = rx w" "rx_end w' = rx_end w" "conn_closed w' = conn_closed w"
  using assms conn_Write_frame(1-3) [of w "PutUint32 (of_nat (length p)) @ p"]
  by (auto simp: WriteFrame_def Let_def split: if_splits prod.splits option.splits)

lemma ReadFrame_frame:
  assumes "\<not> conn_closed r" "rx r = frame_bytes p @ rest" "length p \<le> MaxFrameSize"
  shows "ReadFrame r = (Inr p, r\<lparr>rx := rest\<rparr>)"
proof -
  have hdr: "io_ReadFull r frameLengthSize = (Inr (PutUint32 (of_nat (length p))), r\<lparr>rx := p @ rest\<rparr>)"
    using assms(1,2) by (intro io_ReadFull_avail) (simp_all add: frame_bytes_def frameLengthSize_def)
  show ?thesis
  proof (cases "p = []")
    case True
    with hdr show ?thesis by (simp add: ReadFrame_def)
  next
    case False
    with assms(3) have "(of_nat (length p) :: u32) \<noteq> 0"
      by (metis frame_header length_0_conv unat_0)
    then have "0 < (of_nat (length p) :: u32)"
      by (simp add: word_neq_0_conv)
    with hdr assms show ?thesis
      by (simp add: ReadFrame_def)
  qed
qed

lemma ReadFrame_ok:
  assumes "ReadFrame r = (Inr p, r')"
  shows "length p \<le> MaxFrameSize" "rx r = frame_bytes p @ rx r'"
proof -
  from assms obtain h r1 where h: "io_ReadFull r frameLengthSize = (Inr h, r1)"
    by (auto simp: ReadFrame_def split: prod.splits sum.splits)
  from io_ReadFull_ok [OF h] have lh: "length h = 4" and rx1: "rx r = h @ rx r1"
    by (simp_all add: frameLengthSize_def)
  from assms h have sz: "unat (Uint32 h) \<le> MaxFrameSize"
    by (auto simp: ReadFrame_def Let_def split: if_splits)
  have body: "length p = unat (Uint32 h) \<and> rx r1 = p @ rx r'"
  proof (cases "Uint32 h > 0")
    case True
    with assms h sz have "io_ReadFull r1 (unat (Uint32 h)) = (Inr p, r')"
      by (auto simp: ReadFrame_def Let_def split: prod.splits sum.splits)
    from io_ReadFull_ok [OF this] show ?thesis by simp
  next
    case False
    then have "Uint32 h = 0" by (simp add: word_neq_0_conv [symmetric])
    with assms h show ?thesis by (simp add: ReadFrame_def)
  qed
  then show "length p \<le> MaxFrameSize" using sz by simp
  have "PutUint32 (Uint32 h) = h" using lh by (rule PutUint32_Uint32)
  with body have "frame_bytes p = h @ p" by (simp add: frame_bytes_def)
  with body rx1 show "rx r = frame_bytes p @ rx r'" by simp
qed

lemma ReadFrame_conn:
  assumes "ReadFrame r = (res, r')"
  shows "r' = r\<lparr>rx := rx r'\<rparr>" "length (rx r') \<le> length (rx r)"
    "res = Inr p \<Longrightarrow> \<not> conn_closed r"
  using assms
  by (auto simp: ReadFrame_def io_ReadFull_def frameLengthSize_def Let_def
      split: if_splits prod.splits sum.splits)

text \<open>C13: \<^verbatim>\<open>ReadFrame\<close> returns a payload exactly when the connection is open and the
  unread bytes begin with the frame of that payload, of at most \<open>MaxFrameSize\<close> bytes; it
  then consumes that frame and nothing else. In every other case (a closed connection, a truncated
  header or payload, an oversize length) it returns an error.\<close>

theorem ReadFrame_exact:
  "ReadFrame r = (Inr p, r') \<longleftrightarrow>
     \<not> conn_closed r \<and> length p \<le> MaxFrameSize \<and>
     (\<exists>rest. rx r = frame_bytes p @ rest \<and> r' = r\<lparr>rx := rest\<rparr>)"
proof
  assume rf: "ReadFrame r = (Inr p, r')"
  show "\<not> conn_closed r \<and> length p \<le> MaxFrameSize \<and>
     (\<exists>rest. rx r = frame_bytes p @ rest \<and> r' = r\<lparr>rx := rest\<rparr>)"
    using ReadFrame_ok [OF rf] ReadFrame_conn [OF rf] by blast
qed (auto simp: ReadFrame_frame)

lemma frame_bytes_prefix:
  assumes "frame_bytes p @ u = frame_bytes q @ v" "length p \<le> MaxFrameSize" "length q \<le> MaxFrameSize"
  shows "p = q \<and> u = v"
proof -
  from assms(1) have "PutUint32 (of_nat (length p)) = PutUint32 (of_nat (length q))"
    and rest: "p @ u = q @ v"
    by (simp_all add: frame_bytes_def)
  then have "(of_nat (length p) :: u32) = of_nat (length q)" by simp
  then have "length p = length q"
    using frame_header [OF assms(2)] frame_header [OF assms(3)] by metis
  with rest show ?thesis by simp
qed

text \<open>A stream that ends in the middle of a frame never yields a payload: if the peer's bytes
  are a proper prefix of a frame followed by the end of the stream, \<^verbatim>\<open>ReadFrame\<close>
  reports \<^verbatim>\<open>io.EOF\<close> or \<^verbatim>\<open>io.ErrUnexpectedEOF\<close> and leaves nothing unread.\<close>

lemma ReadFrame_truncated:
  assumes "\<not> conn_closed r" "rx_end r = EOF" "length p \<le> MaxFrameSize"
    and "rx r = take k (frame_bytes p)" "k < length (frame_bytes p)"
  shows "\<exists>e r'. ReadFrame r = (Inl e, r') \<and> rx r' = [] \<and>
    root_cause e = (if k = 0 \<or> k = 4 then EOF else ErrUnexpectedEOF)"
proof (cases "k < 4")
  case True
  with assms have "length (rx r) = k" by simp
  with True assms(1,2) show ?thesis
    by (auto simp: ReadFrame_def io_ReadFull_def frameLengthSize_def)
next
  case False
  define u where "u = take (k - 4) p"
  have lu: "length u = k - 4" "length u < length p"
    using assms(5) False by (auto simp: u_def)
  have rx: "rx r = PutUint32 (of_nat (length p)) @ u"
    using False assms(4) by (simp add: frame_bytes_def u_def)
  have hdr: "io_ReadFull r frameLengthSize = (Inr (PutUint32 (of_nat (length p))), r\<lparr>rx := u\<rparr>)"
    using assms(1) rx by (intro io_ReadFull_avail) (simp_all add: frameLengthSize_def)
  have "(of_nat (length p) :: u32) \<noteq> 0"
    using lu(2) frame_header [OF assms(3)] by (metis less_nat_zero_code unat_0)
  then have "0 < (of_nat (length p) :: u32)" by (simp add: word_neq_0_conv)
  with hdr lu assms(1-3) False show ?thesis
    by (auto simp: ReadFrame_def io_ReadFull_def)
qed

lemma ReadFrame_truncated_witness:
  "\<exists>e r'. ReadFrame \<lparr>rx = [0, 0, 0, 2, 9], rx_end = EOF, tx = [], tx_room = None, conn_closed = False\<rparr> =
      (Inl e, r') \<and> rx r' = [] \<and> root_cause e = ErrUnexpectedEOF"
  using ReadFrame_truncated [of "\<lparr>rx = [0, 0, 0, 2, 9], rx_end = EOF, tx = [], tx_room = None, conn_closed = False\<rparr>"
      "[9, 8]" 5]
  by (simp add: MaxFrameSize_def frame_bytes_def PutUint32_def)

subsection \<open>Frames as a FIFO channel\<close>

text \<open>
  A writer and a reader joined by TCP. The frames in flight are what the reader's unread bytes
  split into.
\<close>

function split_frames :: "bytes \<Rightarrow> bytes list" where
  "split_frames bs =
     (if length bs < 4 \<or> length bs < 4 + unat (Uint32 (take 4 bs)) then []
      else take (unat (Uint32 (take 4 bs))) (drop 4 bs) #
           split_frames (drop (4 + unat (Uint32 (take 4 bs))) bs))"
  by pat_completeness auto
termination
  by (relation "measure length") auto

declare split_frames.simps [simp del]

definition frame_push :: "net_conn \<times> net_conn \<Rightarrow> bytes \<Rightarrow> (net_conn \<times> net_conn) option" where
  "frame_push w p =
     (case WriteFrame (fst w) p of (Some _, _) \<Rightarrow> None | (None, a) \<Rightarrow> Some (deliver a (snd w)))"

definition frame_pull :: "net_conn \<times> net_conn \<Rightarrow> (bytes \<times> net_conn \<times> net_conn) option" where
  "frame_pull w =
     (case ReadFrame (snd w) of (Inl _, _) \<Rightarrow> None | (Inr p, b) \<Rightarrow> Some (p, (fst w, b)))"

definition frames_in_flight :: "net_conn \<times> net_conn \<Rightarrow> bytes list" where
  "frames_in_flight w = split_frames (rx (snd w))"

definition frame_sound :: "net_conn \<times> net_conn \<Rightarrow> bool" where
  "frame_sound w \<longleftrightarrow> \<not> conn_closed (snd w) \<and> tx (fst w) = [] \<and>
     (\<exists>ps. rx (snd w) = concat (map frame_bytes ps) \<and> (\<forall>p\<in>set ps. length p \<le> MaxFrameSize))"

lemma split_frames_Nil [simp]: "split_frames [] = []"
  by (simp add: split_frames.simps)

lemma split_frames_frame:
  "length p \<le> MaxFrameSize \<Longrightarrow> split_frames (frame_bytes p @ bs) = p # split_frames bs"
  by (subst split_frames.simps) (simp add: frame_bytes_def)

lemma split_frames_concat:
  "\<forall>p\<in>set ps. length p \<le> MaxFrameSize \<Longrightarrow> split_frames (concat (map frame_bytes ps)) = ps"
  by (induction ps) (simp_all add: split_frames_frame)

interpretation frm: fifo_channel frame_push frame_pull frames_in_flight frame_sound
proof
  fix w p w' assume s: "frame_sound w" and "frame_push w p = Some w'"
  then obtain a where wf: "WriteFrame (fst w) p = (None, a)" and w': "w' = deliver a (snd w)"
    by (auto simp: frame_push_def split: prod.splits option.splits)
  from s obtain ps where ps: "rx (snd w) = concat (map frame_bytes ps)"
      "\<forall>p\<in>set ps. length p \<le> MaxFrameSize" by (auto simp: frame_sound_def)
  note ok = WriteFrame_ok [OF wf]
  have rx: "rx (snd w') = concat (map frame_bytes (ps @ [p]))"
    and small: "\<forall>q\<in>set (ps @ [p]). length q \<le> MaxFrameSize"
    using s ok ps by (auto simp: w' deliver_def frame_sound_def)
  show "frames_in_flight w' = frames_in_flight w @ [p]"
    using split_frames_concat [OF small] split_frames_concat [OF ps(2)]
    by (simp only: frames_in_flight_def rx ps(1))
  show "frame_sound w'"
    unfolding frame_sound_def
  proof (intro conjI exI)
    show "\<not> conn_closed (snd w')" "tx (fst w') = []"
      using s by (simp_all add: w' deliver_def frame_sound_def)
  qed (rule rx, rule small)
next
  fix w p q assume s: "frame_sound w" and fl: "frames_in_flight w = p # q"
  from s obtain ps where ps: "rx (snd w) = concat (map frame_bytes ps)"
      "\<forall>p\<in>set ps. length p \<le> MaxFrameSize" by (auto simp: frame_sound_def)
  with fl have pq: "ps = p # q" using split_frames_concat [OF ps(2)] by (simp add: frames_in_flight_def)
  have "ReadFrame (snd w) = (Inr p, (snd w)\<lparr>rx := concat (map frame_bytes q)\<rparr>)"
    using s ps pq by (intro ReadFrame_frame) (auto simp: frame_sound_def)
  then show "\<exists>w'. frame_pull w = Some (p, w') \<and> frames_in_flight w' = q \<and> frame_sound w'"
    using s ps pq by (auto simp: frame_pull_def frame_sound_def frames_in_flight_def split_frames_concat)
next
  fix w assume s: "frame_sound w" and fl: "frames_in_flight w = []"
  from s obtain ps where ps: "rx (snd w) = concat (map frame_bytes ps)"
      "\<forall>p\<in>set ps. length p \<le> MaxFrameSize" by (auto simp: frame_sound_def)
  with fl have "rx (snd w) = []" using split_frames_concat [OF ps(2)] by (simp add: frames_in_flight_def)
  then show "frame_pull w = None"
    by (simp add: frame_pull_def ReadFrame_def io_ReadFull_def frameLengthSize_def)
qed

end
