(* ===== verification/Envelope.thy ===== *)
theory Envelope
  imports Prelude
begin

text \<open>
  The messages of \<^verbatim>\<open>proto/messages.proto\<close> as the generated
  \<^verbatim>\<open>pb/messages.pb.go\<close> declares them: one record per message, the \<open>oneof\<close> of an
  envelope as a datatype with the wrapper types' names, and the generated getters, which return the
  zero value on a \<^verbatim>\<open>nil\<close> message (\<^term>\<open>None\<close>). An envelope whose \<open>oneof\<close> is not set has no
  payload. The bookkeeping fields of the generated structs (message state, size cache, unknown
  fields) carry no protocol data and are left out. The wire format itself is the protobuf
  library's: \<open>codec\<close> holds its two entry points as parameters (\<open>Proto_Wire\<close> has an instance).
\<close>

record Handshake =
  Handshake_PublicKey :: bytes

record Register =
  Register_ConnectionId :: string

record RegisterAck =
  RegisterAck_Success :: bool
  RegisterAck_Message :: string

record ConnectRequest =
  ConnectRequest_ConnectionId :: string

record ConnectAck =
  ConnectAck_Success :: bool
  ConnectAck_Message :: string

record OpenStream =
  OpenStream_StreamId :: u32

record OpenStreamAck =
  OpenStreamAck_StreamId :: u32
  OpenStreamAck_Success :: bool
  OpenStreamAck_Message :: string

record Data =
  Data_StreamId :: u32
  Data_Payload :: bytes

record CloseStream =
  CloseStream_StreamId :: u32

datatype Heartbeat = Heartbeat

record Disconnect =
  Disconnect_Reason :: string

record ErrorMsg =
  ErrorMsg_Message :: string

record Authenticate =
  Authenticate_PassphraseHash :: bytes

datatype Payload =
    Envelope_Handshake Handshake
  | Envelope_Register Register
  | Envelope_RegisterAck RegisterAck
  | Envelope_ConnectRequest ConnectRequest
  | Envelope_ConnectAck ConnectAck
  | Envelope_OpenStream OpenStream
  | Envelope_OpenStreamAck OpenStreamAck
  | Envelope_Data Data
  | Envelope_CloseStream CloseStream
  | Envelope_Heartbeat Heartbeat
  | Envelope_Disconnect Disconnect
  | Envelope_ErrorMsg ErrorMsg
  | Envelope_Authenticate Authenticate

record Envelope =
  Envelope_Payload :: "Payload option"

abbreviation env :: "Payload \<Rightarrow> Envelope" where
  "env p \<equiv> \<lparr>Envelope_Payload = Some p\<rparr>"

text \<open>The generated \<^verbatim>\<open>Reset\<close> methods: the message becomes its zero value.\<close>

definition Envelope_Reset :: "Envelope \<Rightarrow> Envelope" where
  "Envelope_Reset x = \<lparr>Envelope_Payload = None\<rparr>"

fun Message_Reset :: "Payload \<Rightarrow> Payload" where
  "Message_Reset (Envelope_Handshake x) = Envelope_Handshake \<lparr>Handshake_PublicKey = []\<rparr>"
| "Message_Reset (Envelope_Register x) = Envelope_Register \<lparr>Register_ConnectionId = []\<rparr>"
| "Message_Reset (Envelope_RegisterAck x) = Envelope_RegisterAck \<lparr>RegisterAck_Success = False, RegisterAck_Message = []\<rparr>"
| "Message_Reset (Envelope_ConnectRequest x) = Envelope_ConnectRequest \<lparr>ConnectRequest_ConnectionId = []\<rparr>"
| "Message_Reset (Envelope_ConnectAck x) = Envelope_ConnectAck \<lparr>ConnectAck_Success = False, ConnectAck_Message = []\<rparr>"
| "Message_Reset (Envelope_OpenStream x) = Envelope_OpenStream \<lparr>OpenStream_StreamId = 0\<rparr>"
| "Message_Reset (Envelope_OpenStreamAck x) =
     Envelope_OpenStreamAck \<lparr>OpenStreamAck_StreamId = 0, OpenStreamAck_Success = False, OpenStreamAck_Message = []\<rparr>"
| "Message_Reset (Envelope_Data x) = Envelope_Data \<lparr>Data_StreamId = 0, Data_Payload = []\<rparr>"
| "Message_Reset (Envelope_CloseStream x) = Envelope_CloseStream \<lparr>CloseStream_StreamId = 0\<rparr>"
| "Message_Reset (Envelope_Heartbeat x) = Envelope_Heartbeat Heartbeat"
| "Message_Reset (Envelope_Disconnect x) = Envelope_Disconnect \<lparr>Disconnect_Reason = []\<rparr>"
| "Message_Reset (Envelope_ErrorMsg x) = Envelope_ErrorMsg \<lparr>ErrorMsg_Message = []\<rparr>"
| "Message_Reset (Envelope_Authenticate x) = Envelope_Authenticate \<lparr>Authenticate_PassphraseHash = []\<rparr>"

definition GetHandshake :: "Envelope \<Rightarrow> Handshake option" where
  "GetHandshake x = (case Envelope_Payload x of Some (Envelope_Handshake m) \<Rightarrow> Some m | _ \<Rightarrow> None)"

definition GetRegister :: "Envelope \<Rightarrow> Register option" where
  "GetRegister x = (case Envelope_Payload x of Some (Envelope_Register m) \<Rightarrow> Some m | _ \<Rightarrow> None)"

definition GetRegisterAck :: "Envelope \<Rightarrow> RegisterAck option" where
  "GetRegisterAck x = (case Envelope_Payload x of Some (Envelope_RegisterAck m) \<Rightarrow> Some m | _ \<Rightarrow> None)"

definition GetConnectRequest :: "Envelope \<Rightarrow> ConnectRequest option" where
  "GetConnectRequest x = (case Envelope_Payload x of Some (Envelope_ConnectRequest m) \<Rightarrow> Some m | _ \<Rightarrow> None)"

definition GetConnectAck :: "Envelope \<Rightarrow> ConnectAck option" where
  "GetConnectAck x = (case Envelope_Payload x of Some (Envelope_ConnectAck m) \<Rightarrow> Some m | _ \<Rightarrow> None)"

definition GetOpenStream :: "Envelope \<Rightarrow> OpenStream option" where
  "GetOpenStream x = (case Envelope_Payload x of Some (Envelope_OpenStream m) \<Rightarrow> Some m | _ \<Rightarrow> None)"

definition GetOpenStreamAck :: "Envelope \<Rightarrow> OpenStreamAck option" where
  "GetOpenStreamAck x = (case Envelope_Payload x of Some (Envelope_OpenStreamAck m) \<Rightarrow> Some m | _ \<Rightarrow> None)"

definition GetData :: "Envelope \<Rightarrow> Data option" where
  "GetData x = (case Envelope_Payload x of Some (Envelope_Data m) \<Rightarrow> Some m | _ \<Rightarrow> None)"

definition GetCloseStream :: "Envelope \<Rightarrow> CloseStream option" where
  "GetCloseStream x = (case Envelope_Payload x of Some (Envelope_CloseStream m) \<Rightarrow> Some m | _ \<Rightarrow> None)"

definition GetHeartbeat :: "Envelope \<Rightarrow> Heartbeat option" where
  "GetHeartbeat x = (case Envelope_Payload x of Some (Envelope_Heartbeat m) \<Rightarrow> Some m | _ \<Rightarrow> None)"

definition GetDisconnect :: "Envelope \<Rightarrow> Disconnect option" where
  "GetDisconnect x = (case Envelope_Payload x of Some (Envelope_Disconnect m) \<Rightarrow> Some m | _ \<Rightarrow> None)"

definition GetErrorMsg :: "Envelope \<Rightarrow> ErrorMsg option" where
  "GetErrorMsg x = (case Envelope_Payload x of Some (Envelope_ErrorMsg m) \<Rightarrow> Some m | _ \<Rightarrow> None)"

definition GetAuthenticate :: "Envelope \<Rightarrow> Authenticate option" where
  "GetAuthenticate x = (case Envelope_Payload x of Some (Envelope_Authenticate m) \<Rightarrow> Some m | _ \<Rightarrow> None)"

definition Handshake_GetPublicKey :: "Handshake option \<Rightarrow> bytes" where
  "Handshake_GetPublicKey x = (case x of Some m \<Rightarrow> Handshake_PublicKey m | None \<Rightarrow> [])"

definition Register_GetConnectionId :: "Register option \<Rightarrow> string" where
  "Register_GetConnectionId x = (case x of Some m \<Rightarrow> Register_ConnectionId m | None \<Rightarrow> [])"

definition RegisterAck_GetSuccess :: "RegisterAck option \<Rightarrow> bool" where
  "RegisterAck_GetSuccess x = (case x of Some m \<Rightarrow> RegisterAck_Success m | None \<Rightarrow> False)"

definition RegisterAck_GetMessage :: "RegisterAck option \<Rightarrow> string" where
  "RegisterAck_GetMessage x = (case x of Some m \<Rightarrow> RegisterAck_Message m | None \<Rightarrow> [])"

definition ConnectRequest_GetConnectionId :: "ConnectRequest option \<Rightarrow> string" where
  "ConnectRequest_GetConnectionId x = (case x of Some m \<Rightarrow> ConnectRequest_ConnectionId m | None \<Rightarrow> [])"

definition ConnectAck_GetSuccess :: "ConnectAck option \<Rightarrow> bool" where
  "ConnectAck_GetSuccess x = (case x of Some m \<Rightarrow> ConnectAck_Success m | None \<Rightarrow> False)"

definition ConnectAck_GetMessage :: "ConnectAck option \<Rightarrow> string" where
  "ConnectAck_GetMessage x = (case x of Some m \<Rightarrow> ConnectAck_Message m | None \<Rightarrow> [])"

definition OpenStream_GetStreamId :: "OpenStream option \<Rightarrow> u32" where
  "OpenStream_GetStreamId x = (case x of Some m \<Rightarrow> OpenStream_StreamId m | None \<Rightarrow> 0)"

definition OpenStreamAck_GetStreamId :: "OpenStreamAck option \<Rightarrow> u32" where
  "OpenStreamAck_GetStreamId x = (case x of Some m \<Rightarrow> OpenStreamAck_StreamId m | None \<Rightarrow> 0)"

definition OpenStreamAck_GetSuccess :: "OpenStreamAck option \<Rightarrow> bool" where
  "OpenStreamAck_GetSuccess x = (case x of Some m \<Rightarrow> OpenStreamAck_Success m | None \<Rightarrow> False)"

definition OpenStreamAck_GetMessage :: "OpenStreamAck option \<Rightarrow> string" where
  "OpenStreamAck_GetMessage x = (case x of Some m \<Rightarrow> OpenStreamAck_Message m | None \<Rightarrow> [])"

definition Data_GetStreamId :: "Data option \<Rightarrow> u32" where
  "Data_GetStreamId x = (case x of Some m \<Rightarrow> Data_StreamId m | None \<Rightarrow> 0)"

definition Data_GetPayload :: "Data option \<Rightarrow> bytes" where
  "Data_GetPayload x = (case x of Some m \<Rightarrow> Data_Payload m | None \<Rightarrow> [])"

definition CloseStream_GetStreamId :: "CloseStream option \<Rightarrow> u32" where
  "CloseStream_GetStreamId x = (case x of Some m \<Rightarrow> CloseStream_StreamId m | None \<Rightarrow> 0)"

definition Disconnect_GetReason :: "Disconnect option \<Rightarrow> string" where
  "Disconnect_GetReason x = (case x of Some m \<Rightarrow> Disconnect_Reason m | None \<Rightarrow> [])"

definition ErrorMsg_GetMessage :: "ErrorMsg option \<Rightarrow> string" where
  "ErrorMsg_GetMessage x = (case x of Some m \<Rightarrow> ErrorMsg_Message m | None \<Rightarrow> [])"

definition Authenticate_GetPassphraseHash :: "Authenticate option \<Rightarrow> bytes" where
  "Authenticate_GetPassphraseHash x = (case x of Some m \<Rightarrow> Authenticate_PassphraseHash m | None \<Rightarrow> [])"

text \<open>\<^verbatim>\<open>%T\<close> of \<^verbatim>\<open>GetPayload()\<close>.\<close>

definition payload_type :: "Envelope \<Rightarrow> string" where
  "payload_type x = (case Envelope_Payload x of
       None \<Rightarrow> ''<nil>''
     | Some (Envelope_Handshake m) \<Rightarrow> ''*pb.Envelope_Handshake''
     | Some (Envelope_Register m) \<Rightarrow> ''*pb.Envelope_Register''
     | Some (Envelope_RegisterAck m) \<Rightarrow> ''*pb.Envelope_RegisterAck''
     | Some (Envelope_ConnectRequest m) \<Rightarrow> ''*pb.Envelope_ConnectRequest''
     | Some (Envelope_ConnectAck m) \<Rightarrow> ''*pb.Envelope_ConnectAck''
     | Some (Envelope_OpenStream m) \<Rightarrow> ''*pb.Envelope_OpenStream''
     | Some (Envelope_OpenStreamAck m) \<Rightarrow> ''*pb.Envelope_OpenStreamAck''
     | Some (Envelope_Data m) \<Rightarrow> ''*pb.Envelope_Data''
     | Some (Envelope_CloseStream m) \<Rightarrow> ''*pb.Envelope_CloseStream''
     | Some (Envelope_Heartbeat m) \<Rightarrow> ''*pb.Envelope_Heartbeat''
     | Some (Envelope_Disconnect m) \<Rightarrow> ''*pb.Envelope_Disconnect''
     | Some (Envelope_ErrorMsg m) \<Rightarrow> ''*pb.Envelope_ErrorMsg''
     | Some (Envelope_Authenticate m) \<Rightarrow> ''*pb.Envelope_Authenticate'')"

lemmas getter_defs =
  GetHandshake_def GetRegister_def GetRegisterAck_def GetConnectRequest_def GetConnectAck_def GetOpenStream_def GetOpenStreamAck_def GetData_def GetCloseStream_def GetHeartbeat_def GetDisconnect_def GetErrorMsg_def GetAuthenticate_def

lemmas field_getter_defs =
  Handshake_GetPublicKey_def Register_GetConnectionId_def RegisterAck_GetSuccess_def RegisterAck_GetMessage_def ConnectRequest_GetConnectionId_def ConnectAck_GetSuccess_def ConnectAck_GetMessage_def OpenStream_GetStreamId_def OpenStreamAck_GetStreamId_def OpenStreamAck_GetSuccess_def OpenStreamAck_GetMessage_def Data_GetStreamId_def Data_GetPayload_def CloseStream_GetStreamId_def Disconnect_GetReason_def ErrorMsg_GetMessage_def Authenticate_GetPassphraseHash_def

text \<open>Exactly one getter of an envelope with a payload is not \<^verbatim>\<open>nil\<close>.\<close>

lemma GetHandshake_iff: "GetHandshake x = Some m \<longleftrightarrow> Envelope_Payload x = Some (Envelope_Handshake m)"
  by (simp add: GetHandshake_def split: option.split Payload.split)

lemma GetRegister_iff: "GetRegister x = Some m \<longleftrightarrow> Envelope_Payload x = Some (Envelope_Register m)"
  by (simp add: GetRegister_def split: option.split Payload.split)

lemma GetRegisterAck_iff: "GetRegisterAck x = Some m \<longleftrightarrow> Envelope_Payload x = Some (Envelope_RegisterAck m)"
  by (simp add: GetRegisterAck_def split: option.split Payload.split)

lemma GetConnectRequest_iff: "GetConnectRequest x = Some m \<longleftrightarrow> Envelope_Payload x = Some (Envelope_ConnectRequest m)"
  by (simp add: GetConnectRequest_def split: option.split Payload.split)

lemma GetConnectAck_iff: "GetConnectAck x = Some m \<longleftrightarrow> Envelope_Payload x = Some (Envelope_ConnectAck m)"
  by (simp add: GetConnectAck_def split: option.split Payload.split)

lemma GetOpenStream_iff: "GetOpenStream x = Some m \<longleftrightarrow> Envelope_Payload x = Some (Envelope_OpenStream m)"
  by (simp add: GetOpenStream_def split: option.split Payload.split)

lemma GetOpenStreamAck_iff: "GetOpenStreamAck x = Some m \<longleftrightarrow> Envelope_Payload x = Some (Envelope_OpenStreamAck m)"
  by (simp add: GetOpenStreamAck_def split: option.split Payload.split)

lemma GetData_iff: "GetData x = Some m \<longleftrightarrow> Envelope_Payload x = Some (Envelope_Data m)"
  by (simp add: GetData_def split: option.split Payload.split)

lemma GetCloseStream_iff: "GetCloseStream x = Some m \<longleftrightarrow> Envelope_Payload x = Some (Envelope_CloseStream m)"
  by (simp add: GetCloseStream_def split: option.split Payload.split)

lemma GetHeartbeat_iff: "GetHeartbeat x = Some m \<longleftrightarrow> Envelope_Payload x = Some (Envelope_Heartbeat m)"
  by (simp add: GetHeartbeat_def split: option.split Payload.split)

lemma GetDisconnect_iff: "GetDisconnect x = Some m \<longleftrightarrow> Envelope_Payload x = Some (Envelope_Disconnect m)"
  by (simp add: GetDisconnect_def split: option.split Payload.split)

lemma GetErrorMsg_iff: "GetErrorMsg x = Some m \<longleftrightarrow> Envelope_Payload x = Some (Envelope_ErrorMsg m)"
  by (simp add: GetErrorMsg_def split: option.split Payload.split)

lemma GetAuthenticate_iff: "GetAuthenticate x = Some m \<longleftrightarrow> Envelope_Payload x = Some (Envelope_Authenticate m)"
  by (simp add: GetAuthenticate_def split: option.split Payload.split)

lemmas getter_iffs =
  GetHandshake_iff GetRegister_iff GetRegisterAck_iff GetConnectRequest_iff GetConnectAck_iff GetOpenStream_iff GetOpenStreamAck_iff GetData_iff GetCloseStream_iff GetHeartbeat_iff GetDisconnect_iff GetErrorMsg_iff GetAuthenticate_iff

text \<open>
  \<^verbatim>\<open>proto.Marshal\<close> and \<^verbatim>\<open>proto.Unmarshal\<close> of
  \<^verbatim>\<open>google.golang.org/protobuf\<close>. What the program relies on is \<open>codec_ok\<close>: an
  envelope that was marshalled comes back when it is unmarshalled.
\<close>

record codec =
  Marshal :: "Envelope \<Rightarrow> bytes result"
  Unmarshal :: "bytes \<Rightarrow> Envelope result"

definition codec_ok :: "codec \<Rightarrow> bool" where
  "codec_ok c \<longleftrightarrow> (\<forall>e d. Marshal c e = Inr d \<longrightarrow> Unmarshal c d = Inr e)"

lemma codec_okD: "codec_ok c \<Longrightarrow> Marshal c e = Inr d \<Longrightarrow> Unmarshal c d = Inr e"
  by (simp add: codec_ok_def)

lemma Heartbeat_unique: "(h :: Heartbeat) = Heartbeat"
  by (cases h)

end
