(* ===== verification/Go_Strings.thy ===== *)
theory Go_Strings
  imports Prelude
begin

text \<open>
  The parts of Go's \<^verbatim>\<open>strings\<close>, \<^verbatim>\<open>strconv\<close>, \<^verbatim>\<open>unicode/utf8\<close>,
  \<^verbatim>\<open>encoding/base64\<close>, \<^verbatim>\<open>path/filepath\<close>, \<^verbatim>\<open>time\<close> and \<^verbatim>\<open>bufio\<close> that the
  sources call. A Go string is a sequence of bytes, so a character here is one byte.

  What needs the Unicode tables beyond ASCII (\<^verbatim>\<open>strconv.IsPrint\<close>,
  \<^verbatim>\<open>unicode.ToUpper\<close>) takes them as a parameter, the record \<open>unicode_tables\<close>;
  no theorem depends on their content.
\<close>

abbreviation ord :: "char \<Rightarrow> nat" where
  "ord c \<equiv> of_char c"

record unicode_tables =
  IsPrint_rune :: "nat \<Rightarrow> bool"
  ToUpper_nonASCII :: "string \<Rightarrow> string"

subsection \<open>White space\<close>

text \<open>
  The UTF-8 encodings of the runes with \<^verbatim>\<open>unicode.IsSpace\<close>. No encoding is a prefix of
  another and none starts with a continuation byte, so scanning bytes for them finds exactly the
  runes that decoding finds.
\<close>

definition space_runes :: "string list" where
  "space_runes =
     [[CHR 0x20], [CHR 0x09], [CHR 0x0A], [CHR 0x0B], [CHR 0x0C], [CHR 0x0D],
      [CHR 0xC2, CHR 0x85], [CHR 0xC2, CHR 0xA0], [CHR 0xE1, CHR 0x9A, CHR 0x80]] @
     map (\<lambda>c. [CHR 0xE2, CHR 0x80, c])
       [CHR 0x80, CHR 0x81, CHR 0x82, CHR 0x83, CHR 0x84, CHR 0x85, CHR 0x86, CHR 0x87, CHR 0x88,
        CHR 0x89, CHR 0x8A, CHR 0xA8, CHR 0xA9, CHR 0xAF] @
     [[CHR 0xE2, CHR 0x81, CHR 0x9F], [CHR 0xE3, CHR 0x80, CHR 0x80]]"

text \<open>The width of the white space rune at the start (at the end) of a string, 0 for none.\<close>

definition space_at :: "string \<Rightarrow> nat" where
  "space_at s =
     (case find (\<lambda>p. take (length p) s = p) space_runes of None \<Rightarrow> 0 | Some p \<Rightarrow> length p)"

definition space_end :: "string \<Rightarrow> nat" where
  "space_end s =
     (case find (\<lambda>p. take (length p) (rev s) = rev p) space_runes of None \<Rightarrow> 0 | Some p \<Rightarrow> length p)"

lemma space_runes_nonempty: "p \<in> set space_runes \<Longrightarrow> p \<noteq> []"
  by (auto simp: space_runes_def)

lemma space_at_le: "space_at s \<le> length s"
  by (auto simp: space_at_def find_Some_iff split: option.split) (metis length_take min.cobounded1)

lemma space_end_le: "space_end s \<le> length s"
  by (auto simp: space_end_def find_Some_iff split: option.split)
     (metis length_rev length_take min.cobounded1)

function TrimLeftSpace :: "string \<Rightarrow> string" where
  "TrimLeftSpace s = (if space_at s = 0 then s else TrimLeftSpace (drop (space_at s) s))"
  by auto
termination
proof (relation "measure length")
  fix s assume "space_at s \<noteq> 0"
  with space_at_le [of s] show "(drop (space_at s) s, s) \<in> measure length" by simp
qed simp

function TrimRightSpace :: "string \<Rightarrow> string" where
  "TrimRightSpace s =
     (if space_end s = 0 then s else TrimRightSpace (take (length s - space_end s) s))"
  by auto
termination
proof (relation "measure length")
  fix s assume "space_end s \<noteq> 0"
  with space_end_le [of s] show "(take (length s - space_end s) s, s) \<in> measure length" by simp
qed simp

declare TrimLeftSpace.simps [simp del] TrimRightSpace.simps [simp del]

definition TrimSpace :: "string \<Rightarrow> string" where
  "TrimSpace s = TrimRightSpace (TrimLeftSpace s)"

text \<open>\<^verbatim>\<open>strings.Fields\<close>: the maximal runs of bytes outside white space; \<open>cur\<close> is the
  field being read.\<close>

function Fields_from :: "string \<Rightarrow> string \<Rightarrow> string list" where
  "Fields_from cur [] = (if cur = [] then [] else [cur])"
| "Fields_from cur (c # cs) =
     (if space_at (c # cs) = 0 then Fields_from (cur @ [c]) cs
      else (if cur = [] then [] else [cur]) @ Fields_from [] (drop (space_at (c # cs)) (c # cs)))"
  by pat_completeness auto
termination
  by (relation "measure (\<lambda>(cur, s). length s)") auto

definition Fields :: "string \<Rightarrow> string list" where
  "Fields s = Fields_from [] s"

definition HasPrefix :: "string \<Rightarrow> string \<Rightarrow> bool" where
  "HasPrefix s p \<longleftrightarrow> take (length p) s = p"

text \<open>\<^verbatim>\<open>strings.Contains\<close>.\<close>

fun Contains :: "string \<Rightarrow> string \<Rightarrow> bool" where
  "Contains [] p \<longleftrightarrow> p = []"
| "Contains (c # cs) p \<longleftrightarrow> HasPrefix (c # cs) p \<or> Contains cs p"

text \<open>\<^verbatim>\<open>strings.Split\<close> with a separator of one byte.\<close>

fun Split_byte :: "char \<Rightarrow> string \<Rightarrow> string list" where
  "Split_byte sep [] = [[]]"
| "Split_byte sep (c # cs) =
     (if c = sep then [] # Split_byte sep cs
      else case Split_byte sep cs of [] \<Rightarrow> [[c]] | f # fs \<Rightarrow> (c # f) # fs)"

lemma Split_byte_nonempty [simp]: "Split_byte c s \<noteq> []"
  by (induction s) (auto split: list.split)

lemma Split_byte_clean: "c \<notin> set s \<Longrightarrow> Split_byte c s = [s]"
  by (induction s) auto

lemma Split_byte_append: "Split_byte c (a @ c # b) = Split_byte c a @ Split_byte c b"
proof (induction a)
  case (Cons x a)
  then show ?case using Split_byte_nonempty [of c a] by (auto split: list.split)
qed simp

definition ascii_upper :: "char \<Rightarrow> char" where
  "ascii_upper c = (if 97 \<le> ord c \<and> ord c \<le> 122 then char_of (ord c - 32) else c)"

definition ToUpper :: "unicode_tables \<Rightarrow> string \<Rightarrow> string" where
  "ToUpper u s = (if list_all (\<lambda>c. ord c < 128) s then map ascii_upper s else ToUpper_nonASCII u s)"

subsection \<open>Numbers\<close>

definition is_digit :: "char \<Rightarrow> bool" where
  "is_digit c \<longleftrightarrow> 48 \<le> ord c \<and> ord c \<le> 57"

text \<open>\<^verbatim>\<open>strconv.Itoa\<close> of any number.\<close>

definition Itoa :: "int \<Rightarrow> string" where
  "Itoa i = (if i < 0 then ''-'' @ dec (nat (- i)) else dec (nat i))"

definition digits_value :: "string \<Rightarrow> nat" where
  "digits_value s = foldl (\<lambda>v c. v * 10 + (ord c - 48)) 0 s"

text \<open>\<^verbatim>\<open>strconv.Atoi\<close> on a 64-bit platform: an optional sign, at least one digit, nothing
  else, and the value within an \<^verbatim>\<open>int64\<close>.\<close>

definition Atoi :: "string \<Rightarrow> int result" where
  "Atoi s =
     (let neg = HasPrefix s ''-'';
          ds = (if neg \<or> HasPrefix s ''+'' then drop 1 s else s);
          v = (if neg then - int (digits_value ds) else int (digits_value ds))
      in if ds = [] \<or> \<not> list_all is_digit ds then Inl (Errorf ''invalid syntax'')
         else if v < - (2 ^ 63) \<or> 2 ^ 63 \<le> v then Inl (Errorf ''value out of range'')
         else Inr v)"

text \<open>Decimal with leading zeros, as \<^verbatim>\<open>time.Format\<close> writes its fields.\<close>

definition zero_pad :: "nat \<Rightarrow> nat \<Rightarrow> string" where
  "zero_pad w n = replicate (w - length (dec n)) (CHR ''0'') @ dec n"

subsection \<open>UTF-8 and quoting\<close>

definition cont_byte :: "nat \<Rightarrow> nat \<Rightarrow> char \<Rightarrow> bool" where
  "cont_byte lo hi c \<longleftrightarrow> lo \<le> ord c \<and> ord c \<le> hi"

text \<open>\<^verbatim>\<open>utf8.DecodeRuneInString\<close> on a string that is not empty: the rune and its width,
  \<^verbatim>\<open>(RuneError, 1)\<close> for an invalid encoding.\<close>

definition DecodeRune :: "string \<Rightarrow> nat \<times> nat" where
  "DecodeRune s =
     (let b = ord (s ! 0); n = length s;
          lo = (if b = 0xE0 then 0xA0 else if b = 0xF0 then 0x90 else 0x80);
          hi = (if b = 0xED then 0x9F else if b = 0xF4 then 0x8F else 0xBF);
          k = (\<lambda>i. ord (s ! i) mod 64)
      in if b < 0x80 then (b, 1)
         else if 0xC2 \<le> b \<and> b \<le> 0xDF \<and> 2 \<le> n \<and> cont_byte lo hi (s ! 1)
           then (b mod 32 * 64 + k 1, 2)
         else if 0xE0 \<le> b \<and> b \<le> 0xEF \<and> 3 \<le> n \<and> cont_byte lo hi (s ! 1) \<and> cont_byte 0x80 0xBF (s ! 2)
           then (b mod 16 * 4096 + k 1 * 64 + k 2, 3)
         else if 0xF0 \<le> b \<and> b \<le> 0xF4 \<and> 4 \<le> n \<and> cont_byte lo hi (s ! 1) \<and>
                 cont_byte 0x80 0xBF (s ! 2) \<and> cont_byte 0x80 0xBF (s ! 3)
           then (b mod 8 * 262144 + k 1 * 4096 + k 2 * 64 + k 3, 4)
         else (0xFFFD, 1))"

definition lowerhex :: "nat \<Rightarrow> char" where
  "lowerhex d = char_of (if d < 10 then 48 + d else 87 + d)"

fun hex_digits :: "nat \<Rightarrow> nat \<Rightarrow> string" where
  "hex_digits 0 n = []"
| "hex_digits (Suc w) n = hex_digits w (n div 16) @ [lowerhex (n mod 16)]"

text \<open>\<^verbatim>\<open>strconv.IsPrint\<close>: exact on ASCII, the table beyond it.\<close>

definition IsPrint :: "unicode_tables \<Rightarrow> nat \<Rightarrow> bool" where
  "IsPrint u r \<longleftrightarrow> (if r < 128 then 32 \<le> r \<and> r < 127 else IsPrint_rune u r)"

definition escaped_rune :: "unicode_tables \<Rightarrow> nat \<Rightarrow> string \<Rightarrow> string" where
  "escaped_rune u r enc =
     (if r = 34 \<or> r = 92 then [CHR 0x5C, char_of r]
      else if IsPrint u r then enc
      else if r = 7 then CHR 0x5C # ''a''
      else if r = 8 then CHR 0x5C # ''b''
      else if r = 12 then CHR 0x5C # ''f''
      else if r = 10 then CHR 0x5C # ''n''
      else if r = 13 then CHR 0x5C # ''r''
      else if r = 9 then CHR 0x5C # ''t''
      else if r = 11 then CHR 0x5C # ''v''
      else if r < 32 \<or> r = 127 then CHR 0x5C # CHR ''x'' # hex_digits 2 r
      else if r < 65536 then CHR 0x5C # CHR ''u'' # hex_digits 4 r
      else CHR 0x5C # CHR ''U'' # hex_digits 8 r)"

lemma DecodeRune_width: "0 < snd (DecodeRune s)"
  by (simp add: DecodeRune_def Let_def)

function Quote_body :: "unicode_tables \<Rightarrow> string \<Rightarrow> string" where
  "Quote_body u s =
     (if s = [] then []
      else let (r, w) = DecodeRune s in
        (if w = 1 \<and> r = 0xFFFD then CHR 0x5C # CHR ''x'' # hex_digits 2 (ord (s ! 0))
         else escaped_rune u r (take w s)) @ Quote_body u (drop w s))"
  by auto
termination
proof (relation "measure (\<lambda>(u, s). length s)")
  fix u s x r w
  assume "s \<noteq> []" "x = DecodeRune s" "(r, w) = x"
  then have "0 < w" using DecodeRune_width [of s] by (cases "DecodeRune s") auto
  with \<open>s \<noteq> []\<close> show "((u, drop w s), u, s) \<in> measure (\<lambda>(u, s). length s)" by simp
qed simp

declare Quote_body.simps [simp del]

text \<open>\<^verbatim>\<open>strconv.Quote\<close>, the verb \<^verbatim>\<open>%q\<close>.\<close>

definition Quote :: "unicode_tables \<Rightarrow> string \<Rightarrow> string" where
  "Quote u s = [CHR 0x22] @ Quote_body u s @ [CHR 0x22]"

subsection \<open>Base64\<close>

definition base64_char :: "nat \<Rightarrow> char" where
  "base64_char n =
     (if n < 26 then char_of (65 + n) else if n < 52 then char_of (71 + n)
      else if n < 62 then char_of (n - 4) else if n = 62 then CHR ''+'' else CHR ''/'')"

fun EncodeToString :: "bytes \<Rightarrow> string" where
  "EncodeToString (a # b # c # bs) =
     (let v = unat a * 65536 + unat b * 256 + unat c
      in [base64_char (v div 262144), base64_char (v div 4096 mod 64),
          base64_char (v div 64 mod 64), base64_char (v mod 64)] @ EncodeToString bs)"
| "EncodeToString [a, b] =
     (let v = unat a * 65536 + unat b * 256
      in [base64_char (v div 262144), base64_char (v div 4096 mod 64),
          base64_char (v div 64 mod 64), CHR ''='' ])"
| "EncodeToString [a] =
     (let v = unat a * 65536
      in [base64_char (v div 262144), base64_char (v div 4096 mod 64), CHR ''='', CHR ''='' ])"
| "EncodeToString [] = []"

subsection \<open>Paths and times\<close>

text \<open>\<^verbatim>\<open>filepath.Clean\<close> on Unix, element by element: \<open>out\<close> holds the kept elements, last
  first.\<close>

fun clean_elems :: "bool \<Rightarrow> string list \<Rightarrow> string list \<Rightarrow> string list" where
  "clean_elems rooted out [] = rev out"
| "clean_elems rooted out (e # es) =
     (if e = [] \<or> e = ''.'' then clean_elems rooted out es
      else if e = ''..'' then
        (case out of
           [] \<Rightarrow> clean_elems rooted (if rooted then [] else [e]) es
         | o1 # os \<Rightarrow> clean_elems rooted (if o1 = ''..'' then e # out else os) es)
      else clean_elems rooted (e # out) es)"

fun join_slash :: "string list \<Rightarrow> string" where
  "join_slash [] = []"
| "join_slash [e] = e"
| "join_slash (e # es) = e @ ''/'' @ join_slash es"

definition Clean :: "string \<Rightarrow> string" where
  "Clean p =
     (let rooted = HasPrefix p ''/'';
          out = join_slash (clean_elems rooted [] (Split_byte (CHR ''/'') p))
      in if rooted then ''/'' @ out else if out = [] then ''.'' else out)"

text \<open>\<^verbatim>\<open>filepath.Join(a, b)\<close> with a second element that is not empty.\<close>

definition path_Join :: "string \<Rightarrow> string \<Rightarrow> string" where
  "path_Join a b = (if a = [] then Clean b else Clean (a @ ''/'' @ b))"

record go_time =
  year :: nat
  month :: nat
  day :: nat
  hour :: nat
  minute :: nat
  second :: nat
  milli :: nat

text \<open>\<^verbatim>\<open>Format("20060102")\<close> and \<^verbatim>\<open>Format("20060102 15:04:05.000")\<close>.\<close>

definition Format_date :: "go_time \<Rightarrow> string" where
  "Format_date t = zero_pad 4 (year t) @ zero_pad 2 (month t) @ zero_pad 2 (day t)"

definition Format_time :: "go_time \<Rightarrow> string" where
  "Format_time t =
     Format_date t @ '' '' @ zero_pad 2 (hour t) @ '':'' @ zero_pad 2 (minute t) @ '':'' @
     zero_pad 2 (second t) @ ''.'' @ zero_pad 3 (milli t)"

subsection \<open>Texts without a line break\<close>

text \<open>What the log writer needs of the conversions above: none of them ever yields a newline, so
  a text built from them stays on one line whatever the client sent.\<close>

definition newline :: char where
  "newline = CHR 0x0A"

definition one_line :: "string \<Rightarrow> bool" where
  "one_line s \<longleftrightarrow> newline \<notin> set s"

lemma newline_iff: "c = newline \<longleftrightarrow> ord c = 10"
proof -
  have "ord newline = 10" by (simp add: newline_def)
  then show ?thesis by (metis of_char_eq_iff)
qed

lemma one_line_simps [simp]:
  "one_line []" "one_line (c # s) \<longleftrightarrow> ord c \<noteq> 10 \<and> one_line s"
  "one_line (s @ t) \<longleftrightarrow> one_line s \<and> one_line t"
  by (auto simp: one_line_def newline_iff [symmetric])

lemma one_line_dec [simp]: "one_line (dec n)"
proof (induction n rule: dec.induct)
  case (1 n)
  then show ?case by (subst dec.simps) simp
qed

lemma one_line_Itoa [simp]: "one_line (Itoa i)"
  by (simp add: Itoa_def)

lemma one_line_replicate: "ord c \<noteq> 10 \<Longrightarrow> one_line (replicate n c)"
  by (induction n) simp_all

lemma one_line_zero_pad [simp]: "one_line (zero_pad w n)"
  by (simp add: zero_pad_def one_line_replicate)

lemma one_line_Format_time [simp]: "one_line (Format_time t)"
  by (simp add: Format_time_def Format_date_def)

lemma one_line_hex [simp]: "one_line (hex_digits w n)"
  by (induction w arbitrary: n) (simp_all add: lowerhex_def)

lemma base64_char_ord [simp]: "ord (base64_char n) \<noteq> 10"
  by (simp add: base64_char_def) arith

lemma one_line_base64 [simp]: "one_line (EncodeToString bs)"
  by (induction bs rule: EncodeToString.induct) (simp_all add: Let_def)

lemma DecodeRune_enc:
  assumes "DecodeRune s = (r, w)" "s \<noteq> []"
  shows "w = 1 \<and> r = 0xFFFD \<or> w = 1 \<and> r = ord (s ! 0) \<or> (\<forall>c\<in>set (take w s). 128 \<le> ord c)"
proof -
  have t: "set (take 2 s) = {s ! 0, s ! 1}" if "2 \<le> length s"
    using that by (cases s; cases "tl s") auto
  have t3: "set (take 3 s) = {s ! 0, s ! 1, s ! 2}" if "3 \<le> length s"
    using that by (cases s; cases "tl s"; cases "tl (tl s)") (auto simp: numeral_3_eq_3)
  have t4: "set (take 4 s) = {s ! 0, s ! 1, s ! 2, s ! 3}" if "4 \<le> length s"
    using that by (cases s; cases "tl s"; cases "tl (tl s)"; cases "tl (tl (tl s))")
      (auto simp: numeral_eq_Suc)
  show ?thesis
    using assms by (auto simp: DecodeRune_def Let_def cont_byte_def t t3 t4 split: if_splits)
qed

lemma one_line_high: "\<forall>c\<in>set s. 128 \<le> ord c \<Longrightarrow> one_line s"
  by (auto simp: one_line_def newline_iff [THEN iffD1])

lemma one_line_escaped:
  assumes "DecodeRune s = (r, w)" "s \<noteq> []" "\<not> (w = 1 \<and> r = 0xFFFD)"
  shows "one_line (escaped_rune u r (take w s))"
proof (cases "r = 34 \<or> r = 92 \<or> \<not> IsPrint u r")
  case True
  then show ?thesis by (auto simp: escaped_rune_def)
next
  case False
  then have "escaped_rune u r (take w s) = take w s" by (simp add: escaped_rune_def)
  moreover from assms DecodeRune_enc [of s r w]
  consider "w = 1" "r = ord (s ! 0)" | "\<forall>c\<in>set (take w s). 128 \<le> ord c" by blast
  then have "one_line (take w s)"
  proof cases
    case 1
    with False have "r \<noteq> 10" by (auto simp: IsPrint_def)
    with 1 assms(2) show ?thesis by (cases s) auto
  qed (rule one_line_high)
  ultimately show ?thesis by simp
qed

lemma one_line_Quote_body: "one_line (Quote_body u s)"
proof (induction u s rule: Quote_body.induct)
  case (1 u s)
  obtain r w where d: "DecodeRune s = (r, w)" by (cases "DecodeRune s")
  show ?case
  proof (cases "s = []")
    case False
    with 1 d have "one_line (Quote_body u (drop w s))" by auto
    with d False one_line_escaped [OF d False] show ?thesis by (subst Quote_body.simps) simp
  qed (simp add: Quote_body.simps)
qed

lemma one_line_Quote [simp]: "one_line (Quote u s)"
  by (simp add: Quote_def one_line_Quote_body)

end
