(* ===== verification/Proto_Wire.thy ===== *)
theory Proto_Wire
  imports Envelope Go_Strings
begin

text \<open>
  The schema of \<^verbatim>\<open>proto/messages.proto\<close> (the same numbers and types are in the struct tags of
  \<^verbatim>\<open>pb/messages.pb.go\<close>) as data, and the protobuf wire format driven by it: an instance of the
  parameter \<open>codec\<close> that meets \<open>codec_ok\<close>. The wire format is the documented one of proto3: fields with their zero value are
  left out; of a field that occurs twice the last one counts, and two occurrences of the same message are merged; a field
  of unknown number or of the wrong wire type is skipped (the library keeps its bytes in the message, here they are dropped); strings have to be UTF-8 in both directions. Two things are left out:
  the library's error texts, and the groups of proto2 (wire types 3 and 4), which are refused here.
\<close>

subsection \<open>The schema\<close>

datatype field_kind = Kind_bool | Kind_uint32 | Kind_string | Kind_bytes

datatype scalar = Bool_field bool | Uint32_field u32 | String_field string | Bytes_field bytes

text \<open>The numbers of the alternatives of the \<open>oneof\<close>.\<close>

fun payload_number :: "Payload \<Rightarrow> nat" where
  "payload_number (Envelope_Handshake m) = 1"
| "payload_number (Envelope_Register m) = 2"
| "payload_number (Envelope_RegisterAck m) = 3"
| "payload_number (Envelope_ConnectRequest m) = 4"
| "payload_number (Envelope_ConnectAck m) = 5"
| "payload_number (Envelope_OpenStream m) = 6"
| "payload_number (Envelope_OpenStreamAck m) = 7"
| "payload_number (Envelope_Data m) = 8"
| "payload_number (Envelope_CloseStream m) = 9"
| "payload_number (Envelope_Heartbeat m) = 10"
| "payload_number (Envelope_Disconnect m) = 11"
| "payload_number (Envelope_ErrorMsg m) = 12"
| "payload_number (Envelope_Authenticate m) = 13"

text \<open>The fields of the message behind such a number.\<close>

definition message_schema :: "nat \<Rightarrow> (nat \<times> field_kind) list" where
  "message_schema k =
     (if k = 1 then [(1, Kind_bytes)]
      else if k = 2 then [(1, Kind_string)]
      else if k = 3 then [(1, Kind_bool), (2, Kind_string)]
      else if k = 4 then [(1, Kind_string)]
      else if k = 5 then [(1, Kind_bool), (2, Kind_string)]
      else if k = 6 then [(1, Kind_uint32)]
      else if k = 7 then [(1, Kind_uint32), (2, Kind_bool), (3, Kind_string)]
      else if k = 8 then [(1, Kind_uint32), (2, Kind_bytes)]
      else if k = 9 then [(1, Kind_uint32)]
      else if k = 10 then []
      else if k = 11 then [(1, Kind_string)]
      else if k = 12 then [(1, Kind_string)]
      else if k = 13 then [(1, Kind_bytes)]
      else [])"

text \<open>The values of the fields, in the order of their numbers.\<close>

fun message_fields :: "Payload \<Rightarrow> (nat \<times> scalar) list" where
  "message_fields (Envelope_Handshake m) = [(1, Bytes_field (Handshake_PublicKey m))]"
| "message_fields (Envelope_Register m) = [(1, String_field (Register_ConnectionId m))]"
| "message_fields (Envelope_RegisterAck m) =
     [(1, Bool_field (RegisterAck_Success m)), (2, String_field (RegisterAck_Message m))]"
| "message_fields (Envelope_ConnectRequest m) = [(1, String_field (ConnectRequest_ConnectionId m))]"
| "message_fields (Envelope_ConnectAck m) =
     [(1, Bool_field (ConnectAck_Success m)), (2, String_field (ConnectAck_Message m))]"
| "message_fields (Envelope_OpenStream m) = [(1, Uint32_field (OpenStream_StreamId m))]"
| "message_fields (Envelope_OpenStreamAck m) =
     [(1, Uint32_field (OpenStreamAck_StreamId m)), (2, Bool_field (OpenStreamAck_Success m)),
      (3, String_field (OpenStreamAck_Message m))]"
| "message_fields (Envelope_Data m) = [(1, Uint32_field (Data_StreamId m)), (2, Bytes_field (Data_Payload m))]"
| "message_fields (Envelope_CloseStream m) = [(1, Uint32_field (CloseStream_StreamId m))]"
| "message_fields (Envelope_Heartbeat m) = []"
| "message_fields (Envelope_Disconnect m) = [(1, String_field (Disconnect_Reason m))]"
| "message_fields (Envelope_ErrorMsg m) = [(1, String_field (ErrorMsg_Message m))]"
| "message_fields (Envelope_Authenticate m) = [(1, Bytes_field (Authenticate_PassphraseHash m))]"

text \<open>And back, from the fields that were set; a field that was not set has its zero value.\<close>

definition the_bool :: "scalar option \<Rightarrow> bool" where
  "the_bool x = (case x of Some (Bool_field b) \<Rightarrow> b | _ \<Rightarrow> False)"

definition the_uint32 :: "scalar option \<Rightarrow> u32" where
  "the_uint32 x = (case x of Some (Uint32_field n) \<Rightarrow> n | _ \<Rightarrow> 0)"

definition the_string :: "scalar option \<Rightarrow> string" where
  "the_string x = (case x of Some (String_field s) \<Rightarrow> s | _ \<Rightarrow> [])"

definition the_bytes :: "scalar option \<Rightarrow> bytes" where
  "the_bytes x = (case x of Some (Bytes_field b) \<Rightarrow> b | _ \<Rightarrow> [])"

definition message_of_fields :: "nat \<Rightarrow> (nat \<rightharpoonup> scalar) \<Rightarrow> Payload option" where
  "message_of_fields k f =
     (if k = 1 then Some (Envelope_Handshake \<lparr>Handshake_PublicKey = the_bytes (f 1)\<rparr>)
      else if k = 2 then Some (Envelope_Register \<lparr>Register_ConnectionId = the_string (f 1)\<rparr>)
      else if k = 3 then Some (Envelope_RegisterAck
        \<lparr>RegisterAck_Success = the_bool (f 1), RegisterAck_Message = the_string (f 2)\<rparr>)
      else if k = 4 then Some (Envelope_ConnectRequest \<lparr>ConnectRequest_ConnectionId = the_string (f 1)\<rparr>)
      else if k = 5 then Some (Envelope_ConnectAck
        \<lparr>ConnectAck_Success = the_bool (f 1), ConnectAck_Message = the_string (f 2)\<rparr>)
      else if k = 6 then Some (Envelope_OpenStream \<lparr>OpenStream_StreamId = the_uint32 (f 1)\<rparr>)
      else if k = 7 then Some (Envelope_OpenStreamAck
        \<lparr>OpenStreamAck_StreamId = the_uint32 (f 1), OpenStreamAck_Success = the_bool (f 2),
         OpenStreamAck_Message = the_string (f 3)\<rparr>)
      else if k = 8 then Some (Envelope_Data \<lparr>Data_StreamId = the_uint32 (f 1), Data_Payload = the_bytes (f 2)\<rparr>)
      else if k = 9 then Some (Envelope_CloseStream \<lparr>CloseStream_StreamId = the_uint32 (f 1)\<rparr>)
      else if k = 10 then Some (Envelope_Heartbeat Heartbeat)
      else if k = 11 then Some (Envelope_Disconnect \<lparr>Disconnect_Reason = the_string (f 1)\<rparr>)
      else if k = 12 then Some (Envelope_ErrorMsg \<lparr>ErrorMsg_Message = the_string (f 1)\<rparr>)
      else if k = 13 then Some (Envelope_Authenticate \<lparr>Authenticate_PassphraseHash = the_bytes (f 1)\<rparr>)
      else None)"

subsection \<open>UTF-8\<close>

text \<open>\<^verbatim>\<open>utf8.ValidString\<close>.\<close>

function ValidString :: "string \<Rightarrow> bool" where
  "ValidString s =
     (if s = [] then True
      else let (r, w) = DecodeRune s in if w = 1 \<and> r = 0xFFFD then False else ValidString (drop w s))"
  by auto
termination
proof (relation "measure length")
  fix s x r w
  assume "s \<noteq> []" "x = DecodeRune s" "(r, w) = x" "\<not> (w = 1 \<and> r = 0xFFFD)"
  then have "0 < w" using DecodeRune_width [of s] by (cases "DecodeRune s") auto
  with \<open>s \<noteq> []\<close> show "(drop w s, s) \<in> measure length" by simp
qed simp

declare ValidString.simps [simp del]

lemma ValidString_Nil [simp]: "ValidString []"
  by (subst ValidString.simps) simp

lemma ValidString_Cons_ASCII: "ord c < 128 \<Longrightarrow> ValidString (c # s) \<longleftrightarrow> ValidString s"
  by (subst ValidString.simps) (simp add: DecodeRune_def Let_def)

lemma ValidString_ASCII: "\<forall>c\<in>set s. ord c < 128 \<Longrightarrow> ValidString s"
  by (induction s) (simp_all add: ValidString_Cons_ASCII)

subsection \<open>Varints\<close>

fun put_varint :: "nat \<Rightarrow> bytes" where
  "put_varint n = (if n < 128 then [of_nat n] else of_nat (128 + n mod 128) # put_varint (n div 128))"

declare put_varint.simps [simp del]

text \<open>\<open>k\<close> bytes have been read already; the tenth byte has octets for one bit.\<close>

fun get_varint :: "nat \<Rightarrow> bytes \<Rightarrow> (nat \<times> bytes) option" where
  "get_varint k [] = None"
| "get_varint k (b # bs) =
     (if 9 \<le> k \<and> 2 \<le> unat b then None
      else if unat b < 128 then Some (unat b, bs)
      else (case get_varint (Suc k) bs of
              None \<Rightarrow> None
            | Some (n, r) \<Rightarrow> Some (unat b - 128 + 128 * n, r)))"

lemma unat_of_nat_byte: "n < 256 \<Longrightarrow> unat (of_nat n :: byte) = n"
  by (simp add: unat_of_nat take_bit_eq_mod)

lemma get_varint_shorter: "get_varint k bs = Some (n, r) \<Longrightarrow> length r < length bs"
  by (induction k bs arbitrary: n r rule: get_varint.induct) (force split: if_splits option.splits)+

lemma get_put_varint_from:
  "n < 2 ^ (64 - 7 * k) \<Longrightarrow> k \<le> 9 \<Longrightarrow> get_varint k (put_varint n @ r) = Some (n, r)"
proof (induction n arbitrary: k rule: put_varint.induct)
  case (1 n)
  show ?case
  proof (cases "n < 128")
    case True
    then have "\<not> (9 \<le> k \<and> 2 \<le> n)" using 1(2,3) by (cases "k = 9") auto
    then show ?thesis using True by (simp add: put_varint.simps [of n] unat_of_nat_byte)
  next
    case False
    then have k: "k < 9" using 1(2,3) by (cases "k = 9") auto
    then have "(2 :: nat) ^ (64 - 7 * k) = 2 ^ (64 - 7 * Suc k) * 128"
      using power_add [of "2 :: nat" "64 - 7 * Suc k" 7] by simp
    then have "n div 128 < 2 ^ (64 - 7 * Suc k)" using 1(2) by (simp add: less_mult_imp_div_less)
    then have "get_varint (Suc k) (put_varint (n div 128) @ r) = Some (n div 128, r)"
      using 1(1) [of "Suc k"] False k by simp
    moreover have "unat (of_nat (128 + n mod 128) :: byte) = 128 + n mod 128" by (rule unat_of_nat_byte) simp
    ultimately show ?thesis using False k by (simp add: put_varint.simps [of n] del: of_nat_add)
  qed
qed

lemma get_put_varint: "n < 2 ^ 64 \<Longrightarrow> get_varint 0 (put_varint n @ r) = Some (n, r)"
  by (rule get_put_varint_from) simp_all

lemma put_varint_not_Nil [simp]: "put_varint n \<noteq> []"
  by (subst put_varint.simps) simp

lemma put_varint_le_iff: "0 < k \<Longrightarrow> length (put_varint n) \<le> k \<longleftrightarrow> n < 128 ^ k"
proof (induction n arbitrary: k rule: put_varint.induct)
  case (1 n)
  show ?case
  proof (cases "n < 128")
    case True
    moreover have "(128 :: nat) ^ 1 \<le> 128 ^ k" using 1(2) by (intro power_increasing) simp_all
    ultimately show ?thesis using 1(2) by (simp add: put_varint.simps [of n])
  next
    case False
    then have l: "length (put_varint n) = Suc (length (put_varint (n div 128)))" by (simp add: put_varint.simps [of n])
    show ?thesis
    proof (cases "k = 1")
      case True
      then show ?thesis using False l by simp
    next
      case k: False
      then obtain j where j: "k = Suc j" "0 < j" using 1(2) by (cases k) auto
      then show ?thesis using 1(1) [OF False j(2)] l by (simp add: div_less_iff_less_mult mult.commute)
    qed
  qed
qed

lemma put_varint_pos [simp]: "0 < length (put_varint n)"
  by simp

lemma put_varint_mono: "m \<le> n \<Longrightarrow> length (put_varint m) \<le> length (put_varint n)"
  using put_varint_le_iff [OF put_varint_pos, of n n] put_varint_le_iff [OF put_varint_pos, of m n] by simp

subsection \<open>Fields on the wire\<close>

datatype wire_value = Varint_value nat | Fixed64_value bytes | Len_value bytes | Fixed32_value bytes

fun wire_type :: "wire_value \<Rightarrow> nat" where
  "wire_type (Varint_value v) = 0"
| "wire_type (Fixed64_value b) = 1"
| "wire_type (Len_value b) = 2"
| "wire_type (Fixed32_value b) = 5"

fun put_value :: "wire_value \<Rightarrow> bytes" where
  "put_value (Varint_value v) = put_varint v"
| "put_value (Fixed64_value b) = b"
| "put_value (Len_value b) = put_varint (length b) @ b"
| "put_value (Fixed32_value b) = b"

definition put_field :: "nat \<times> wire_value \<Rightarrow> bytes" where
  "put_field = (\<lambda>(n, w). put_varint (n * 8 + wire_type w) @ put_value w)"

definition get_value :: "nat \<Rightarrow> bytes \<Rightarrow> (wire_value \<times> bytes) option" where
  "get_value ty bs =
     (if ty = 0 then map_option (\<lambda>(v, r). (Varint_value v, r)) (get_varint 0 bs)
      else if ty = 1 then (if length bs < 8 then None else Some (Fixed64_value (take 8 bs), drop 8 bs))
      else if ty = 2 then
        (case get_varint 0 bs of
           None \<Rightarrow> None
         | Some (n, r) \<Rightarrow> if length r < n then None else Some (Len_value (take n r), drop n r))
      else if ty = 5 then (if length bs < 4 then None else Some (Fixed32_value (take 4 bs), drop 4 bs))
      else None)"

definition get_field :: "bytes \<Rightarrow> ((nat \<times> wire_value) \<times> bytes) option" where
  "get_field bs =
     (case get_varint 0 bs of
        None \<Rightarrow> None
      | Some (t, r) \<Rightarrow>
          if t div 8 = 0 \<or> 2 ^ 29 \<le> t div 8 then None
          else map_option (\<lambda>(w, r'). ((t div 8, w), r')) (get_value (t mod 8) r))"

lemma get_value_shorter: "get_value ty bs = Some (w, r) \<Longrightarrow> length r \<le> length bs"
  by (auto simp: get_value_def split: if_splits option.splits dest!: get_varint_shorter)

lemma get_field_shorter: "get_field bs = Some (x, r) \<Longrightarrow> length r < length bs"
  by (auto simp: get_field_def split: if_splits option.splits dest!: get_varint_shorter get_value_shorter)

function get_fields :: "bytes \<Rightarrow> (nat \<times> wire_value) list option" where
  "get_fields bs =
     (if bs = [] then Some []
      else case get_field bs of
             None \<Rightarrow> None
           | Some (x, r) \<Rightarrow> map_option ((#) x) (get_fields r))"
  by auto
termination
  by (relation "measure length") (auto dest: get_field_shorter)

declare get_fields.simps [simp del]

definition field_ok :: "nat \<times> wire_value \<Rightarrow> bool" where
  "field_ok = (\<lambda>(n, w). 0 < n \<and> n < 2 ^ 29 \<and>
     (case w of Varint_value v \<Rightarrow> v < 2 ^ 64 | Fixed64_value b \<Rightarrow> length b = 8 | Len_value b \<Rightarrow> length b < 2 ^ 63 | Fixed32_value b \<Rightarrow> length b = 4))"

lemma get_put_field: "field_ok x \<Longrightarrow> get_field (put_field x @ r) = Some (x, r)"
proof -
  assume ok: "field_ok x"
  obtain n w where x: "x = (n, w)" by (cases x)
  have n: "0 < n" "n < 2 ^ 29" using ok by (simp_all add: field_ok_def x)
  have t: "wire_type w < 8" by (cases w) simp_all
  have "n * 8 + wire_type w < 2 ^ 64" using n(2) t by simp
  then have "get_varint 0 (put_field x @ r) = Some (n * 8 + wire_type w, put_value w @ r)"
    by (simp add: x put_field_def get_put_varint)
  moreover have "get_value (wire_type w) (put_value w @ r) = Some (w, r)"
    using ok by (cases w) (simp_all add: x field_ok_def get_value_def get_put_varint)
  ultimately show ?thesis using n t by (simp add: get_field_def x)
qed

lemma put_field_not_Nil [simp]: "put_field x \<noteq> []"
  by (simp add: put_field_def split: prod.split)

lemma get_put_fields:
  "\<forall>x\<in>set xs. field_ok x \<Longrightarrow> get_fields (concat (map put_field xs) @ r) = map_option ((@) xs) (get_fields r)"
proof (induction xs)
  case Nil
  show ?case by (simp add: option.map_ident_strong)
next
  case (Cons x xs)
  then show ?case
    by (subst get_fields.simps) (cases "get_fields r"; simp add: get_put_field)
qed

lemma get_fields_Nil [simp]: "get_fields [] = Some []"
  by (subst get_fields.simps) simp

subsection \<open>Marshal\<close>

text \<open>A field with its zero value is not written.\<close>

fun wire_of :: "scalar \<Rightarrow> wire_value option" where
  "wire_of (Bool_field b) = (if b then Some (Varint_value 1) else None)"
| "wire_of (Uint32_field n) = (if n = 0 then None else Some (Varint_value (unat n)))"
| "wire_of (String_field s) = (if s = [] then None else Some (Len_value (bytes_of_string s)))"
| "wire_of (Bytes_field b) = (if b = [] then None else Some (Len_value b))"

fun put_scalar :: "nat \<times> scalar \<Rightarrow> (nat \<times> wire_value) list" where
  "put_scalar (n, x) = (case wire_of x of None \<Rightarrow> [] | Some w \<Rightarrow> [(n, w)])"

definition wire_fields :: "Payload \<Rightarrow> (nat \<times> wire_value) list" where
  "wire_fields p = concat (map put_scalar (message_fields p))"

definition message_bytes :: "Payload \<Rightarrow> bytes" where
  "message_bytes p = concat (map put_field (wire_fields p))"

fun valid_scalar :: "scalar \<Rightarrow> bool" where
  "valid_scalar (String_field s) = ValidString s"
| "valid_scalar (Bool_field b) = True"
| "valid_scalar (Uint32_field n) = True"
| "valid_scalar (Bytes_field b) = True"

definition valid_message :: "Payload \<Rightarrow> bool" where
  "valid_message p \<longleftrightarrow> list_all (\<lambda>(n, x). valid_scalar x) (message_fields p)"

definition proto_error :: error where
  "proto_error = Errorf ''proto: error''"

text \<open>A Go slice has fewer than \<open>2 ^ 63\<close> bytes.\<close>

definition proto_Marshal :: "Envelope \<Rightarrow> bytes result" where
  "proto_Marshal e =
     (case Envelope_Payload e of
        None \<Rightarrow> Inr []
      | Some p \<Rightarrow>
          if valid_message p \<and> length (message_bytes p) < 2 ^ 63
          then Inr (put_field (payload_number p, Len_value (message_bytes p)))
          else Inl proto_error)"

lemma length_string_of_bytes [simp]: "length (string_of_bytes b) = length b"
  by (simp add: string_of_bytes_def)

lemma bytes_of_string_of_bytes [simp]: "bytes_of_string (string_of_bytes b) = b"
  by (simp add: bytes_of_string_def string_of_bytes_def comp_def)

subsection \<open>Unmarshal\<close>

fun read_scalar :: "field_kind \<Rightarrow> wire_value \<Rightarrow> scalar option" where
  "read_scalar Kind_bool (Varint_value v) = Some (Bool_field (v \<noteq> 0))"
| "read_scalar Kind_uint32 (Varint_value v) = Some (Uint32_field (of_nat v))"
| "read_scalar Kind_string (Len_value b) = Some (String_field (string_of_bytes b))"
| "read_scalar Kind_bytes (Len_value b) = Some (Bytes_field b)"
| "read_scalar k w = None"

fun read_message :: "(nat \<times> field_kind) list \<Rightarrow> (nat \<times> wire_value) list \<Rightarrow> (nat \<rightharpoonup> scalar) \<Rightarrow> (nat \<rightharpoonup> scalar) option" where
  "read_message ks [] f = Some f"
| "read_message ks ((n, w) # ws) f =
     (case Option.bind (map_of ks n) (\<lambda>k. read_scalar k w) of
        None \<Rightarrow> read_message ks ws f
      | Some x \<Rightarrow> if valid_scalar x then read_message ks ws (f(n \<mapsto> x)) else None)"

text \<open>What has been read of the \<open>oneof\<close>: a later alternative replaces an earlier one, but the same message is merged.\<close>

type_synonym partial_payload = "(nat \<times> (nat \<rightharpoonup> scalar)) option"

fun embedded :: "nat \<times> wire_value \<Rightarrow> bytes option" where
  "embedded (n, Len_value b) = (if 1 \<le> n \<and> n \<le> 13 then Some b else None)"
| "embedded (n, w) = None"

definition read_so_far :: "nat \<Rightarrow> partial_payload \<Rightarrow> (nat \<rightharpoonup> scalar)" where
  "read_so_far n p = (case p of Some (n', f) \<Rightarrow> if n' = n then f else Map.empty | None \<Rightarrow> Map.empty)"

definition read_part :: "nat \<Rightarrow> bytes \<Rightarrow> partial_payload \<Rightarrow> (nat \<rightharpoonup> scalar) option" where
  "read_part n b p = Option.bind (get_fields b) (\<lambda>fs. read_message (message_schema n) fs (read_so_far n p))"

fun read_envelope :: "(nat \<times> wire_value) list \<Rightarrow> partial_payload \<Rightarrow> partial_payload option" where
  "read_envelope [] p = Some p"
| "read_envelope (x # ws) p =
     (case embedded x of
        None \<Rightarrow> read_envelope ws p
      | Some b \<Rightarrow>
          (case read_part (fst x) b p of
             None \<Rightarrow> None
           | Some f \<Rightarrow> read_envelope ws (Some (fst x, f))))"

definition proto_Unmarshal :: "bytes \<Rightarrow> Envelope result" where
  "proto_Unmarshal d =
     (case Option.bind (get_fields d) (\<lambda>fs. read_envelope fs None) of
        None \<Rightarrow> Inl proto_error
      | Some None \<Rightarrow> Inr \<lparr>Envelope_Payload = None\<rparr>
      | Some (Some (n, f)) \<Rightarrow> Inr \<lparr>Envelope_Payload = message_of_fields n f\<rparr>)"

definition proto_codec :: codec where
  "proto_codec = \<lparr>Marshal = proto_Marshal, Unmarshal = proto_Unmarshal\<rparr>"

lemma proto_codec_sel: "Marshal proto_codec = proto_Marshal" "Unmarshal proto_codec = proto_Unmarshal"
  by (simp_all add: proto_codec_def)

subsection \<open>The round trip\<close>

lemma payload_number_range: "1 \<le> payload_number p" "payload_number p \<le> 13"
  by (cases p; simp)+

lemmas schema_simps = message_schema_def message_of_fields_def the_bool_def the_uint32_def the_string_def the_bytes_def

lemma read_wire_fields:
  assumes "valid_message p"
  shows "\<exists>f. read_message (message_schema (payload_number p)) (wire_fields p) Map.empty = Some f \<and>
    message_of_fields (payload_number p) f = Some p"
  using assms
  by (cases p) (auto simp: schema_simps wire_fields_def valid_message_def Heartbeat_unique [symmetric])

lemma message_fields_number: "(n, x) \<in> set (message_fields p) \<Longrightarrow> 0 < n \<and> n < 2 ^ 29"
  by (cases p) auto

definition octets :: "(nat \<times> wire_value) list \<Rightarrow> nat" where
  "octets ws = sum_list (map (\<lambda>x. length (put_field x)) ws)"

lemma octets_simps [simp]: "octets [] = 0" "octets (x # ws) = length (put_field x) + octets ws"
  by (simp_all add: octets_def)

lemma octets_append [simp]: "octets (xs @ ys) = octets xs + octets ys"
  by (simp add: octets_def)

lemma length_message_bytes_eq: "length (message_bytes p) = octets (wire_fields p)"
  by (simp add: message_bytes_def octets_def length_concat comp_def)

lemma length_put_value: "length b \<le> length (put_field (n, Len_value b))"
  by (simp add: put_field_def)

lemma length_message_bytes: "(n, Len_value b) \<in> set (wire_fields p) \<Longrightarrow> length b \<le> length (message_bytes p)"
proof -
  assume "(n, Len_value b) \<in> set (wire_fields p)"
  then obtain xs ys where "wire_fields p = xs @ (n, Len_value b) # ys" by (auto simp: in_set_conv_decomp)
  then show ?thesis using length_put_value [of b n] by (simp add: message_bytes_def)
qed

lemma wire_fields_ok:
  assumes "length (message_bytes p) < 2 ^ 63" "y \<in> set (wire_fields p)"
  shows "field_ok y"
proof -
  from assms(2) obtain n x where x: "(n, x) \<in> set (message_fields p)" "y \<in> set (put_scalar (n, x))"
    by (auto simp: wire_fields_def)
  from x(2) obtain w where w: "y = (n, w)" "wire_of x = Some w" by (auto split: option.splits)
  have "length b < 2 ^ 63" if "w = Len_value b" for b using length_message_bytes [of n b p] assms w(1) that by simp
  moreover have "unat u < 2 ^ 64" for u :: u32 using unsigned_less [of u, where ?'a = nat] by simp
  ultimately show ?thesis using message_fields_number [OF x(1)] w
    by (cases x) (auto simp: field_ok_def split: if_splits)
qed

lemma read_envelope_append:
  "read_envelope (xs @ ys) p = Option.bind (read_envelope xs p) (read_envelope ys)"
proof (induction xs arbitrary: p)
  case (Cons x xs)
  show ?case by (simp add: Cons.IH split: option.split)
qed simp

text \<open>Fields the schema does not know are skipped, wherever they stand.\<close>

lemma read_envelope_unknown:
  "\<forall>(n, w)\<in>set xs. n = 0 \<or> 13 < n \<Longrightarrow> read_envelope xs p = Some p"
proof (induction xs)
  case (Cons x xs)
  then have "embedded x = None" by (cases x rule: embedded.cases) auto
  with Cons show ?case by simp
qed simp

lemma read_envelope_message:
  assumes "valid_message p" "length (message_bytes p) < 2 ^ 63"
  shows "\<exists>f. read_envelope [(payload_number p, Len_value (message_bytes p))] None = Some (Some (payload_number p, f)) \<and>
    message_of_fields (payload_number p) f = Some p"
proof -
  obtain f where f: "read_message (message_schema (payload_number p)) (wire_fields p) Map.empty = Some f"
    "message_of_fields (payload_number p) f = Some p" using read_wire_fields [OF assms(1)] by blast
  have "get_fields (message_bytes p) = Some (wire_fields p)"
    using get_put_fields [of "wire_fields p" "[]"] wire_fields_ok [OF assms(2)] by (simp add: message_bytes_def)
  then show ?thesis using f payload_number_range [of p] by (simp add: read_part_def read_so_far_def)
qed

lemma proto_roundtrip:
  assumes "proto_Marshal e = Inr d" "get_fields u = Some us" "\<forall>(n, w)\<in>set us. n = 0 \<or> 13 < n"
  shows "proto_Unmarshal (d @ u) = Inr e"
proof (cases "Envelope_Payload e")
  case None
  then have "d = []" using assms(1) by (simp add: proto_Marshal_def)
  then show ?thesis using assms(2) read_envelope_unknown [OF assms(3)] None
    by (cases e) (simp add: proto_Unmarshal_def)
next
  case (Some p)
  let ?x = "(payload_number p, Len_value (message_bytes p))"
  have d: "valid_message p" "length (message_bytes p) < 2 ^ 63" "d = put_field ?x"
    using assms(1) Some by (simp_all add: proto_Marshal_def split: if_splits)
  have "field_ok ?x" using payload_number_range [of p] d(2) by (simp add: field_ok_def)
  then have fs: "get_fields (d @ u) = Some (?x # us)"
    using get_put_fields [of "[?x]" u] assms(2) d(3) by simp
  obtain f where "read_envelope [?x] None = Some (Some (payload_number p, f))" "message_of_fields (payload_number p) f = Some p"
    using read_envelope_message [OF d(1,2)] by blast
  then show ?thesis using fs read_envelope_append [of "[?x]" us None] read_envelope_unknown [OF assms(3)] Some
    by (cases e) (simp add: proto_Unmarshal_def del: read_envelope.simps)
qed

text \<open>A message without fields is its zero value, and the other way round.\<close>

lemma message_of_no_fields: "message_of_fields (payload_number p) Map.empty = Some (Message_Reset p)"
  by (cases p) (simp_all add: schema_simps)

lemma Message_Reset_bytes: "message_bytes (Message_Reset p) = []"
  by (cases p) (simp_all add: message_bytes_def wire_fields_def)

lemma proto_Unmarshal_Nil: "proto_Unmarshal [] = Inr (Envelope_Reset e)"
  by (simp add: proto_Unmarshal_def Envelope_Reset_def)

lemma put_varint_small: "n < 128 \<Longrightarrow> put_varint n = [of_nat n]"
  by (simp add: put_varint.simps)

text \<open>The instance meets what the program relies on.\<close>

lemma proto_codec_ok: "codec_ok proto_codec"
  using proto_roundtrip [of _ _ "[]" "[]"] by (simp add: codec_ok_def proto_codec_sel)

subsection \<open>Sizes\<close>

lemma length_put_Len:
  "1 \<le> n \<Longrightarrow> n \<le> 13 \<Longrightarrow> length (put_field (n, Len_value b)) = 1 + length (put_varint (length b)) + length b"
  by (simp add: put_field_def put_varint.simps [of "n * 8 + 2"] put_varint.simps [of "Suc (Suc (n * 8))"])

text \<open>An upper bound: a number has at most five bytes, a tag and the length of a text or of a message in bytes six together.\<close>

fun field_size :: "scalar \<Rightarrow> nat" where
  "field_size (Bool_field b) = 2"
| "field_size (Uint32_field n) = 6"
| "field_size (String_field s) = 6 + length s"
| "field_size (Bytes_field b) = 6 + length b"

definition message_size :: "Payload \<Rightarrow> nat" where
  "message_size p = sum_list (map (\<lambda>(n, x). field_size x) (message_fields p))"

lemma put_varint_5: "n < 2 ^ 35 \<Longrightarrow> length (put_varint n) \<le> 5"
  by (subst put_varint_le_iff) simp_all

lemma length_put_tag: "n < 16 \<Longrightarrow> length (put_varint (n * 8 + wire_type w)) = 1"
  by (cases w) (simp_all add: put_varint.simps)

lemma put_scalar_size: "n < 16 \<Longrightarrow> field_size x < 2 ^ 35 \<Longrightarrow> octets (put_scalar (n, x)) \<le> field_size x"
proof (cases x)
  case (Uint32_field u)
  have "unat u < 2 ^ 35" using unsigned_less [of u, where ?'a = nat] by simp
  then show "n < 16 \<Longrightarrow> octets (put_scalar (n, x)) \<le> field_size x"
    using put_varint_5 by (simp add: Uint32_field put_field_def length_put_tag [of n "Varint_value (unat u)", simplified])
next
  case (String_field s)
  assume a: "n < 16" "field_size x < 2 ^ 35"
  then have "length (put_varint (length s)) \<le> 5" by (intro put_varint_5) (simp add: String_field)
  then show ?thesis using a(1) length_put_tag [of n "Len_value (bytes_of_string s)"] by (simp add: String_field put_field_def)
next
  case (Bytes_field b)
  assume a: "n < 16" "field_size x < 2 ^ 35"
  then have "length (put_varint (length b)) \<le> 5" by (intro put_varint_5) (simp add: Bytes_field)
  then show ?thesis using a(1) length_put_tag [of n "Len_value b"] by (simp add: Bytes_field put_field_def)
next
  case (Bool_field b)
  assume "n < 16"
  then show ?thesis using length_put_tag [of n "Varint_value 1"] by (simp add: Bool_field put_field_def put_varint.simps [of "Suc 0"])
qed

lemma sum_list_le: "\<forall>x\<in>set xs. f x \<le> g x \<Longrightarrow> sum_list (map f xs) \<le> sum_list (map (g :: 'a \<Rightarrow> nat) xs)"
  by (induction xs) auto

lemma message_bytes_size: "message_size p < 2 ^ 35 \<Longrightarrow> length (message_bytes p) \<le> message_size p"
proof -
  assume "message_size p < 2 ^ 35"
  then have "\<forall>y\<in>set (message_fields p). octets (put_scalar y) \<le> (\<lambda>(n, x). field_size x) y"
    by (cases p) (auto simp: message_size_def simp del: put_scalar.simps field_size.simps intro!: put_scalar_size)
  from sum_list_le [OF this] have "sum_list (map (\<lambda>y. octets (put_scalar y)) (message_fields p)) \<le> message_size p"
    by (simp add: message_size_def)
  moreover have "octets (concat yss) = sum_list (map octets yss)" for yss by (induction yss) simp_all
  ultimately show ?thesis by (simp add: length_message_bytes_eq wire_fields_def comp_def)
qed

text \<open>Payloads that fit into an encrypted frame.\<close>

definition sendable :: "Payload \<Rightarrow> bool" where
  "sendable p \<longleftrightarrow> valid_message p \<and> message_size p \<le> 1048540"

definition proto_payload :: "Payload \<Rightarrow> bytes" where
  "proto_payload p = put_field (payload_number p, Len_value (message_bytes p))"

lemma sendable_length: "sendable p \<Longrightarrow> length (proto_payload p) \<le> 1048548"
proof -
  assume "sendable p"
  then have l: "length (message_bytes p) \<le> 1048540" using message_bytes_size [of p] by (simp add: sendable_def)
  have "length (put_varint (length (message_bytes p))) \<le> 3" using l by (subst put_varint_le_iff) simp_all
  then show ?thesis using l payload_number_range [of p] by (simp add: proto_payload_def length_put_Len)
qed

lemma sendable_Marshal [simp]: "sendable p \<Longrightarrow> Marshal proto_codec (env p) = Inr (proto_payload p)"
  using message_bytes_size [of p] by (simp add: sendable_def proto_codec_sel proto_Marshal_def proto_payload_def)

lemma sendable_Unmarshal [simp]: "sendable p \<Longrightarrow> Unmarshal proto_codec (proto_payload p) = Inr (env p)"
  by (rule codec_okD [OF proto_codec_ok sendable_Marshal])

lemmas sendable_simps = sendable_def valid_message_def message_size_def ValidString_Cons_ASCII

end
