(* ===== verification/Session.thy ===== *)
theory Session
  imports Framing Aead Proto_Wire
begin

text \<open>
  \<^verbatim>\<open>pkg/protocol/session.go\<close>: encrypted, framed envelopes over a connection. The
  mutexes \<^verbatim>\<open>sendMu\<close> and \<^verbatim>\<open>recvMu\<close> make each operation one step of its direction.
  The lemmas show that two sessions with mirrored keys form a FIFO channel of envelopes
  (an instance of \<open>fifo_channel\<close>), and what the sizes allow.
\<close>

record session =
  conn :: net_conn
  sendEnc :: AEAD
  recvEnc :: AEAD

definition NewSession :: "net_conn \<Rightarrow> bytes \<Rightarrow> bytes \<Rightarrow> session result" where
  "NewSession c sendKey recvKey =
     (case NewAEAD sendKey of
        Inl err \<Rightarrow> Inl (Wrapf ''failed to create send AEAD'' err)
      | Inr se \<Rightarrow>
          (case NewAEAD recvKey of
             Inl err \<Rightarrow> Inl (Wrapf ''failed to create receive AEAD'' err)
           | Inr re \<Rightarrow> Inr \<lparr>conn = c, sendEnc = se, recvEnc = re\<rparr>))"

definition Send :: "codec \<Rightarrow> session \<Rightarrow> Envelope \<Rightarrow> error option \<times> session" where
  "Send c s e =
     (case Marshal c e of
        Inl err \<Rightarrow> (Some (Wrapf ''failed to marshal envelope'' err), s)
      | Inr data \<Rightarrow>
          (case Encrypt (sendEnc s) data of
             (Inl err, enc) \<Rightarrow> (Some (Wrapf ''failed to encrypt envelope'' err), s\<lparr>sendEnc := enc\<rparr>)
           | (Inr encrypted, enc) \<Rightarrow>
               (case WriteFrame (conn s) encrypted of
                  (Some err, w) \<Rightarrow>
                    (Some (Wrapf ''failed to write encrypted frame'' err), s\<lparr>conn := w, sendEnc := enc\<rparr>)
                | (None, w) \<Rightarrow> (None, s\<lparr>conn := w, sendEnc := enc\<rparr>))))"

text \<open>The raw bytes, the envelope or the error, and the session afterwards.\<close>

definition ReceiveRaw :: "codec \<Rightarrow> session \<Rightarrow> bytes \<times> Envelope result \<times> session" where
  "ReceiveRaw c s =
     (case ReadFrame (conn s) of
        (Inl err, r) \<Rightarrow> ([], Inl (Wrapf ''failed to read encrypted frame'' err), s\<lparr>conn := r\<rparr>)
      | (Inr frame, r) \<Rightarrow>
          (case Decrypt (recvEnc s) frame of
             (Inl err, enc) \<Rightarrow>
               (frame, Inl (Wrapf ''failed to decrypt frame'' err), s\<lparr>conn := r, recvEnc := enc\<rparr>)
           | (Inr plaintext, enc) \<Rightarrow>
               (case Unmarshal c plaintext of
                  Inl err \<Rightarrow> (plaintext, Inl (Wrapf ''failed to unmarshal envelope'' err),
                              s\<lparr>conn := r, recvEnc := enc\<rparr>)
                | Inr e \<Rightarrow> (plaintext, Inr e, s\<lparr>conn := r, recvEnc := enc\<rparr>))))"

definition Receive :: "codec \<Rightarrow> session \<Rightarrow> Envelope result \<times> session" where
  "Receive c s = (case ReceiveRaw c s of (_, r, s') \<Rightarrow> (r, s'))"

definition SendCleartext :: "codec \<Rightarrow> session \<Rightarrow> Envelope \<Rightarrow> error option \<times> session" where
  "SendCleartext c s e =
     (case Marshal c e of
        Inl err \<Rightarrow> (Some (Wrapf ''failed to marshal envelope'' err), s)
      | Inr data \<Rightarrow>
          (case WriteFrame (conn s) data of
             (Some err, w) \<Rightarrow> (Some (Wrapf ''failed to write cleartext frame'' err), s\<lparr>conn := w\<rparr>)
           | (None, w) \<Rightarrow> (None, s\<lparr>conn := w\<rparr>)))"

definition ReceiveCleartext :: "codec \<Rightarrow> session \<Rightarrow> Envelope result \<times> session" where
  "ReceiveCleartext c s =
     (case ReadFrame (conn s) of
        (Inl err, r) \<Rightarrow> (Inl (Wrapf ''failed to read cleartext frame'' err), s\<lparr>conn := r\<rparr>)
      | (Inr frame, r) \<Rightarrow>
          (case Unmarshal c frame of
             Inl err \<Rightarrow> (Inl (Wrapf ''failed to unmarshal envelope'' err), s\<lparr>conn := r\<rparr>)
           | Inr e \<Rightarrow> (Inr e, s\<lparr>conn := r\<rparr>)))"

text \<open>
  Two sessions joined by TCP: what the sender writes is delivered to the receiver. \<open>in_flight\<close>
  decodes what the receiver has not read yet with the receiver's own key and counter.
\<close>

type_synonym session_link = "codec \<times> session \<times> session"

definition link_push :: "session_link \<Rightarrow> Envelope \<Rightarrow> session_link option" where
  "link_push w e =
     (case w of (c, a, b) \<Rightarrow>
        (case Send c a e of
           (Some _, _) \<Rightarrow> None
         | (None, a') \<Rightarrow>
             (case deliver (conn a') (conn b) of
                (ca, cb) \<Rightarrow> Some (c, a'\<lparr>conn := ca\<rparr>, b\<lparr>conn := cb\<rparr>))))"

definition link_pull :: "session_link \<Rightarrow> (Envelope \<times> session_link) option" where
  "link_pull w =
     (case w of (c, a, b) \<Rightarrow>
        (case Receive c b of
           (Inl _, _) \<Rightarrow> None
         | (Inr e, b') \<Rightarrow> Some (e, (c, a, b'))))"

text \<open>The envelopes the receiver will get, in order, until a receive fails.\<close>

fun drain :: "codec \<Rightarrow> nat \<Rightarrow> session \<Rightarrow> Envelope list" where
  "drain c 0 b = []"
| "drain c (Suc n) b = (case Receive c b of (Inr e, b') \<Rightarrow> e # drain c n b' | (Inl _, _) \<Rightarrow> [])"

definition in_flight :: "session_link \<Rightarrow> Envelope list" where
  "in_flight w = (case w of (c, a, b) \<Rightarrow> drain c (length (rx (conn b))) b)"

text \<open>The bytes on the wire for the plaintexts \<open>ps\<close>, the first under counter \<open>n\<close>.\<close>

fun wire :: "cipher_AEAD \<Rightarrow> u64 \<Rightarrow> bytes list \<Rightarrow> bytes" where
  "wire g n [] = []"
| "wire g n (p # ps) = frame_bytes (nonce_at n @ Seal g (nonce_at n) p) @ wire g (n + 1) ps"

text \<open>The largest plaintext whose encrypted frame still fits into a frame: 28 bytes less.\<close>

definition max_plaintext :: nat where
  "max_plaintext = 1048548"

definition in_sync :: "session_link \<Rightarrow> bool" where
  "in_sync w \<longleftrightarrow>
     (case w of (c, a, b) \<Rightarrow>
        codec_ok c \<and> \<not> conn_closed (conn b) \<and> tx (conn a) = [] \<and>
        (\<exists>key ps. gcm (sendEnc a) = aes_NewGCM key \<and> gcm (recvEnc b) = aes_NewGCM key \<and>
           rx (conn b) = wire (aes_NewGCM key) (counter (recvEnc b)) ps \<and>
           counter (sendEnc a) = counter (recvEnc b) + of_nat (length ps) \<and>
           (\<forall>p\<in>set ps. length p \<le> max_plaintext \<and> (\<exists>e. Unmarshal c p = Inr e))))"

text \<open>A send never touches the incoming side; a successful receive consumes at least a frame header.\<close>

lemma Send_conn:
  assumes "Send c s e = (r, s')"
  shows "rx (conn s') = rx (conn s)" "rx_end (conn s') = rx_end (conn s)"
    "conn_closed (conn s') = conn_closed (conn s)" "recvEnc s' = recvEnc s"
  using assms by (auto simp: Send_def split: sum.splits prod.splits option.splits dest: WriteFrame_conn)

lemma Receive_conn:
  assumes "Receive c s = (r, s')"
  shows "tx (conn s') = tx (conn s)" "conn_closed (conn s') = conn_closed (conn s)" "sendEnc s' = sendEnc s"
    "length (rx (conn s')) \<le> length (rx (conn s))"
    "r = Inr e \<Longrightarrow> length (rx (conn s')) < length (rx (conn s))" "r = Inr e \<Longrightarrow> \<not> conn_closed (conn s)"
proof -
  obtain f w where rf: "ReadFrame (conn s) = (f, w)" by (cases "ReadFrame (conn s)")
  then have w: "w = (conn s)\<lparr>rx := rx w\<rparr>" "length (rx w) \<le> length (rx (conn s))"
    using ReadFrame_conn(1,2) [OF rf] by auto
  then have w': "tx w = tx (conn s)" "conn_closed w = conn_closed (conn s)"
    by (metis net_conn.select_convs(3) net_conn.surjective net_conn.update_convs(1),
        metis net_conn.select_convs(5) net_conn.surjective net_conn.update_convs(1))
  have s': "conn s' = w" "sendEnc s' = sendEnc s" and r: "r = Inr e \<Longrightarrow> \<exists>p. f = Inr p"
    using assms rf by (auto simp: Receive_def ReceiveRaw_def split: sum.splits prod.splits)
  show "tx (conn s') = tx (conn s)" "conn_closed (conn s') = conn_closed (conn s)" "sendEnc s' = sendEnc s"
    "length (rx (conn s')) \<le> length (rx (conn s))"
    using w w' s' by simp_all
  assume "r = Inr e"
  with r obtain p where p: "ReadFrame (conn s) = (Inr p, w)" using rf by blast
  show "length (rx (conn s')) < length (rx (conn s))"
    using ReadFrame_ok(2) [OF p] s'(1) by simp
  show "\<not> conn_closed (conn s)" using ReadFrame_conn(3) [OF p] by blast
qed

lemma wire_append: "wire g n (ps @ qs) = wire g n ps @ wire g (n + of_nat (length ps)) qs"
  by (induction ps arbitrary: n) (simp_all add: add.assoc)

lemma length_wire_ge: "length ps \<le> length (wire g n ps)"
  by (induction ps arbitrary: n) (simp_all add: le_SucI trans_le_add2)

lemma wire_eq_Nil [simp]: "wire g n ps = [] \<longleftrightarrow> ps = []"
  by (cases ps) (simp_all add: frame_bytes_def PutUint32_def)

lemma sealed_fits [simp]:
  "length p \<le> max_plaintext \<Longrightarrow>
    length (nonce_at n @ Seal (aes_NewGCM key) (nonce_at n) p) \<le> MaxFrameSize"
  by (simp add: max_plaintext_def MaxFrameSize_def NonceSize_def)

lemma sealed_length_fits [simp]:
  "length p \<le> max_plaintext \<Longrightarrow> NonceSize + (length p + 16) \<le> MaxFrameSize"
  by (simp add: max_plaintext_def MaxFrameSize_def NonceSize_def)

lemma sealed_too_big:
  "max_plaintext < length p \<Longrightarrow>
    MaxFrameSize < length (nonce_at n @ Seal (aes_NewGCM key) (nonce_at n) p)"
  by (simp add: max_plaintext_def MaxFrameSize_def NonceSize_def)

subsection \<open>Single operations\<close>

lemma Send_ok:
  assumes "Send c a e = (None, a')" "gcm (sendEnc a) = aes_NewGCM key"
  obtains d where "Marshal c e = Inr d" "length d \<le> max_plaintext"
    "tx (conn a') = tx (conn a) @ wire (aes_NewGCM key) (counter (sendEnc a)) [d]"
    "sendEnc a' = (sendEnc a)\<lparr>counter := counter (sendEnc a) + 1\<rparr>"
    "recvEnc a' = recvEnc a" "rx (conn a') = rx (conn a)" "conn_closed (conn a') = conn_closed (conn a)"
proof -
  from assms(1) obtain d ct enc w where steps: "Marshal c e = Inr d"
      "Encrypt (sendEnc a) d = (Inr ct, enc)" "WriteFrame (conn a) ct = (None, w)"
      "a' = a\<lparr>conn := w, sendEnc := enc\<rparr>"
    by (auto simp: Send_def split: sum.splits prod.splits option.splits)
  note wf = WriteFrame_ok [OF steps(3)]
  from steps(2) have le: "length d \<le> crypto_MaxFrameSize"
    and ct: "ct = nonce_at (counter (sendEnc a)) @ Seal (gcm (sendEnc a)) (nonce_at (counter (sendEnc a))) d"
    and enc: "enc = (sendEnc a)\<lparr>counter := counter (sendEnc a) + 1\<rparr>"
    by (cases rule: Encrypt_cases [of d "sendEnc a"]; simp)+
  have "length d \<le> max_plaintext"
    using wf(1) sealed_too_big [of d] by (fastforce simp: ct assms(2))
  with steps enc wf show thesis
    by (intro that [of d]) (simp_all add: ct assms(2))
qed

lemma Send_healthy:
  assumes "healthy (conn a)" "Marshal c e = Inr d" "length d \<le> max_plaintext"
    "gcm (sendEnc a) = aes_NewGCM key"
  shows "Send c a e = (None,
     a\<lparr>conn := (conn a)\<lparr>tx := tx (conn a) @ wire (aes_NewGCM key) (counter (sendEnc a)) [d]\<rparr>,
       sendEnc := (sendEnc a)\<lparr>counter := counter (sendEnc a) + 1\<rparr>\<rparr>)"
proof -
  from assms(3) have "length d \<le> crypto_MaxFrameSize"
    by (simp add: max_plaintext_def crypto_MaxFrameSize_def)
  with assms show ?thesis
    by (simp add: Send_def Encrypt_ok WriteFrame_healthy)
qed

lemma Receive_wire:
  assumes "\<not> conn_closed (conn b)" "gcm (recvEnc b) = aes_NewGCM key"
    "rx (conn b) = wire (aes_NewGCM key) (counter (recvEnc b)) (p # ps) @ rest"
    "length p \<le> max_plaintext" "Unmarshal c p = Inr e"
  shows "Receive c b = (Inr e,
     b\<lparr>conn := (conn b)\<lparr>rx := wire (aes_NewGCM key) (counter (recvEnc b) + 1) ps @ rest\<rparr>,
       recvEnc := (recvEnc b)\<lparr>counter := counter (recvEnc b) + 1\<rparr>\<rparr>)"
proof -
  let ?f = "nonce_at (counter (recvEnc b)) @ Seal (aes_NewGCM key) (nonce_at (counter (recvEnc b))) p"
  have "ReadFrame (conn b) =
      (Inr ?f, (conn b)\<lparr>rx := wire (aes_NewGCM key) (counter (recvEnc b) + 1) ps @ rest\<rparr>)"
    using assms(1,3,4) by (intro ReadFrame_frame) simp_all
  moreover have "Decrypt (recvEnc b) ?f = (Inr p, (recvEnc b)\<lparr>counter := counter (recvEnc b) + 1\<rparr>)"
    using assms(2) by (simp add: Decrypt_def nextNonce_eq NonceSize_def)
  ultimately show ?thesis
    using assms(5) by (simp add: Receive_def ReceiveRaw_def)
qed

lemma Receive_nothing:
  "rx (conn b) = [] \<Longrightarrow> \<exists>e b'. Receive c b = (Inl e, b')"
  by (simp add: Receive_def ReceiveRaw_def ReadFrame_def io_ReadFull_def frameLengthSize_def)

subsection \<open>Two sessions form a FIFO channel\<close>

lemma drain_wire:
  assumes "\<not> conn_closed (conn b)" "gcm (recvEnc b) = aes_NewGCM key"
    "rx (conn b) = wire (aes_NewGCM key) (counter (recvEnc b)) ps"
    "\<forall>p\<in>set ps. length p \<le> max_plaintext \<and> (\<exists>e. Unmarshal c p = Inr e)"
    "length ps \<le> n"
  shows "map Inr (drain c n b) = map (Unmarshal c) ps"
  using assms
proof (induction ps arbitrary: n b)
  case Nil
  then show ?case
    by (cases n) (auto dest: Receive_nothing [of b c] split: prod.splits sum.splits)
next
  case (Cons p ps)
  then obtain m e where n: "n = Suc m" and e: "Unmarshal c p = Inr e"
    by (cases n) auto
  define b' where "b' = b\<lparr>conn := (conn b)\<lparr>rx := wire (aes_NewGCM key) (counter (recvEnc b) + 1) ps\<rparr>,
       recvEnc := (recvEnc b)\<lparr>counter := counter (recvEnc b) + 1\<rparr>\<rparr>"
  have rc: "Receive c b = (Inr e, b')"
    unfolding b'_def using Cons.prems e Receive_wire [of b key p ps "[]" c e] by simp
  have "map Inr (drain c m b') = map (Unmarshal c) ps"
    using Cons.prems n by (intro Cons.IH) (simp_all add: b'_def)
  with rc n e show ?case by simp
qed

lemma in_flight_wire:
  assumes "\<not> conn_closed (conn b)" "gcm (recvEnc b) = aes_NewGCM key"
    "rx (conn b) = wire (aes_NewGCM key) (counter (recvEnc b)) ps"
    "\<forall>p\<in>set ps. length p \<le> max_plaintext \<and> (\<exists>e. Unmarshal c p = Inr e)"
  shows "map Inr (in_flight (c, a, b)) = map (Unmarshal c) ps"
  using drain_wire [OF assms, of "length (rx (conn b))"] length_wire_ge [of ps]
  by (simp add: in_flight_def assms(3))

lemma map_Inr_eq: "map Inr xs = map Inr ys \<longleftrightarrow> xs = ys"
  by (simp add: inj_on_def inj_map_eq_map)

lemma in_sync_fresh:
  assumes "codec_ok c" "\<not> conn_closed (conn b)" "tx (conn a) = []" "rx (conn b) = []"
    "gcm (sendEnc a) = aes_NewGCM key" "gcm (recvEnc b) = aes_NewGCM key"
    "counter (sendEnc a) = counter (recvEnc b)"
  shows "in_sync (c, a, b)" "in_flight (c, a, b) = []"
proof -
  have "rx (conn b) = wire (aes_NewGCM key) (counter (recvEnc b)) []"
    "counter (sendEnc a) = counter (recvEnc b) + of_nat (length ([] :: bytes list))"
    using assms by simp_all
  with assms show "in_sync (c, a, b)"
    unfolding in_sync_def by fastforce
  show "in_flight (c, a, b) = []" by (simp add: in_flight_def assms(4))
qed

lemma in_sync_push:
  assumes "in_sync w" "link_push w e = Some w'"
  shows "in_sync w' \<and> in_flight w' = in_flight w @ [e]"
proof -
  obtain c a b where w: "w = (c, a, b)" by (cases w)
  from assms(1) obtain key ps where sync: "codec_ok c" "\<not> conn_closed (conn b)" "tx (conn a) = []"
      "gcm (sendEnc a) = aes_NewGCM key" "gcm (recvEnc b) = aes_NewGCM key"
      "rx (conn b) = wire (aes_NewGCM key) (counter (recvEnc b)) ps"
      "counter (sendEnc a) = counter (recvEnc b) + of_nat (length ps)"
      "\<forall>p\<in>set ps. length p \<le> max_plaintext \<and> (\<exists>e. Unmarshal c p = Inr e)"
    by (auto simp: in_sync_def w)
  from assms(2) obtain a' where snd: "Send c a e = (None, a')"
    by (auto simp: link_push_def w split: prod.splits option.splits)
  from snd sync(4) obtain d where d: "Marshal c e = Inr d" "length d \<le> max_plaintext"
      "tx (conn a') = tx (conn a) @ wire (aes_NewGCM key) (counter (sendEnc a)) [d]"
      "sendEnc a' = (sendEnc a)\<lparr>counter := counter (sendEnc a) + 1\<rparr>"
    by (rule Send_ok)
  have ud: "Unmarshal c d = Inr e" using sync(1) d(1) by (rule codec_okD)
  define b' where "b' = b\<lparr>conn := (conn b)\<lparr>rx := wire (aes_NewGCM key) (counter (recvEnc b)) (ps @ [d])\<rparr>\<rparr>"
  have w': "w' = (c, a'\<lparr>conn := (conn a')\<lparr>tx := []\<rparr>\<rparr>, b')"
    using assms(2) snd sync(3,6,7) d(3)
    by (simp add: w link_push_def deliver_def b'_def wire_append)
  have "in_sync w'"
    using sync d ud unfolding w' in_sync_def
    by (auto intro!: exI [of _ key] exI [of _ "ps @ [d]"] simp: b'_def add.assoc)
  moreover have "(map Inr (in_flight w') :: Envelope result list) = map Inr (in_flight w @ [e])"
  proof -
    have "map Inr (in_flight w') = map (Unmarshal c) (ps @ [d])"
      unfolding w' using sync d ud by (intro in_flight_wire) (auto simp: b'_def)
    moreover have "map Inr (in_flight w) = map (Unmarshal c) ps"
      unfolding w using sync by (intro in_flight_wire) auto
    ultimately show ?thesis by (simp add: ud)
  qed
  ultimately show ?thesis by (simp only: map_Inr_eq)
qed

lemma in_sync_pull:
  assumes "in_sync w"
  shows "(in_flight w = [] \<longrightarrow> link_pull w = None) \<and>
    (\<forall>e q. in_flight w = e # q \<longrightarrow>
       (\<exists>w'. link_pull w = Some (e, w') \<and> in_flight w' = q \<and> in_sync w'))"
proof -
  obtain c a b where w: "w = (c, a, b)" by (cases w)
  from assms(1) obtain key ps where sync: "codec_ok c" "\<not> conn_closed (conn b)" "tx (conn a) = []"
      "gcm (sendEnc a) = aes_NewGCM key" "gcm (recvEnc b) = aes_NewGCM key"
      "rx (conn b) = wire (aes_NewGCM key) (counter (recvEnc b)) ps"
      "counter (sendEnc a) = counter (recvEnc b) + of_nat (length ps)"
      "\<forall>p\<in>set ps. length p \<le> max_plaintext \<and> (\<exists>e. Unmarshal c p = Inr e)"
    by (auto simp: in_sync_def w)
  have fl: "map Inr (in_flight w) = map (Unmarshal c) ps"
    unfolding w using sync by (intro in_flight_wire) auto
  show ?thesis
  proof (cases ps)
    case Nil
    with sync(6) have "rx (conn b) = []" by simp
    from Receive_nothing [OF this, of c] obtain er b' where "Receive c b = (Inl er, b')" by blast
    with fl Nil show ?thesis by (simp add: link_pull_def w)
  next
    case (Cons p qs)
    with sync(8) obtain e where e: "Unmarshal c p = Inr e" "length p \<le> max_plaintext" by auto
    define b' where "b' = b\<lparr>conn := (conn b)\<lparr>rx := wire (aes_NewGCM key) (counter (recvEnc b) + 1) qs\<rparr>,
       recvEnc := (recvEnc b)\<lparr>counter := counter (recvEnc b) + 1\<rparr>\<rparr>"
    have rc: "Receive c b = (Inr e, b')"
      unfolding b'_def using sync e Cons Receive_wire [of b key p qs "[]" c e] by simp
    have fl': "map Inr (in_flight (c, a, b')) = map (Unmarshal c) qs"
      using sync Cons by (intro in_flight_wire) (simp_all add: b'_def)
    have "in_sync (c, a, b')"
      using sync Cons unfolding in_sync_def
      by (auto intro!: exI [of _ key] exI [of _ qs] simp: b'_def algebra_simps)
    moreover have "in_flight w = e # in_flight (c, a, b')"
    proof -
      have "(map Inr (in_flight w) :: Envelope result list) = map Inr (e # in_flight (c, a, b'))"
        using fl fl' e Cons by simp
      then show ?thesis by (simp only: map_Inr_eq)
    qed
    moreover have "link_pull w = Some (e, (c, a, b'))"
      by (simp add: link_pull_def w rc)
    ultimately show ?thesis by auto
  qed
qed

interpretation sess: fifo_channel link_push link_pull in_flight in_sync
proof
  fix w m w' assume "in_sync w" "link_push w m = Some w'"
  then show "in_flight w' = in_flight w @ [m]" and "in_sync w'"
    using in_sync_push by blast+
next
  fix w m q assume "in_sync w" "in_flight w = m # q"
  then show "\<exists>w'. link_pull w = Some (m, w') \<and> in_flight w' = q \<and> in_sync w'"
    using in_sync_pull by blast
next
  fix w assume "in_sync w" "in_flight w = []"
  then show "link_pull w = None" using in_sync_pull by blast
qed

subsection \<open>Properties\<close>

lemma link_push_ok:
  assumes "in_sync (c, a, b)" "healthy (conn a)" "Marshal c e = Inr d" "length d \<le> max_plaintext"
  obtains a' b' where "link_push (c, a, b) e = Some (c, a', b')" "healthy (conn a')"
proof -
  from assms(1) obtain key where key: "gcm (sendEnc a) = aes_NewGCM key"
    by (auto simp: in_sync_def)
  from assms(2) have "\<exists>a' b'. link_push (c, a, b) e = Some (c, a', b') \<and> healthy (conn a')"
    by (simp add: link_push_def Send_healthy [OF assms(2-4) key] deliver_def)
  then show thesis using that by blast
qed

lemma link_push_all_ok:
  assumes "in_sync (c, a, b)" "healthy (conn a)"
    "\<forall>e\<in>set es. \<exists>d. Marshal c e = Inr d \<and> length d \<le> max_plaintext"
  shows "\<exists>w'. push_all link_push (c, a, b) es = Some w'"
  using assms
proof (induction es arbitrary: a b)
  case Nil
  then show ?case by simp
next
  case (Cons e es)
  then obtain d where d: "Marshal c e = Inr d" "length d \<le> max_plaintext" by auto
  obtain a' b' where ab: "link_push (c, a, b) e = Some (c, a', b')" "healthy (conn a')"
    using link_push_ok [OF Cons.prems(1,2) d] .
  from sess.push_sound [OF Cons.prems(1) ab(1)] ab(2) Cons.prems(3) Cons.IH [of a' b']
  show ?case by (simp add: ab(1))
qed

text \<open>C1: an encrypted session is a reliable FIFO channel. With mirrored keys and counters, every
  sequence of envelopes whose encodings have at most \<open>max_plaintext\<close> bytes can be sent, and the
  receiver then gets exactly these envelopes in this order and afterwards finds nothing
  more.\<close>

theorem session_delivers:
  assumes "in_sync (c, a, b)" "in_flight (c, a, b) = []" "healthy (conn a)"
    and "\<forall>e\<in>set es. \<exists>d. Marshal c e = Inr d \<and> length d \<le> max_plaintext"
  shows "\<exists>w' w''. push_all link_push (c, a, b) es = Some w' \<and>
           pull_n link_pull (length es) w' = Some (es, w'') \<and> link_pull w'' = None"
proof -
  obtain w' where w': "push_all link_push (c, a, b) es = Some w'"
    using link_push_all_ok [OF assms(1,3,4)] by blast
  from sess.send_receive [OF assms(1,2) w'] w' show ?thesis
    using sess.pull_empty by blast
qed

text \<open>C14: oversize envelopes break a session silently. A plaintext of more than 1048548 and at
  most 1048576 bytes passes the size check of \<^verbatim>\<open>Encrypt\<close>, which uses up a nonce, and
  is then refused by \<^verbatim>\<open>WriteFrame\<close>: nothing is written and \<^verbatim>\<open>Send\<close> reports an
  error, but the next envelope that is sent successfully is rejected by the receiver as a
  replay.\<close>

theorem Send_oversize_desynchronises:
  assumes "in_sync (c, a, b)" "rx (conn b) = []"
    and "Marshal c big = Inr d" "max_plaintext < length d" "length d \<le> crypto_MaxFrameSize"
    and "Send c a big = (r, a1)" "Send c a1 e = (None, a2)"
    and "deliver (conn a2) (conn b) = (ca, cb)"
  shows "r \<noteq> None \<and> conn a1 = conn a \<and>
    fst (Receive c (b\<lparr>conn := cb\<rparr>)) = Inl (Wrapf ''failed to decrypt frame''
      (Errorf ''nonce mismatch: possible replay or reorder attack''))"
proof -
  from assms(1) obtain key ps where k: "gcm (sendEnc a) = aes_NewGCM key" "tx (conn a) = []"
      "\<not> conn_closed (conn b)" "rx (conn b) = wire (aes_NewGCM key) (counter (recvEnc b)) ps"
      "counter (sendEnc a) = counter (recvEnc b) + of_nat (length ps)"
    by (auto simp: in_sync_def)
  have "ps = []" using k(4) [symmetric] by (simp add: assms(2))
  with k(5) have cnt: "counter (sendEnc a) = counter (recvEnc b)" by simp
  let ?n = "counter (recvEnc b)"
  have enc: "Encrypt (sendEnc a) d =
      (Inr (nonce_at ?n @ Seal (aes_NewGCM key) (nonce_at ?n) d), (sendEnc a)\<lparr>counter := ?n + 1\<rparr>)"
    using assms(5) by (simp add: Encrypt_ok k(1) cnt)
  obtain er where "WriteFrame (conn a) (nonce_at ?n @ Seal (aes_NewGCM key) (nonce_at ?n) d) = (Some er, conn a)"
    using WriteFrame_oversize sealed_too_big [OF assms(4)] by blast
  with assms(3,6) enc have first: "r \<noteq> None" "a1 = a\<lparr>sendEnc := (sendEnc a)\<lparr>counter := ?n + 1\<rparr>\<rparr>"
    by (auto simp: Send_def)
  then have k1: "gcm (sendEnc a1) = aes_NewGCM key" "counter (sendEnc a1) = ?n + 1"
      "tx (conn a1) = []"
    by (simp_all add: k)
  from assms(7) k1(1) obtain d2 where d2: "length d2 \<le> max_plaintext"
      "tx (conn a2) = tx (conn a1) @ wire (aes_NewGCM key) (counter (sendEnc a1)) [d2]"
    by (rule Send_ok)
  let ?f = "nonce_at (?n + 1) @ Seal (aes_NewGCM key) (nonce_at (?n + 1)) d2"
  have "ReadFrame cb = (Inr ?f, cb\<lparr>rx := []\<rparr>)"
    using assms(2,8) d2 k(3) k1 by (intro ReadFrame_frame) (auto simp: deliver_def)
  moreover have "fst (Decrypt (recvEnc b) ?f) = Inl (Errorf ''nonce mismatch: possible replay or reorder attack'')"
    by (rule Decrypt_mismatch) simp_all
  ultimately show ?thesis
    using first by (auto simp: Receive_def ReceiveRaw_def split: prod.splits sum.splits)
qed

subsection \<open>A concrete pair of sessions\<close>

definition sample_conn :: net_conn where
  "sample_conn = \<lparr>rx = [], rx_end = EOF, tx = [], tx_room = None, conn_closed = False\<rparr>"

definition sample_session :: session where
  "sample_session =
     \<lparr>conn = sample_conn,
      sendEnc = \<lparr>gcm = aes_NewGCM (replicate 32 0), counter = 0\<rparr>,
      recvEnc = \<lparr>gcm = aes_NewGCM (replicate 32 0), counter = 0\<rparr>\<rparr>"

lemma sendable_fits [simp]: "sendable p \<Longrightarrow> length (proto_payload p) \<le> max_plaintext"
  unfolding max_plaintext_def by (rule sendable_length)

text \<open>Data that is two bytes too long.\<close>

definition sample_big :: Payload where
  "sample_big = Envelope_Data \<lparr>Data_StreamId = 0, Data_Payload = replicate 1048550 0\<rparr>"

lemma sample_big_Marshal:
  "Marshal proto_codec (env sample_big) = Inr (proto_payload sample_big)"
  "max_plaintext < length (proto_payload sample_big)" "length (proto_payload sample_big) \<le> crypto_MaxFrameSize"
proof -
  let ?b = "replicate 1048550 0 :: bytes"
  have v: "length (put_varint n) \<le> 3" if "n \<le> 1048554" for n using that by (subst put_varint_le_iff) simp_all
  have m: "length (message_bytes sample_big) = 1 + length (put_varint (length ?b)) + length ?b"
    unfolding length_message_bytes_eq wire_fields_def sample_big_def message_fields.simps
    using length_put_Len [of 2 ?b] by (simp del: length_replicate)
  then have l: "1048550 \<le> length (message_bytes sample_big)" "length (message_bytes sample_big) \<le> 1048554"
    using v [of "length ?b"] by simp_all
  have p: "length (proto_payload sample_big) = 1 + length (put_varint (length (message_bytes sample_big))) + length (message_bytes sample_big)"
    using payload_number_range [of sample_big] by (simp add: proto_payload_def length_put_Len)
  show "max_plaintext < length (proto_payload sample_big)" "length (proto_payload sample_big) \<le> crypto_MaxFrameSize"
    using l v [OF l(2)] unfolding p by (simp_all add: max_plaintext_def crypto_MaxFrameSize_def)
  have "valid_message sample_big" by (simp add: valid_message_def sample_big_def)
  then show "Marshal proto_codec (env sample_big) = Inr (proto_payload sample_big)"
    using l by (simp add: proto_codec_sel proto_Marshal_def proto_payload_def)
qed

lemma sendable_Heartbeat [simp]: "sendable (Envelope_Heartbeat Heartbeat)"
  by (simp add: sendable_simps)

lemma sample_in_sync: "in_sync (proto_codec, sample_session, sample_session)"
  and sample_in_flight: "in_flight (proto_codec, sample_session, sample_session) = []"
  by (rule in_sync_fresh [OF proto_codec_ok, where key = "replicate 32 0"];
      simp add: sample_session_def sample_conn_def)+

lemma sample_healthy: "healthy (conn sample_session)"
  by (simp add: healthy_def sample_session_def sample_conn_def)

theorem session_delivers_witness:
  "\<exists>w' w''.
     push_all link_push (proto_codec, sample_session, sample_session)
       [env (Envelope_Heartbeat Heartbeat), env (Envelope_Heartbeat Heartbeat)] = Some w' \<and>
     pull_n link_pull 2 w' =
       Some ([env (Envelope_Heartbeat Heartbeat), env (Envelope_Heartbeat Heartbeat)], w'') \<and>
     link_pull w'' = None"
  using session_delivers [OF sample_in_sync sample_in_flight sample_healthy,
      of "[env (Envelope_Heartbeat Heartbeat), env (Envelope_Heartbeat Heartbeat)]"]
  by (simp add: sendable_Marshal numeral_2_eq_2)

theorem Send_oversize_desynchronises_witness:
  "\<exists>r a1 a2 ca cb.
     Send proto_codec sample_session (env sample_big) = (r, a1) \<and>
     Send proto_codec a1 (env (Envelope_Heartbeat Heartbeat)) = (None, a2) \<and>
     deliver (conn a2) (conn sample_session) = (ca, cb) \<and> r \<noteq> None \<and>
     fst (Receive proto_codec (sample_session\<lparr>conn := cb\<rparr>)) = Inl (Wrapf ''failed to decrypt frame''
       (Errorf ''nonce mismatch: possible replay or reorder attack''))"
proof -
  let ?big = "env sample_big"
  let ?hb = "env (Envelope_Heartbeat Heartbeat)"
  obtain r a1 where s1: "Send proto_codec sample_session ?big = (r, a1)" by (cases "Send proto_codec sample_session ?big")
  note big = sample_big_Marshal
  obtain er where wf: "WriteFrame sample_conn (nonce_at 0 @ Seal (aes_NewGCM (replicate 32 0)) (nonce_at 0) (proto_payload sample_big))
      = (Some er, sample_conn)"
    using WriteFrame_oversize sealed_too_big [OF big(2)] by blast
  have a1: "a1 = sample_session\<lparr>sendEnc := \<lparr>gcm = aes_NewGCM (replicate 32 0), counter = 1\<rparr>\<rparr>"
    using s1 wf by (simp add: Send_def big(1) Encrypt_ok [OF big(3)] sample_session_def)
  have "\<exists>a2. Send proto_codec a1 ?hb = (None, a2)"
    using Send_healthy [of a1 proto_codec ?hb _ "replicate 32 0", OF _ sendable_Marshal] sample_healthy
    by (simp add: a1)
  then obtain a2 where s2: "Send proto_codec a1 ?hb = (None, a2)" ..
  obtain ca cb where dl: "deliver (conn a2) (conn sample_session) = (ca, cb)"
    by (cases "deliver (conn a2) (conn sample_session)")
  have "rx (conn sample_session) = []" by (simp add: sample_session_def sample_conn_def)
  from Send_oversize_desynchronises [OF sample_in_sync this big s1 s2 dl] s1 s2 dl
  show ?thesis by blast
qed

subsection \<open>A session with messages to read\<close>

abbreviation sample_key :: bytes where
  "sample_key \<equiv> replicate 32 0"

text \<open>A session into which the envelopes \<open>map env ps\<close> have been sent, and its sender.\<close>

definition sample_incoming :: "Payload list \<Rightarrow> session" where
  "sample_incoming ps = sample_session\<lparr>conn := sample_conn\<lparr>rx := wire (aes_NewGCM sample_key) 0 (map proto_payload ps)\<rparr>\<rparr>"

definition sample_sender :: "nat \<Rightarrow> session" where
  "sample_sender n = sample_session\<lparr>sendEnc := \<lparr>gcm = aes_NewGCM sample_key, counter = of_nat n\<rparr>\<rparr>"

lemma sample_incoming_sync:
  assumes "\<forall>p\<in>set ps. sendable p"
  shows "in_sync (proto_codec, sample_sender (length ps), sample_incoming ps)"
    "in_flight (proto_codec, a, sample_incoming ps) = map env ps"
proof -
  have r: "rx (conn (sample_incoming ps)) = wire (aes_NewGCM sample_key) (counter (recvEnc (sample_incoming ps))) (map proto_payload ps)"
    and o: "\<not> conn_closed (conn (sample_incoming ps))" and k: "gcm (recvEnc (sample_incoming ps)) = aes_NewGCM sample_key"
    by (simp_all add: sample_incoming_def sample_session_def sample_conn_def)
  show "in_sync (proto_codec, sample_sender (length ps), sample_incoming ps)"
    unfolding in_sync_def prod.case
    using proto_codec_ok o k r assms
    by (intro conjI exI [of _ sample_key] exI [of _ "map proto_payload ps"])
       (simp_all add: sample_sender_def sample_incoming_def sample_session_def sample_conn_def)
  have "map Inr (in_flight (proto_codec, a, sample_incoming ps)) = map (Unmarshal proto_codec) (map proto_payload ps)"
    using assms by (intro in_flight_wire [OF o k r]) simp
  also have "\<dots> = (map Inr (map env ps) :: Envelope result list)"
    using assms by (simp add: sendable_Unmarshal)
  finally show "in_flight (proto_codec, a, sample_incoming ps) = map env ps" by (simp only: map_Inr_eq)
qed

lemma sample_incoming_Receive:
  assumes "\<forall>q\<in>set (p # ps). sendable q"
  shows "\<exists>b. Receive proto_codec (sample_incoming (p # ps)) = (Inr (env p), b)"
proof -
  note s = sample_incoming_sync [OF assms]
  from s(2) have "in_flight (proto_codec, sample_sender (length (p # ps)), sample_incoming (p # ps)) = env p # map env ps"
    by simp
  from sess.pull_flight [OF s(1) this] show ?thesis
    by (auto simp: link_pull_def split: prod.splits sum.splits)
qed

end
