(* ===== verification/Protocol_Handshake.thy ===== *)
theory Protocol_Handshake
  imports KeyExchange Session
begin

text \<open>
  \<^verbatim>\<open>pkg/protocol/handshake.go\<close>: the cleartext exchange of public keys that sets up a
  session. The send runs in a goroutine beside the read; the two use opposite directions of the
  connection, so their order does not matter, except that a failed read returns without waiting for
  the send: \<open>sent\<close> says whether the goroutine had written by then. After a successful read the call
  waits for the send, so the connection then shows both effects.
\<close>

definition handshake_env :: "KeyPair \<Rightarrow> Envelope" where
  "handshake_env kp = env (Envelope_Handshake \<lparr>Handshake_PublicKey = PublicKeyBytes kp\<rparr>)"

definition PerformHandshake ::
  "codec \<Rightarrow> curve \<Rightarrow> bytes result \<Rightarrow> bool \<Rightarrow> net_conn \<Rightarrow> session result \<times> net_conn" where
  "PerformHandshake c cv rand sent cn =
     (case GenerateKeyPair cv rand of
        Inl err \<Rightarrow> (Inl (Wrapf ''handshake: failed to generate key pair'' err), cn)
      | Inr keyPair \<Rightarrow>
     (case Marshal c (handshake_env keyPair) of
        Inl err \<Rightarrow> (Inl (Wrapf ''handshake: failed to marshal handshake'' err), cn)
      | Inr localData \<Rightarrow>
     (case WriteFrame cn localData of (sendErr, cw) \<Rightarrow>
     (case ReadFrame (if sent then cw else cn) of
        (Inl err, cr) \<Rightarrow> (Inl (Wrapf ''handshake: failed to read remote handshake'' err), cr)
      | (Inr remoteFrame, _) \<Rightarrow>
     (case ReadFrame cw of (_, cn') \<Rightarrow>
     (case sendErr of
        Some err \<Rightarrow> (Inl (Wrapf ''handshake: failed to send handshake'' err), cn')
      | None \<Rightarrow>
     (case Unmarshal c remoteFrame of
        Inl err \<Rightarrow> (Inl (Wrapf ''handshake: failed to unmarshal remote handshake'' err), cn')
      | Inr remoteEnvelope \<Rightarrow>
     (case GetHandshake remoteEnvelope of
        None \<Rightarrow> (Inl (Errorf (''handshake: expected Handshake message, got '' @
                      payload_type remoteEnvelope)), cn')
      | Some remoteHandshake \<Rightarrow>
     let remotePubKey = Handshake_GetPublicKey (Some remoteHandshake)
     in if length remotePubKey = 0
        then (Inl (Errorf ''handshake: remote public key is empty''), cn')
        else
     (case DeriveDirectionalKeys cv keyPair remotePubKey of
        Inl err \<Rightarrow> (Inl (Wrapf ''handshake: failed to derive directional keys'' err), cn')
      | Inr keys \<Rightarrow>
     (case NewSession cn' (SendKey keys) (RecvKey keys) of
        Inl err \<Rightarrow> (Inl (Wrapf ''handshake: failed to create session'' err), cn')
      | Inr s \<Rightarrow> (Inr s, cn')))))))))))"

text \<open>A session the handshake returned: the connection after both frames, fresh counters.\<close>

lemma NewSession_ok:
  assumes "length sk = 32" "length rk = 32"
  shows "NewSession cn sk rk = Inr \<lparr>conn = cn, sendEnc = \<lparr>gcm = aes_NewGCM sk, counter = 0\<rparr>,
           recvEnc = \<lparr>gcm = aes_NewGCM rk, counter = 0\<rparr>\<rparr>"
  using assms by (simp add: NewSession_def NewAEAD_def AESKeySize_def)

lemma PerformHandshake_ok:
  assumes "healthy cn" "Marshal c (handshake_env \<lparr>PrivateKey = priv, PublicKey = pub\<rparr>) = Inr d"
    "pub = public_of cv priv" "length d \<le> MaxFrameSize"
    "rx cn = frame_bytes rd @ rest" "length rd \<le> MaxFrameSize"
    "Unmarshal c rd = Inr (env (Envelope_Handshake \<lparr>Handshake_PublicKey = rpub\<rparr>))"
    "DeriveDirectionalKeys cv \<lparr>PrivateKey = priv, PublicKey = pub\<rparr> rpub = Inr ks"
  shows "PerformHandshake c cv (Inr priv) sent cn =
    (Inr \<lparr>conn = cn\<lparr>rx := rest, tx := tx cn @ frame_bytes d\<rparr>,
          sendEnc = \<lparr>gcm = aes_NewGCM (SendKey ks), counter = 0\<rparr>,
          recvEnc = \<lparr>gcm = aes_NewGCM (RecvKey ks), counter = 0\<rparr>\<rparr>,
     cn\<lparr>rx := rest, tx := tx cn @ frame_bytes d\<rparr>)"
proof -
  note ks = DeriveDirectionalKeys_ok [OF assms(8)]
  have rd: "ReadFrame cw = (Inr rd, cw\<lparr>rx := rest\<rparr>)" if "cw = cn \<or> cw = cn\<lparr>tx := t\<rparr>" for cw t
    using that assms(1,5,6) by (intro ReadFrame_frame) auto
  have wf: "WriteFrame cn d = (None, cn\<lparr>tx := tx cn @ frame_bytes d\<rparr>)"
    using assms(1,4) by (rule WriteFrame_healthy)
  have "rpub \<noteq> []" using ks(1) by auto
  with assms ks wf rd [of _ "tx cn @ frame_bytes d"] show ?thesis
    by (simp add: PerformHandshake_def GenerateKeyPair_def GetHandshake_def Handshake_GetPublicKey_def
        NewSession_ok split: if_splits)
qed

text \<open>C9: the handshake sets up a working channel in both directions. Two ends with healthy
  connections, each seeing the other's handshake frame first, X25519 giving both the same
  secret, and different public keys: both calls return a session, and (once the frames each
  has written are delivered) the pair is in sync in both directions with nothing in flight, so the
  FIFO guarantees of the session layer hold from the first message on.\<close>

theorem handshake_establishes_channel:
  assumes "codec_ok c" "healthy cna" "healthy cnb" "tx cna = []" "tx cnb = []"
    and "length (public_of cv privA) = 32" "length (public_of cv privB) = 32"
    and "public_of cv privA \<noteq> public_of cv privB"
    and "ECDH cv privA (public_of cv privB) = Inr secret" "ECDH cv privB (public_of cv privA) = Inr secret"
    and "Marshal c (handshake_env \<lparr>PrivateKey = privA, PublicKey = public_of cv privA\<rparr>) = Inr da"
    and "Marshal c (handshake_env \<lparr>PrivateKey = privB, PublicKey = public_of cv privB\<rparr>) = Inr db"
    and "length da \<le> MaxFrameSize" "length db \<le> MaxFrameSize"
    and "rx cna = frame_bytes db" "rx cnb = frame_bytes da"
  shows "\<exists>sa sb. PerformHandshake c cv (Inr privA) sentA cna = (Inr sa, conn sa) \<and>
    PerformHandshake c cv (Inr privB) sentB cnb = (Inr sb, conn sb) \<and>
    tx (conn sa) = frame_bytes da \<and> tx (conn sb) = frame_bytes db \<and>
    (let a = sa\<lparr>conn := (conn sa)\<lparr>tx := []\<rparr>\<rparr>; b = sb\<lparr>conn := (conn sb)\<lparr>tx := []\<rparr>\<rparr>
     in in_sync (c, a, b) \<and> in_flight (c, a, b) = [] \<and> in_sync (c, b, a) \<and> in_flight (c, b, a) = [])"
proof -
  let ?A = "\<lparr>PrivateKey = privA, PublicKey = public_of cv privA\<rparr>"
  let ?B = "\<lparr>PrivateKey = privB, PublicKey = public_of cv privB\<rparr>"
  obtain ka kb where keys: "DeriveDirectionalKeys cv ?A (public_of cv privB) = Inr ka"
      "DeriveDirectionalKeys cv ?B (public_of cv privA) = Inr kb"
      "SendKey ka = RecvKey kb" "RecvKey ka = SendKey kb"
    using DeriveDirectionalKeys_mirror [of ?A ?B cv secret] assms(6-10) by auto
  have ua: "Unmarshal c db = Inr (env (Envelope_Handshake \<lparr>Handshake_PublicKey = public_of cv privB\<rparr>))"
    and ub: "Unmarshal c da = Inr (env (Envelope_Handshake \<lparr>Handshake_PublicKey = public_of cv privA\<rparr>))"
    using codec_okD [OF assms(1)] assms(11,12) by (simp_all add: handshake_env_def PublicKeyBytes_def)
  note ha = PerformHandshake_ok [where rest = "[]" and sent = sentA, OF assms(2,11) refl assms(13) _ assms(14) ua keys(1)]
  note hb = PerformHandshake_ok [where rest = "[]" and sent = sentB, OF assms(3,12) refl assms(14) _ assms(13) ub keys(2)]
  show ?thesis
    using ha hb assms(2-5,15,16)
    by (auto simp: Let_def keys(3,4) intro!: in_sync_fresh [OF assms(1)])
qed

text \<open>The handshake message of the sample curve, which has the private key as the public key.\<close>

definition sample_hello :: "byte \<Rightarrow> bytes" where
  "sample_hello k = proto_payload (Envelope_Handshake \<lparr>Handshake_PublicKey = replicate 32 k\<rparr>)"

lemma sample_hello:
  "Marshal proto_codec (env (Envelope_Handshake \<lparr>Handshake_PublicKey = replicate 32 k\<rparr>)) = Inr (sample_hello k)"
  "Unmarshal proto_codec (sample_hello k) = Inr (env (Envelope_Handshake \<lparr>Handshake_PublicKey = replicate 32 k\<rparr>))"
  "length (sample_hello k) \<le> MaxFrameSize"
proof -
  have s: "sendable (Envelope_Handshake \<lparr>Handshake_PublicKey = replicate 32 k\<rparr>)" by (simp add: sendable_simps)
  then show "Marshal proto_codec (env (Envelope_Handshake \<lparr>Handshake_PublicKey = replicate 32 k\<rparr>)) = Inr (sample_hello k)"
    "Unmarshal proto_codec (sample_hello k) = Inr (env (Envelope_Handshake \<lparr>Handshake_PublicKey = replicate 32 k\<rparr>))"
    by (simp_all add: sample_hello_def)
  show "length (sample_hello k) \<le> MaxFrameSize" using sendable_length [OF s] by (simp add: sample_hello_def MaxFrameSize_def)
qed

theorem handshake_establishes_channel_witness:
  "\<exists>sa sb. fst (PerformHandshake proto_codec sample_curve (Inr (replicate 32 1)) True
        (sample_conn\<lparr>rx := frame_bytes (sample_hello 2)\<rparr>)) = Inr sa \<and>
     fst (PerformHandshake proto_codec sample_curve (Inr (replicate 32 2)) True
        (sample_conn\<lparr>rx := frame_bytes (sample_hello 1)\<rparr>)) = Inr sb \<and>
     in_sync (proto_codec, sa\<lparr>conn := (conn sa)\<lparr>tx := []\<rparr>\<rparr>, sb\<lparr>conn := (conn sb)\<lparr>tx := []\<rparr>\<rparr>)"
  using handshake_establishes_channel [OF proto_codec_ok,
      of "sample_conn\<lparr>rx := frame_bytes (sample_hello 2)\<rparr>"
         "sample_conn\<lparr>rx := frame_bytes (sample_hello 1)\<rparr>"
         sample_curve "replicate 32 1" "replicate 32 2" "replicate 32 3"
         "sample_hello 1" "sample_hello 2" True True]
  by (auto simp: healthy_def sample_conn_def sample_curve_def zip_replicate handshake_env_def
      PublicKeyBytes_def sample_hello Let_def)

end
