(* ===== verification/ClientConn.thy ===== *)
theory ClientConn
  imports Router Protocol_Handshake Go_Strings "HOL-Library.List_Lexorder" "HOL-Library.Char_ord"
begin

text \<open>
  \<^verbatim>\<open>pkg/broker/client_conn.go\<close>: the broker's clients. A \<^verbatim>\<open>*ClientConn\<close> is an index
  into the heap of all clients the broker has created; the heap, the router they share and the
  clock form the \<open>hub\<close>. The connection of a client is the one inside its session (the source keeps
  two references to the same object).

  \<open>cc_done\<close> stands for the closed \<^verbatim>\<open>closeCh\<close> together with the used-up \<^verbatim>\<open>closeOnce\<close>: the
  first statement of the once-body closes the channel, and nothing else does.
\<close>

record client_conn =
  cc_session :: session
  remote :: string
  connectionID :: string
  lastSeen :: int
  cc_done :: bool

record hub =
  router :: router
  heap :: "client_conn list"
  now :: int

text \<open>What the broker calls and does not define: the codec, the curve, the order in which Go
  visits the listeners of a router, and the Unicode tables behind \<^verbatim>\<open>%q\<close>.\<close>

record broker_env =
  env_codec :: codec
  env_curve :: curve
  env_order :: "router \<Rightarrow> string list"
  env_tables :: unicode_tables

definition order_ok :: "broker_env \<Rightarrow> bool" where
  "order_ok E \<longleftrightarrow> (\<forall>r. finite (dom (listeners r)) \<longrightarrow> map_order (env_order E r) r)"

text \<open>Durations are in nanoseconds.\<close>

definition HeartbeatInterval :: int where "HeartbeatInterval = 15 * 10 ^ 9"
definition HeartbeatTimeout :: int where "HeartbeatTimeout = 45 * 10 ^ 9"

subsection \<open>Operations on one client\<close>

definition cc_upd :: "cid \<Rightarrow> (client_conn \<Rightarrow> client_conn) \<Rightarrow> hub \<Rightarrow> hub" where
  "cc_upd c f h = h\<lparr>heap := (heap h)[c := f (heap h ! c)]\<rparr>"

definition sess_of :: "hub \<Rightarrow> cid \<Rightarrow> session" where
  "sess_of h c = cc_session (heap h ! c)"

definition NewClientConn ::
  "broker_env \<Rightarrow> bytes result \<Rightarrow> bool \<Rightarrow> hub \<Rightarrow> net_conn \<Rightarrow> string \<Rightarrow> cid result \<times> net_conn \<times> hub" where
  "NewClientConn E rand sent h cn addr =
     (case PerformHandshake (env_codec E) (env_curve E) rand sent cn of
        (Inl err, cn') \<Rightarrow> (Inl err, cn', h)
      | (Inr s, cn') \<Rightarrow>
          (Inr (length (heap h)), cn',
           h\<lparr>heap := heap h @ [\<lparr>cc_session = s, remote = addr, connectionID = [], lastSeen = now h, cc_done = False\<rparr>]\<rparr>))"

definition RemoteAddr :: "hub \<Rightarrow> cid \<Rightarrow> string" where
  "RemoteAddr h c = remote (heap h ! c)"

definition cc_Send :: "broker_env \<Rightarrow> hub \<Rightarrow> cid \<Rightarrow> Envelope \<Rightarrow> error option \<times> hub" where
  "cc_Send E h c e =
     (case Send (env_codec E) (sess_of h c) e of
        (r, s) \<Rightarrow> (r, cc_upd c (\<lambda>x. x\<lparr>cc_session := s\<rparr>) h))"

definition cc_ReceiveRaw :: "broker_env \<Rightarrow> hub \<Rightarrow> cid \<Rightarrow> bytes \<times> Envelope result \<times> hub" where
  "cc_ReceiveRaw E h c =
     (case ReceiveRaw (env_codec E) (sess_of h c) of
        (raw, r, s) \<Rightarrow> (raw, r, cc_upd c (\<lambda>x. x\<lparr>cc_session := s\<rparr>) h))"

definition cc_Receive :: "broker_env \<Rightarrow> hub \<Rightarrow> cid \<Rightarrow> Envelope result \<times> hub" where
  "cc_Receive E h c =
     (case Receive (env_codec E) (sess_of h c) of
        (r, s) \<Rightarrow> (r, cc_upd c (\<lambda>x. x\<lparr>cc_session := s\<rparr>) h))"

definition SetConnectionID :: "cid \<Rightarrow> string \<Rightarrow> hub \<Rightarrow> hub" where
  "SetConnectionID c i h = cc_upd c (\<lambda>x. x\<lparr>connectionID := i\<rparr>) h"

definition ConnectionID :: "hub \<Rightarrow> cid \<Rightarrow> string" where
  "ConnectionID h c = connectionID (heap h ! c)"

definition UpdateLastSeen :: "cid \<Rightarrow> hub \<Rightarrow> hub" where
  "UpdateLastSeen c h = cc_upd c (\<lambda>x. x\<lparr>lastSeen := now h\<rparr>) h"

definition LastSeen :: "hub \<Rightarrow> cid \<Rightarrow> int" where
  "LastSeen h c = lastSeen (heap h ! c)"

definition Done :: "hub \<Rightarrow> cid \<Rightarrow> bool" where
  "Done h c \<longleftrightarrow> \<not> (c < length (heap h) \<and> \<not> cc_done (heap h ! c))"

text \<open>\<^verbatim>\<open>client.conn.Close()\<close>, without the rest of \<^verbatim>\<open>Close\<close>.\<close>

definition cc_conn_Close :: "cid \<Rightarrow> hub \<Rightarrow> hub" where
  "cc_conn_Close c h =
     cc_upd c (\<lambda>x. x\<lparr>cc_session := (cc_session x)\<lparr>conn := conn_Close (conn (cc_session x))\<rparr>\<rparr>) h"

subsection \<open>Close\<close>

text \<open>
  The pieces of \<^verbatim>\<open>Close\<close> between which another goroutine can run: the once-body up to
  \<^verbatim>\<open>GetPeer\<close>, the removal from the router, and the \<^verbatim>\<open>Disconnect\<close> message to the peer.
\<close>

definition close_begin :: "cid \<Rightarrow> hub \<Rightarrow> cid option \<times> hub" where
  "close_begin c h =
     (let h1 = cc_upd c (\<lambda>x. x\<lparr>cc_done := True\<rparr>) h; h2 = cc_conn_Close c h1
      in (GetPeer (router h2) c, h2))"

definition close_remove :: "broker_env \<Rightarrow> cid \<Rightarrow> hub \<Rightarrow> hub" where
  "close_remove E c h = h\<lparr>router := Remove (env_order E (router h)) (router h) c\<rparr>"

definition disconnect_env :: Envelope where
  "disconnect_env = env (Envelope_Disconnect \<lparr>Disconnect_Reason = ''peer disconnected''\<rparr>)"

definition close_notify :: "broker_env \<Rightarrow> cid \<Rightarrow> hub \<Rightarrow> hub" where
  "close_notify E p h = snd (cc_Send E h p disconnect_env)"

definition live :: "hub \<Rightarrow> cid set" where
  "live h = {c. c < length (heap h) \<and> \<not> cc_done (heap h ! c)}"

lemma Done_live: "Done h c \<longleftrightarrow> c \<notin> live h"
  by (simp add: Done_def live_def)

lemma finite_live [simp]: "finite (live h)"
  by (simp add: live_def)

lemma heap_cc_upd [simp]:
  "length (heap (cc_upd c f h)) = length (heap h)"
  "router (cc_upd c f h) = router h" "now (cc_upd c f h) = now h"
  by (simp_all add: cc_upd_def)

lemma cc_upd_nth:
  "d < length (heap h) \<Longrightarrow> heap (cc_upd c f h) ! d = (if d = c then f (heap h ! d) else heap h ! d)"
  by (simp add: cc_upd_def nth_list_update)

lemma live_cc_upd:
  assumes "\<And>x. cc_done (f x) = cc_done x"
  shows "live (cc_upd c f h) = live h"
proof -
  have "cc_done (heap (cc_upd c f h) ! d) = cc_done (heap h ! d)" if "d < length (heap h)" for d
    using that assms by (simp add: cc_upd_nth)
  then show ?thesis unfolding live_def by auto
qed

lemma live_mark: "live (cc_upd c (\<lambda>x. x\<lparr>cc_done := True\<rparr>) h) = live h - {c}"
  by (auto simp: live_def cc_upd_nth split: if_splits)

lemma live_conn_Close [simp]: "live (cc_conn_Close c h) = live h"
  by (simp add: cc_conn_Close_def live_cc_upd)

lemma router_conn_Close [simp]: "router (cc_conn_Close c h) = router h"
  "length (heap (cc_conn_Close c h)) = length (heap h)"
  by (simp_all add: cc_conn_Close_def)

lemma close_begin_facts:
  assumes "close_begin c h = (p, h')"
  shows "live h' = live h - {c}" "router h' = router h" "p = peers (router h) c"
    "length (heap h') = length (heap h)" "now h' = now h"
  using assms by (auto simp: close_begin_def Let_def live_mark GetPeer_def cc_conn_Close_def live_cc_upd)

lemma close_remove_facts [simp]:
  "live (close_remove E c h) = live h" "heap (close_remove E c h) = heap h" "now (close_remove E c h) = now h"
  by (simp_all add: close_remove_def live_def)

lemma cc_Send_facts:
  assumes "cc_Send E h c e = (r, h')"
  shows "live h' = live h" "router h' = router h" "length (heap h') = length (heap h)" "now h' = now h"
  using assms by (auto simp: cc_Send_def live_cc_upd split: prod.splits)

lemma cc_Receive_facts:
  assumes "cc_Receive E h c = (r, h')"
  shows "live h' = live h" "router h' = router h" "length (heap h') = length (heap h)" "now h' = now h"
  using assms by (auto simp: cc_Receive_def live_cc_upd split: prod.splits)

lemma cc_ReceiveRaw_facts:
  assumes "cc_ReceiveRaw E h c = (raw, r, h')"
  shows "live h' = live h" "router h' = router h" "length (heap h') = length (heap h)" "now h' = now h"
  using assms by (auto simp: cc_ReceiveRaw_def live_cc_upd split: prod.splits)

lemma close_notify_facts [simp]:
  "live (close_notify E p h) = live h" "router (close_notify E p h) = router h"
  "length (heap (close_notify E p h)) = length (heap h)" "now (close_notify E p h) = now h"
proof -
  obtain r h' where s: "cc_Send E h p disconnect_env = (r, h')"
    by (cases "cc_Send E h p disconnect_env")
  then have "close_notify E p h = h'" by (simp add: close_notify_def)
  with cc_Send_facts [OF s] show "live (close_notify E p h) = live h"
    "router (close_notify E p h) = router h" "length (heap (close_notify E p h)) = length (heap h)"
    "now (close_notify E p h) = now h" by simp_all
qed

text \<open>\<^verbatim>\<open>Close\<close> run without interruption. Each round marks one more client as closed, so the
  chain of closes ends.\<close>

function cc_Close :: "broker_env \<Rightarrow> cid \<Rightarrow> hub \<Rightarrow> hub" where
  "cc_Close E c h =
     (if Done h c then h
      else case close_begin c h of (peer, h1) \<Rightarrow>
        let h2 = close_remove E c h1
        in case peer of
             None \<Rightarrow> h2
           | Some p \<Rightarrow> cc_Close E p (close_notify E p h2))"
  by pat_completeness auto
termination
proof (relation "measure (\<lambda>(E, c, h). card (live h))")
  fix E c h peer h1 h2 p
  assume "\<not> Done h c" "(peer, h1) = close_begin c h" "h2 = close_remove E c h1" "peer = Some p"
  then have "live (close_notify E p h2) = live h - {c}" "c \<in> live h"
    using close_begin_facts(1) [of c h peer h1] by (simp_all add: Done_live)
  then show "((E, p, close_notify E p h2), E, c, h) \<in> measure (\<lambda>(E, c, h). card (live h))"
    using card_Diff1_less [of "live h" c] by simp
qed simp

declare cc_Close.simps [simp del]

subsection \<open>Heartbeat\<close>

datatype tick = Stopped | Stale | Beat

text \<open>One round of the goroutine of \<^verbatim>\<open>StartHeartbeat\<close>. When the ticker has fired and
  \<^verbatim>\<open>Done\<close> is closed too, the \<^verbatim>\<open>select\<close> may take either (\<open>pick_tick\<close>). \<open>Stale\<close> goes
  on to \<^verbatim>\<open>Close\<close>; \<open>Stopped\<close> and \<open>Stale\<close> end the goroutine.\<close>

definition heartbeat_env :: Envelope where
  "heartbeat_env = env (Envelope_Heartbeat Heartbeat)"

definition heartbeat_round :: "broker_env \<Rightarrow> bool \<Rightarrow> cid \<Rightarrow> hub \<Rightarrow> tick \<times> hub" where
  "heartbeat_round E pick_tick c h =
     (if Done h c \<and> \<not> pick_tick then (Stopped, h)
      else if now h - LastSeen h c > HeartbeatTimeout then (Stale, h)
      else (Beat, snd (cc_Send E h c heartbeat_env)))"

definition StartHeartbeat_tick :: "broker_env \<Rightarrow> bool \<Rightarrow> cid \<Rightarrow> hub \<Rightarrow> tick \<times> hub" where
  "StartHeartbeat_tick E pick_tick c h =
     (case heartbeat_round E pick_tick c h of
        (Stale, h1) \<Rightarrow> (Stale, cc_Close E c h1)
      | (t, h1) \<Rightarrow> (t, h1))"

subsection \<open>What a complete close leaves behind\<close>

lemma cc_Close_done [simp]: "Done h c \<Longrightarrow> cc_Close E c h = h"
  by (simp add: cc_Close.simps)

lemma order_okD: "order_ok E \<Longrightarrow> router_inv r \<Longrightarrow> map_order (env_order E r) r"
  by (simp add: order_ok_def router_inv_finite)

lemma close_remove_router:
  assumes "order_ok E" "router_inv (router h)"
  shows "router_inv (router (close_remove E c h))"
    "peers (router (close_remove E c h)) = (\<lambda>x. if x = c \<or> peers (router h) c = Some x then None else peers (router h) x)"
    "listeners (router (close_remove E c h)) = (\<lambda>i. if listeners (router h) i = Some c then None else listeners (router h) i)"
    "registry_of (router (close_remove E c h)) = spec_remove (registry_of (router h)) c"
  using assms order_okD [OF assms]
  by (simp_all add: close_remove_def router_inv_Remove Remove_peers Remove_listeners refine_remove)

text \<open>A client without a peer: one round.\<close>

lemma cc_Close_alone:
  assumes "c \<in> live h" "peers (router h) c = None"
  shows "cc_Close E c h = close_remove E c (snd (close_begin c h))"
  using assms close_begin_facts(3) [of c h]
  by (cases "close_begin c h") (simp add: cc_Close.simps Done_live)

text \<open>A linked client: the peer is told and closed, and its own close finds no further peer.\<close>

lemma cc_Close_linked:
  assumes "order_ok E" "router_inv (router h)" "c \<in> live h" "peers (router h) c = Some p"
  shows "cc_Close E c h =
    (let h2 = close_notify E p (close_remove E c (snd (close_begin c h)))
     in if p \<in> live h \<and> p \<noteq> c then close_remove E p (snd (close_begin p h2)) else h2)"
proof -
  obtain q h1 where b: "close_begin c h = (q, h1)" by (cases "close_begin c h")
  note f = close_begin_facts [OF b]
  define h2 where "h2 = close_notify E p (close_remove E c h1)"
  have c: "cc_Close E c h = cc_Close E p h2"
    using assms(3,4) by (simp add: cc_Close.simps [of E c h] Done_live b f(3) h2_def)
  have l: "live h2 = live h - {c}" by (simp add: h2_def f(1))
  have "router h2 = router (close_remove E c h1)" by (simp add: h2_def)
  then have n: "peers (router h2) p = None"
    using close_remove_router(2) [OF assms(1), of h1] assms(2,4) by (simp add: f(2))
  show ?thesis
  proof (cases "p \<in> live h \<and> p \<noteq> c")
    case True
    then show ?thesis using c l n cc_Close_alone [of p h2 E] by (simp add: b h2_def [symmetric])
  next
    case False
    then have "Done h2 p" using l by (simp add: Done_live)
    then show ?thesis using c False by (auto simp: b h2_def [symmetric])
  qed
qed

text \<open>What each piece does to the heap.\<close>

lemma close_begin_heap:
  assumes "d < length (heap h)"
  shows "heap (snd (close_begin c h)) ! d =
    (if d = c then (heap h ! c)\<lparr>cc_done := True, cc_session := (sess_of h c)\<lparr>conn := conn_Close (conn (sess_of h c))\<rparr>\<rparr>
     else heap h ! d)"
  using assms by (simp add: close_begin_def Let_def cc_conn_Close_def cc_upd_nth sess_of_def)

lemma close_notify_heap:
  assumes "d < length (heap h)"
  shows "heap (close_notify E p h) ! d =
    (if d = p then (heap h ! p)\<lparr>cc_session := snd (Send (env_codec E) (sess_of h p) disconnect_env)\<rparr>
     else heap h ! d)"
  using assms by (simp add: close_notify_def cc_Send_def cc_upd_nth split: prod.split)

lemma length_close_begin [simp]: "length (heap (snd (close_begin c h))) = length (heap h)"
  by (simp add: close_begin_def Let_def)

lemma router_close_begin [simp]: "router (snd (close_begin c h)) = router h"
  by (simp add: close_begin_def Let_def)

lemma live_close_begin [simp]: "live (snd (close_begin c h)) = live h - {c}"
  using close_begin_facts(1) [of c h] by (cases "close_begin c h") simp

lemma live_less: "c \<in> live h \<Longrightarrow> c < length (heap h)"
  by (simp add: live_def)

lemma cc_Close_pair:
  assumes "order_ok E" "router_inv (router h)" "c \<in> live h" "p \<in> live h" "p \<noteq> c"
    and "GetPeer (router h) c = Some p"
  shows "live (cc_Close E c h) = live h - {c, p} \<and>
    registry_of (router (cc_Close E c h)) = spec_remove (spec_remove (registry_of (router h)) c) p \<and>
    router_inv (router (cc_Close E c h)) \<and>
    conn_closed (conn (sess_of (cc_Close E c h) c)) \<and>
    sess_of (cc_Close E c h) p = (let s = snd (Send (env_codec E) (sess_of h p) disconnect_env) in s\<lparr>conn := conn_Close (conn s)\<rparr>) \<and>
    (\<forall>d. d < length (heap h) \<longrightarrow> d \<noteq> c \<longrightarrow> d \<noteq> p \<longrightarrow> heap (cc_Close E c h) ! d = heap h ! d)"
proof -
  let ?h1 = "close_remove E c (snd (close_begin c h))"
  let ?h2 = "close_notify E p ?h1"
  let ?h' = "close_remove E p (snd (close_begin p ?h2))"
  have h': "cc_Close E c h = ?h'"
    using cc_Close_linked [OF assms(1-3)] assms(4-6) by (simp add: GetPeer_def Let_def)
  have inv1: "router_inv (router ?h1)"
    using close_remove_router(1) [OF assms(1), of "snd (close_begin c h)"] assms(2) by simp
  have lt: "c < length (heap h)" "p < length (heap h)" using assms(3,4) by (simp_all add: live_less)
  have heap': "heap ?h' ! d =
      (if d = p then (heap h ! p)\<lparr>cc_done := True, cc_session :=
          (snd (Send (env_codec E) (sess_of h p) disconnect_env))\<lparr>conn :=
             conn_Close (conn (snd (Send (env_codec E) (sess_of h p) disconnect_env)))\<rparr>\<rparr>
       else if d = c then (heap h ! c)\<lparr>cc_done := True, cc_session := (sess_of h c)\<lparr>conn := conn_Close (conn (sess_of h c))\<rparr>\<rparr>
       else heap h ! d)" if "d < length (heap h)" for d
    using that lt assms(5)
    by (simp add: close_begin_heap close_notify_heap sess_of_def)
  have "live ?h' = live h - {c, p}" by auto
  moreover have "registry_of (router ?h') = spec_remove (spec_remove (registry_of (router h)) c) p"
    using close_remove_router(4) [OF assms(1), of "snd (close_begin p ?h2)" p] inv1
      close_remove_router(4) [OF assms(1), of "snd (close_begin c h)" c] assms(2) by simp
  moreover have "router_inv (router ?h')"
    using close_remove_router(1) [OF assms(1), of "snd (close_begin p ?h2)" p] inv1 by simp
  ultimately show ?thesis
    using heap' lt assms(5) unfolding h' by (simp add: sess_of_def conn_Close_def Let_def)
qed

text \<open>C20: closing one side of a link takes down the link, and nothing else. After \<^verbatim>\<open>Close\<close> of
  a linked client both sides are closed, the router refers to neither of them any more, the
  peer has been sent the Disconnect message before its connection was closed, and every other
  client is exactly as it was.\<close>

theorem Close_closes_pair:
  assumes "order_ok E" "router_inv (router h)" "c \<in> live h" "p \<in> live h" "p \<noteq> c"
    and "GetPeer (router h) c = Some p"
  shows "live (cc_Close E c h) = live h - {c, p} \<and>
    registry_of (router (cc_Close E c h)) = spec_remove (spec_remove (registry_of (router h)) c) p \<and>
    router_inv (router (cc_Close E c h)) \<and>
    conn_closed (conn (sess_of (cc_Close E c h) c)) \<and> conn_closed (conn (sess_of (cc_Close E c h) p)) \<and>
    tx (conn (sess_of (cc_Close E c h) p)) = tx (conn (snd (Send (env_codec E) (sess_of h p) disconnect_env))) \<and>
    (\<forall>d. d < length (heap h) \<longrightarrow> d \<noteq> c \<longrightarrow> d \<noteq> p \<longrightarrow> heap (cc_Close E c h) ! d = heap h ! d)"
  using cc_Close_pair [OF assms] by (simp add: Let_def conn_Close_def)

definition sample_env :: broker_env where
  "sample_env = \<lparr>env_codec = proto_codec, env_curve = sample_curve,
     env_order = (\<lambda>r. sorted_list_of_set (dom (listeners r))),
     env_tables = \<lparr>IsPrint_rune = (\<lambda>r. False), ToUpper_nonASCII = (\<lambda>s. s)\<rparr>\<rparr>"

lemma sample_env_ok: "order_ok sample_env"
  by (simp add: order_ok_def sample_env_def map_order_def)

definition sample_client :: client_conn where
  "sample_client = \<lparr>cc_session = sample_session, remote = ''10.0.0.1:5000'', connectionID = ''web'',
     lastSeen = 0, cc_done = False\<rparr>"

definition sample_hub :: hub where
  "sample_hub = \<lparr>router = sample_router, heap = replicate 5 sample_client, now = 0\<rparr>"

theorem Close_closes_pair_witness:
  "3 \<in> live (cc_Close sample_env 2 sample_hub) \<and> 1 \<notin> live (cc_Close sample_env 2 sample_hub) \<and>
   conn_closed (conn (sess_of (cc_Close sample_env 2 sample_hub) 1))"
proof -
  have "live sample_hub = {c. c < 5}"
    unfolding live_def sample_hub_def by (rule Collect_cong) (auto simp: sample_client_def)
  then have l: "c \<in> live sample_hub \<longleftrightarrow> c < 5" for c by simp
  have r: "router_inv (router sample_hub)" by (simp add: sample_hub_def sample_router_inv)
  have p: "GetPeer (router sample_hub) 2 = Some 1"
    by (simp add: GetPeer_def sample_hub_def sample_router_def)
  have "2 \<in> live sample_hub" "1 \<in> live sample_hub" "(1 :: cid) \<noteq> 2" by (simp_all add: l)
  note t = Close_closes_pair [OF sample_env_ok r this p]
  have "3 \<in> live (cc_Close sample_env 2 sample_hub)" "1 \<notin> live (cc_Close sample_env 2 sample_hub)"
    using t by (simp_all add: l)
  with t show ?thesis by blast
qed

end
