(* ===== verification/Go_OS.thy ===== *)
theory Go_OS
  imports Go_Strings
begin

text \<open>
  Files as the sources use them through \<^verbatim>\<open>os\<close> and \<^verbatim>\<open>io\<close>. The file system is the map
  \<open>files\<close> from path to content; which paths cannot be opened, renamed, removed, closed or created
  as a directory, and with which error, is part of the state; a disk with \<open>room = Some n\<close> takes
  \<open>n\<close> more bytes and then fails, keeping the part that fitted.
\<close>

record file_system =
  files :: "string \<rightharpoonup> string"
  open_error :: "string \<rightharpoonup> error"
  mkdir_error :: "string \<rightharpoonup> error"
  close_error :: "string \<rightharpoonup> error"
  rename_error :: "string \<rightharpoonup> error"
  remove_error :: "string \<rightharpoonup> error"
  room :: "nat option"

text \<open>An \<^verbatim>\<open>io.Reader\<close>: the bytes it delivers and the error it ends with, if not the end of
  the stream.\<close>

record reader =
  feed :: string
  feed_error :: "error option"

definition content :: "file_system \<Rightarrow> string \<Rightarrow> string" where
  "content fs path = (case files fs path of None \<Rightarrow> [] | Some s \<Rightarrow> s)"

text \<open>\<^verbatim>\<open>os.OpenFile\<close> for appending, and with truncation.\<close>

definition open_append :: "file_system \<Rightarrow> string \<Rightarrow> file_system result" where
  "open_append fs path =
     (case open_error fs path of
        Some err \<Rightarrow> Inl err
      | None \<Rightarrow> Inr (fs\<lparr>files := (files fs)(path \<mapsto> content fs path)\<rparr>))"

definition open_trunc :: "file_system \<Rightarrow> string \<Rightarrow> file_system result" where
  "open_trunc fs path =
     (case open_error fs path of
        Some err \<Rightarrow> Inl err
      | None \<Rightarrow> Inr (fs\<lparr>files := (files fs)(path \<mapsto> [])\<rparr>))"

definition WriteString :: "file_system \<Rightarrow> string \<Rightarrow> string \<Rightarrow> error option \<times> file_system" where
  "WriteString fs path s =
     (case room fs of
        None \<Rightarrow> (None, fs\<lparr>files := (files fs)(path \<mapsto> content fs path @ s)\<rparr>)
      | Some n \<Rightarrow>
          if length s \<le> n
          then (None, fs\<lparr>files := (files fs)(path \<mapsto> content fs path @ s), room := Some (n - length s)\<rparr>)
          else (Some (Errorf ''no space left on device''),
                fs\<lparr>files := (files fs)(path \<mapsto> content fs path @ take n s), room := Some 0\<rparr>))"

text \<open>\<^verbatim>\<open>io.Copy\<close> into an open file: a write error wins over a later read error.\<close>

definition io_Copy :: "file_system \<Rightarrow> string \<Rightarrow> reader \<Rightarrow> error option \<times> file_system" where
  "io_Copy fs path r =
     (case WriteString fs path (feed r) of
        (Some err, fs') \<Rightarrow> (Some err, fs')
      | (None, fs') \<Rightarrow> (feed_error r, fs'))"

definition os_Remove :: "file_system \<Rightarrow> string \<Rightarrow> file_system" where
  "os_Remove fs path =
     (case remove_error fs path of Some _ \<Rightarrow> fs | None \<Rightarrow> fs\<lparr>files := (files fs)(path := None)\<rparr>)"

definition os_Rename :: "file_system \<Rightarrow> string \<Rightarrow> string \<Rightarrow> error option \<times> file_system" where
  "os_Rename fs a b =
     (case rename_error fs a of
        Some err \<Rightarrow> (Some err, fs)
      | None \<Rightarrow>
          (case files fs a of
             None \<Rightarrow> (Some (Errorf ''no such file or directory''), fs)
           | Some s \<Rightarrow> (None, fs\<lparr>files := (files fs)(a := None, b \<mapsto> s)\<rparr>)))"

definition os_Open :: "file_system \<Rightarrow> string \<Rightarrow> reader result" where
  "os_Open fs path =
     (case open_error fs path of
        Some err \<Rightarrow> Inl err
      | None \<Rightarrow>
          (case files fs path of
             None \<Rightarrow> Inl (Errorf ''no such file or directory'')
           | Some s \<Rightarrow> Inr \<lparr>feed = s, feed_error = None\<rparr>))"

lemma WriteString_files:
  assumes "WriteString fs path s = (e, fs')"
  obtains n where "files fs' = (files fs)(path \<mapsto> content fs path @ take n s)" "e = None \<Longrightarrow> take n s = s"
    "open_error fs' = open_error fs" "remove_error fs' = remove_error fs" "rename_error fs' = rename_error fs"
    "close_error fs' = close_error fs"
proof (cases "room fs")
  case None
  with assms that [of "length s"] show ?thesis by (auto simp: WriteString_def)
next
  case (Some n)
  with assms that [of n] show ?thesis by (auto simp: WriteString_def split: if_splits)
qed

end
