(* ===== verification/Logger.thy ===== *)
theory Logger
  imports Go_OS
begin

text \<open>
  \<^verbatim>\<open>pkg/logging/logger.go\<close>: the security log, one file per day, one line per entry. The
  mutex is held from the opening of the file to its closing, so one call is one step.
\<close>

definition SeverityInfo :: string where "SeverityInfo = ''INFO''"
definition SeverityWarn :: string where "SeverityWarn = ''WARN''"
definition SeverityError :: string where "SeverityError = ''ERROR''"

record logger =
  dir :: string

definition NewLogger :: "file_system \<Rightarrow> string \<Rightarrow> logger result" where
  "NewLogger fs d =
     (case mkdir_error fs d of
        Some err \<Rightarrow> Inl (QuotedWrapf ''failed to create log directory '' d err)
      | None \<Rightarrow> Inr \<lparr>dir = d\<rparr>)"

definition log_filename :: "logger \<Rightarrow> go_time \<Rightarrow> string" where
  "log_filename l now = path_Join (dir l) (Format_date now @ ''.logs.txt'')"

definition log_line :: "go_time \<Rightarrow> string \<Rightarrow> string \<Rightarrow> string \<Rightarrow> string" where
  "log_line now tag severity message =
     ''['' @ Format_time now @ ''] ['' @ tag @ ''] ['' @ severity @ '']'' @ [CHR 0x09] @ message @ [newline]"

definition Log :: "logger \<Rightarrow> go_time \<Rightarrow> file_system \<Rightarrow> string \<Rightarrow> string \<Rightarrow> string \<Rightarrow> error option \<times> file_system" where
  "Log l now fs tag severity message =
     (let filename = log_filename l now
      in case open_append fs filename of
           Inl err \<Rightarrow> (Some (QuotedWrapf ''failed to open log file '' filename err), fs)
         | Inr fs1 \<Rightarrow>
             (case WriteString fs1 filename (log_line now tag severity message) of
                (Some err, fs2) \<Rightarrow> (Some (Wrapf ''failed to write log entry'' err), fs2)
              | (None, fs2) \<Rightarrow> (None, fs2)))"

definition Warn :: "logger \<Rightarrow> go_time \<Rightarrow> file_system \<Rightarrow> string \<Rightarrow> string \<Rightarrow> error option \<times> file_system" where
  "Warn l now fs tag message = Log l now fs tag SeverityWarn message"

definition Info :: "logger \<Rightarrow> go_time \<Rightarrow> file_system \<Rightarrow> string \<Rightarrow> string \<Rightarrow> error option \<times> file_system" where
  "Info l now fs tag message = Log l now fs tag SeverityInfo message"

definition log_Error :: "logger \<Rightarrow> go_time \<Rightarrow> file_system \<Rightarrow> string \<Rightarrow> string \<Rightarrow> error option \<times> file_system" where
  "log_Error l now fs tag message = Log l now fs tag SeverityError message"

subsection \<open>What a reader of the file sees\<close>

definition lines :: "string \<Rightarrow> string list" where
  "lines s = Split_byte newline s"

lemma Split_byte_sep: "c \<notin> set t \<Longrightarrow> Split_byte c (s @ c # t) = Split_byte c s @ [t]"
proof (induction s)
  case (Cons a s)
  then show ?case by (cases "Split_byte c s") auto
qed (simp add: Split_byte_clean)

lemma Split_byte_extend:
  assumes "c \<notin> set t"
  shows "Split_byte c (s @ t) = butlast (Split_byte c s) @ [last (Split_byte c s) @ t]"
proof (induction s)
  case Nil
  then show ?case using assms by (simp add: Split_byte_clean)
next
  case (Cons a s)
  show ?case
  proof (cases "a = c")
    case True
    then show ?thesis using Cons by simp
  next
    case False
    obtain f fs where f: "Split_byte c s = f # fs" by (cases "Split_byte c s") auto
    then show ?thesis using Cons False by (cases fs) auto
  qed
qed

text \<open>An entry is one line, and what is appended after it starts a new one.\<close>

lemma lines_append_line:
  assumes "one_line t" "lines s = ls @ [[]]"
  shows "lines (s @ t @ [newline]) = ls @ [t, []]"
proof -
  have "Split_byte newline ((s @ t) @ newline # []) = Split_byte newline (s @ t) @ [[]]"
    by (rule Split_byte_sep) simp
  moreover have "Split_byte newline (s @ t) = ls @ [t]"
    using Split_byte_extend [of newline t s] assms by (simp add: lines_def one_line_def)
  ultimately show ?thesis by (simp add: lines_def)
qed

lemma Log_appends:
  assumes "open_error fs (log_filename l now) = None" "room fs = None"
  shows "\<exists>fs'. Log l now fs tag sev msg = (None, fs') \<and>
    content fs' (log_filename l now) = content fs (log_filename l now) @ log_line now tag sev msg \<and>
    (\<forall>p. p \<noteq> log_filename l now \<longrightarrow> files fs' p = files fs p)"
  using assms by (simp add: Log_def Let_def open_append_def WriteString_def content_def)

lemma Log_frame:
  assumes "Log l now fs tag sev msg = (e, fs')"
  shows "p \<noteq> log_filename l now \<Longrightarrow> files fs' p = files fs p"
    and "\<exists>n. content fs' (log_filename l now) =
           content fs (log_filename l now) @ take n (log_line now tag sev msg)"
proof -
  show "p \<noteq> log_filename l now \<Longrightarrow> files fs' p = files fs p"
    using assms
    by (auto simp: Log_def Let_def open_append_def WriteString_def split: option.splits if_splits prod.splits)
  show "\<exists>n. content fs' (log_filename l now) =
           content fs (log_filename l now) @ take n (log_line now tag sev msg)"
  proof (cases "open_error fs (log_filename l now)")
    case None
    show ?thesis
    proof (cases "room fs")
      case None
      with \<open>open_error fs (log_filename l now) = None\<close> assms show ?thesis
        by (intro exI [of _ "length (log_line now tag sev msg)"])
           (auto simp: Log_def Let_def open_append_def WriteString_def content_def)
    next
      case (Some n)
      with \<open>open_error fs (log_filename l now) = None\<close> assms show ?thesis
        by (intro exI [of _ n])
           (auto simp: Log_def Let_def open_append_def WriteString_def content_def split: if_splits)
    qed
  next
    case (Some e')
    with assms show ?thesis
      by (intro exI [of _ 0]) (simp add: Log_def Let_def open_append_def)
  qed
qed

text \<open>The log is append-only: whatever the outcome of a call, the file of the day keeps
  its old content as a prefix and gains at most the new entry, and no other file changes.\<close>

lemma Log_append_only:
  assumes "Log l now fs tag sev msg = (e, fs')"
  shows "(\<exists>n. content fs' (log_filename l now) =
            content fs (log_filename l now) @ take n (log_line now tag sev msg)) \<and>
    (\<forall>p. p \<noteq> log_filename l now \<longrightarrow> files fs' p = files fs p)"
  using Log_frame [OF assms] by blast

definition sample_fs :: file_system where
  "sample_fs = \<lparr>files = Map.empty, open_error = Map.empty, mkdir_error = Map.empty,
    close_error = Map.empty, rename_error = Map.empty, remove_error = Map.empty, room = Some 5\<rparr>"

definition sample_now :: go_time where
  "sample_now = \<lparr>year = 2025, month = 1, day = 2, hour = 3, minute = 4, second = 5, milli = 6\<rparr>"

lemma Log_append_only_witness:
  "\<exists>e fs'. Log \<lparr>dir = ''logs''\<rparr> sample_now sample_fs ''AUTH'' SeverityWarn ''hello'' = (e, fs') \<and>
     e \<noteq> None \<and>
     (\<exists>n. content fs' (log_filename \<lparr>dir = ''logs''\<rparr> sample_now) =
        content sample_fs (log_filename \<lparr>dir = ''logs''\<rparr> sample_now) @
        take n (log_line sample_now ''AUTH'' SeverityWarn ''hello''))"
proof -
  let ?l = "\<lparr>dir = ''logs''\<rparr>"
  obtain e fs' where eq: "Log ?l sample_now sample_fs ''AUTH'' SeverityWarn ''hello'' = (e, fs')"
    by (cases "Log ?l sample_now sample_fs ''AUTH'' SeverityWarn ''hello''")
  moreover have "e \<noteq> None"
    using eq by (auto simp: Log_def Let_def open_append_def WriteString_def sample_fs_def log_line_def)
  ultimately show ?thesis using Log_append_only [OF eq] by blast
qed

end
