(* ===== verification/Go_Net.thy ===== *)
theory Go_Net
  imports Go_Strings
begin

text \<open>
  Addresses, as Go's \<^verbatim>\<open>net\<close> and \<^verbatim>\<open>net/netip\<close> parse and print them: the broker's
  filters decide on the parsed form of a remote address, so the parsers are spelled out.
\<close>

text \<open>\<^verbatim>\<open>netip.Addr\<close>: four bytes, or sixteen bytes with a zone.\<close>

datatype addr = V4 bytes | V6 bytes string

subsection \<open>IPv4\<close>

text \<open>
  The loop of \<^verbatim>\<open>parseIPv4Fields\<close>: \<open>at_start\<close> and \<open>after_dot\<close> stand for the tests on the
  position and on the previous character, \<open>v\<close> and \<open>digLen\<close> are the current octet, \<open>fs\<close> the
  octets read so far.
\<close>

fun parseIPv4Fields :: "bool \<Rightarrow> bool \<Rightarrow> nat \<Rightarrow> nat \<Rightarrow> bytes \<Rightarrow> string \<Rightarrow> bytes option" where
  "parseIPv4Fields at_start after_dot v digLen fs [] =
     (if length fs < 3 then None else Some (fs @ [of_nat v]))"
| "parseIPv4Fields at_start after_dot v digLen fs (c # cs) =
     (if is_digit c then
        (if digLen = 1 \<and> v = 0 then None
         else if v * 10 + (ord c - 48) > 255 then None
         else parseIPv4Fields False False (v * 10 + (ord c - 48)) (digLen + 1) fs cs)
      else if c = CHR ''.'' then
        (if at_start \<or> cs = [] \<or> after_dot then None
         else if length fs = 3 then None
         else parseIPv4Fields False True 0 0 (fs @ [of_nat v]) cs)
      else None)"

definition parseIPv4 :: "string \<Rightarrow> addr option" where
  "parseIPv4 s = map_option V4 (parseIPv4Fields True False 0 0 [] s)"

text \<open>\<^verbatim>\<open>IP.String\<close> of four bytes.\<close>

definition IPv4_String :: "bytes \<Rightarrow> string" where
  "IPv4_String b =
     dec (unat (b ! 0)) @ ''.'' @ dec (unat (b ! 1)) @ ''.'' @ dec (unat (b ! 2)) @ ''.'' @ dec (unat (b ! 3))"

subsection \<open>IPv6\<close>

definition hex_value :: "char \<Rightarrow> nat option" where
  "hex_value c =
     (if is_digit c then Some (ord c - 48)
      else if 97 \<le> ord c \<and> ord c \<le> 102 then Some (ord c - 87)
      else if 65 \<le> ord c \<and> ord c \<le> 70 then Some (ord c - 55)
      else None)"

text \<open>One group of hex digits: its value, the number of digits and the rest; \<^term>\<open>None\<close> for more
  than four digits (a value of \<open>2 ^ 16\<close> or more would need them).\<close>

fun hex_group :: "nat \<Rightarrow> nat \<Rightarrow> string \<Rightarrow> (nat \<times> nat \<times> string) option" where
  "hex_group acc off [] = Some (acc, off, [])"
| "hex_group acc off (c # cs) =
     (case hex_value c of
        None \<Rightarrow> Some (acc, off, c # cs)
      | Some d \<Rightarrow>
          if off > 3 then None
          else if acc * 16 + d > 65535 then None
          else hex_group (acc * 16 + d) (off + 1) cs)"

lemma hex_group_shorter:
  "hex_group acc off s = Some (v, n, rest) \<Longrightarrow> length rest + n = length s + off"
  by (induction acc off s rule: hex_group.induct) (auto split: option.splits if_splits)

text \<open>
  The loop of \<^verbatim>\<open>parseIPv6\<close>. It returns the bytes read, the position of the ellipsis and
  what is left of the input.
\<close>

function parseIPv6_loop :: "bytes \<Rightarrow> nat option \<Rightarrow> string \<Rightarrow> (bytes \<times> nat option \<times> string) option" where
  "parseIPv6_loop ip ell s =
     (if 16 \<le> length ip then Some (ip, ell, s)
      else case hex_group 0 0 s of
        None \<Rightarrow> None
      | Some (acc, off, rest) \<Rightarrow>
          if off = 0 then None
          else if HasPrefix rest ''.'' then
            (if ell = None \<and> length ip \<noteq> 12 then None
             else if 16 < length ip + 4 then None
             else case parseIPv4Fields True False 0 0 [] s of
                    None \<Rightarrow> None
                  | Some q \<Rightarrow> Some (ip @ q, ell, []))
          else let ip' = ip @ [of_nat (acc div 256), of_nat acc] in
            (case rest of
               [] \<Rightarrow> Some (ip', ell, [])
             | c # cs \<Rightarrow>
                 if c \<noteq> CHR '':'' then None
                 else if cs = [] then None
                 else if HasPrefix cs '':'' then
                   (if ell \<noteq> None then None
                    else if drop 1 cs = [] then Some (ip', Some (length ip'), [])
                    else parseIPv6_loop ip' (Some (length ip')) (drop 1 cs))
                 else parseIPv6_loop ip' ell cs))"
  by pat_completeness auto
termination
  by (relation "measure (\<lambda>(ip, ell, s). 16 - length ip)") auto

declare parseIPv6_loop.simps [simp del]

definition expand_ellipsis :: "bytes \<Rightarrow> nat option \<Rightarrow> bytes option" where
  "expand_ellipsis ip ell =
     (if length ip < 16 then
        (case ell of
           None \<Rightarrow> None
         | Some e \<Rightarrow> Some (take e ip @ replicate (16 - length ip) 0 @ drop e ip))
      else if ell \<noteq> None then None else Some ip)"

definition index_byte :: "char \<Rightarrow> string \<Rightarrow> nat option" where
  "index_byte c s =
     (let k = length (takeWhile (\<lambda>x. x \<noteq> c) s) in if k < length s then Some k else None)"

definition parseIPv6 :: "string \<Rightarrow> addr option" where
  "parseIPv6 txt_in =
     (let (s, zone, ok) =
        (case index_byte (CHR ''%'') txt_in of
           None \<Rightarrow> (txt_in, [], True)
         | Some i \<Rightarrow> (take i txt_in, drop (i + 1) txt_in, drop (i + 1) txt_in \<noteq> []))
      in if \<not> ok then None
         else if s = ''::'' then Some (V6 (replicate 16 0) zone)
         else let (ell, s1) = (if HasPrefix s ''::'' then (Some 0, drop 2 s) else (None, s))
              in case parseIPv6_loop [] ell s1 of
                   None \<Rightarrow> None
                 | Some (ip, ell', rest) \<Rightarrow>
                     if rest \<noteq> [] then None
                     else map_option (\<lambda>b. V6 b zone) (expand_ellipsis ip ell'))"

subsection \<open>Either family\<close>

text \<open>\<^verbatim>\<open>netip.ParseAddr\<close>: the first of \<^verbatim>\<open>.\<close>, \<^verbatim>\<open>:\<close>, \<^verbatim>\<open>%\<close> decides.\<close>

definition ParseAddr :: "string \<Rightarrow> addr option" where
  "ParseAddr s =
     (case find (\<lambda>c. c = CHR ''.'' \<or> c = CHR '':'' \<or> c = CHR ''%'') s of
        None \<Rightarrow> None
      | Some c \<Rightarrow> if c = CHR ''.'' then parseIPv4 s else if c = CHR '':'' then parseIPv6 s else None)"

definition v4_prefix :: bytes where
  "v4_prefix = replicate 10 0 @ [255, 255]"

text \<open>\<^verbatim>\<open>net.ParseIP\<close>: sixteen bytes, an IPv4 address in its mapped form; zones are refused.\<close>

definition ParseIP :: "string \<Rightarrow> bytes option" where
  "ParseIP s =
     (case ParseAddr s of
        None \<Rightarrow> None
      | Some (V4 b) \<Rightarrow> Some (v4_prefix @ b)
      | Some (V6 b zone) \<Rightarrow> if zone = [] then Some b else None)"

definition To4 :: "bytes \<Rightarrow> bytes option" where
  "To4 ip =
     (if length ip = 4 then Some ip
      else if length ip = 16 \<and> take 12 ip = v4_prefix then Some (drop 12 ip)
      else None)"

subsection \<open>Host and port\<close>

definition last_index :: "char \<Rightarrow> string \<Rightarrow> nat option" where
  "last_index c s = map_option (\<lambda>k. length s - 1 - k) (index_byte c (rev s))"

definition AddrError :: "string \<Rightarrow> string \<Rightarrow> error" where
  "AddrError a why = Errorf (''address '' @ a @ '': '' @ why)"

definition missingPort :: string where "missingPort = ''missing port in address''"
definition tooManyColons :: string where "tooManyColons = ''too many colons in address''"

definition SplitHostPort :: "string \<Rightarrow> (string \<times> string) result" where
  "SplitHostPort hostport =
     (case last_index (CHR '':'') hostport of
        None \<Rightarrow> Inl (AddrError hostport missingPort)
      | Some i \<Rightarrow>
          let finish = (\<lambda>host j k.
                if index_byte (CHR ''['') (drop j hostport) \<noteq> None
                  then Inl (AddrError hostport ''unexpected '[' in address'')
                else if index_byte (CHR '']'') (drop k hostport) \<noteq> None
                  then Inl (AddrError hostport ''unexpected ']' in address'')
                else Inr (host, drop (i + 1) hostport))
          in if HasPrefix hostport ''['' then
               (case index_byte (CHR '']'') hostport of
                  None \<Rightarrow> Inl (AddrError hostport ''missing ']' in address'')
                | Some e \<Rightarrow>
                    if e + 1 = length hostport then Inl (AddrError hostport missingPort)
                    else if e + 1 = i then finish (drop 1 (take e hostport)) 1 (e + 1)
                    else if hostport ! (e + 1) = CHR '':'' then Inl (AddrError hostport tooManyColons)
                    else Inl (AddrError hostport missingPort))
             else if index_byte (CHR '':'') (take i hostport) \<noteq> None
               then Inl (AddrError hostport tooManyColons)
             else finish (take i hostport) 0 0)"

definition JoinHostPort :: "string \<Rightarrow> string \<Rightarrow> string" where
  "JoinHostPort host port =
     (if index_byte (CHR '':'') host \<noteq> None then ''['' @ host @ '']:'' @ port else host @ '':'' @ port)"

subsection \<open>Printing and parsing are inverse\<close>

lemma octet_digit: "d < 10 \<Longrightarrow> is_digit (char_of (48 + d)) \<and> ord (char_of (48 + d)) - 48 = d"
  by (simp add: is_digit_def)

lemma dec1: "n < 10 \<Longrightarrow> dec n = [char_of (48 + n)]"
  by (simp add: dec.simps)

lemma dec2: "10 \<le> n \<Longrightarrow> n < 100 \<Longrightarrow> dec n = [char_of (48 + n div 10), char_of (48 + n mod 10)]"
  by (simp add: dec.simps [of n] dec1)

lemma dec3:
  "100 \<le> n \<Longrightarrow> n < 1000 \<Longrightarrow>
    dec n = [char_of (48 + n div 100), char_of (48 + n div 10 mod 10), char_of (48 + n mod 10)]"
  by (simp add: dec.simps [of n] dec2 div_mult2_eq [symmetric])

lemma dec_digits: "list_all is_digit (dec n)"
proof (induction n rule: dec.induct)
  case (1 n)
  then show ?case by (subst dec.simps) (simp add: octet_digit)
qed

lemma parse_octet:
  assumes "n < 256"
  shows "\<exists>k. parseIPv4Fields st ad 0 0 fs (dec n @ rest) = parseIPv4Fields False False n k fs rest"
proof -
  consider "n < 10" | "10 \<le> n" "n < 100" | "100 \<le> n" "n < 1000" using assms by linarith
  then show ?thesis
  proof cases
    case 1
    then show ?thesis by (intro exI [of _ 1]) (simp add: dec1 octet_digit)
  next
    case 2
    then have d: "n div 10 < 10" "n div 10 \<noteq> 0" "n div 10 * 10 + n mod 10 = n" by auto
    then have "\<not> 255 < n div 10" by linarith
    with d 2 show ?thesis by (intro exI [of _ 2]) (simp add: dec2 octet_digit numeral_2_eq_2)
  next
    case 3
    then have "n div 100 < 10" "n div 100 \<noteq> 0" "\<not> 255 < n div 100" by auto
    moreover have "n div 100 * 10 + n div 10 mod 10 = n div 10"
      using div_mult_mod_eq [of "n div 10" 10] by (simp add: div_mult2_eq [symmetric])
    moreover have "\<not> 255 < n div 10" using assms by linarith
    ultimately show ?thesis using 3 assms
      by (intro exI [of _ 3]) (simp add: dec3 octet_digit numeral_3_eq_3)
  qed
qed

lemma dot_not_digit [simp]: "\<not> is_digit (CHR ''.'')"
  by (simp add: is_digit_def)

lemma parse_octet_dot:
  assumes "n < 256" "length fs < 3" "rest \<noteq> []"
  shows "parseIPv4Fields st ad 0 0 fs (dec n @ CHR ''.'' # rest) =
    parseIPv4Fields False True 0 0 (fs @ [of_nat n]) rest"
proof -
  obtain k where "parseIPv4Fields st ad 0 0 fs (dec n @ CHR ''.'' # rest) =
      parseIPv4Fields False False n k fs (CHR ''.'' # rest)"
    using parse_octet [OF assms(1)] by blast
  then show ?thesis using assms(2,3) by simp
qed

lemma parse_octet_last:
  assumes "n < 256" "length fs = 3"
  shows "parseIPv4Fields st ad 0 0 fs (dec n) = Some (fs @ [of_nat n])"
proof -
  obtain k where "parseIPv4Fields st ad 0 0 fs (dec n @ []) = parseIPv4Fields False False n k fs []"
    using parse_octet [OF assms(1)] by blast
  then show ?thesis using assms(2) by simp
qed

lemma dec_nonempty [simp]: "dec n \<noteq> []"
  by (subst dec.simps) simp

lemma unat_byte_less [simp]: "unat (b :: byte) < 256"
  using unsigned_less [of b] by simp

lemma parse_IPv4_String:
  assumes "length b = 4"
  shows "parseIPv4Fields True False 0 0 [] (IPv4_String b) = Some b"
proof -
  obtain p q r s where b: "b = [p, q, r, s]"
    using assms by (auto simp: numeral_eq_Suc length_Suc_conv)
  show ?thesis by (simp add: b IPv4_String_def parse_octet_dot parse_octet_last)
qed

lemma find_append_none: "list_all (\<lambda>c. \<not> P c) xs \<Longrightarrow> find P (xs @ ys) = find P ys"
  by (induction xs) auto

lemma find_special_dec:
  "find (\<lambda>c. c = CHR ''.'' \<or> c = CHR '':'' \<or> c = CHR ''%'') (dec n @ ys) =
   find (\<lambda>c. c = CHR ''.'' \<or> c = CHR '':'' \<or> c = CHR ''%'') ys"
  by (rule find_append_none, rule list.pred_mono_strong [OF dec_digits]) (auto simp: is_digit_def)

lemma ParseIP_IPv4_String:
  assumes "length b = 4"
  shows "ParseIP (IPv4_String b) = Some (v4_prefix @ b)"
  using parse_IPv4_String [OF assms]
  by (simp add: ParseIP_def ParseAddr_def parseIPv4_def) (simp add: IPv4_String_def find_special_dec parseIPv4_def)

lemma To4_mapped [simp]: "length b = 4 \<Longrightarrow> To4 (v4_prefix @ b) = Some b"
  by (simp add: To4_def v4_prefix_def)

lemma parseIPv4Fields_length:
  "parseIPv4Fields st ad v k fs s = Some b \<Longrightarrow> length fs \<le> 3 \<Longrightarrow> length b = 4"
proof (induction st ad v k fs s rule: parseIPv4Fields.induct)
  case (2 st ad v k fs c cs)
  then show ?case by (simp split: if_splits)
qed (auto split: if_splits)

lemma To4_length: "To4 ip = Some b \<Longrightarrow> length b = 4"
  by (auto simp: To4_def split: if_splits)

text \<open>Different addresses print differently.\<close>

lemma IPv4_String_inj:
  assumes "length a = 4" "length b = 4" "IPv4_String a = IPv4_String b"
  shows "a = b"
  using parse_IPv4_String [OF assms(1)] parse_IPv4_String [OF assms(2)] unfolding assms(3) by simp

lemma index_byte_None_iff: "index_byte c s = None \<longleftrightarrow> c \<notin> set s"
proof -
  have "length (takeWhile (\<lambda>x. x \<noteq> c) s) < length s \<longleftrightarrow> c \<in> set s"
    by (induction s) auto
  then show ?thesis by (simp add: index_byte_def Let_def)
qed

lemma index_byte_first: "c \<notin> set a \<Longrightarrow> index_byte c (a @ c # b) = Some (length a)"
  by (simp add: index_byte_def Let_def takeWhile_append)

lemma last_index_last: "c \<notin> set b \<Longrightarrow> last_index c (a @ c # b) = Some (length a)"
  by (simp add: last_index_def index_byte_first)

lemma SplitHostPort_JoinHostPort:
  assumes host: "CHR ''['' \<notin> set host" "CHR '']'' \<notin> set host"
    and port: "CHR '':'' \<notin> set port" "CHR ''['' \<notin> set port" "CHR '']'' \<notin> set port"
  shows "SplitHostPort (JoinHostPort host port) = Inr (host, port)"
proof (cases "index_byte (CHR '':'') host")
  case None
  then have h: "CHR '':'' \<notin> set host" by (simp add: index_byte_None_iff)
  have "\<not> HasPrefix (host @ CHR '':'' # port) ''[''"
    using host by (cases host) (auto simp: HasPrefix_def)
  with h host port show ?thesis
    by (simp add: SplitHostPort_def JoinHostPort_def None last_index_last index_byte_None_iff Let_def
        del: not_None_eq)
next
  case (Some k)
  let ?s = "CHR ''['' # host @ CHR '']'' # CHR '':'' # port"
  have j: "JoinHostPort host port = ?s" by (simp add: JoinHostPort_def Some)
  have "last_index (CHR '':'') ((CHR ''['' # host @ [CHR '']'']) @ CHR '':'' # port) = Some (length host + 2)"
    using last_index_last [OF port(1), of "CHR ''['' # host @ [CHR '']'']"] by simp
  then have l: "last_index (CHR '':'') ?s = Some (length host + 2)" by simp
  have "index_byte (CHR '']'') ((CHR ''['' # host) @ CHR '']'' # CHR '':'' # port) = Some (length host + 1)"
    using index_byte_first [of "CHR '']''" "CHR ''['' # host"] host by simp
  then have r: "index_byte (CHR '']'') ?s = Some (length host + 1)" by simp
  show ?thesis
    using host port by (simp add: j SplitHostPort_def l r HasPrefix_def index_byte_None_iff Let_def del: not_None_eq)
qed

end
