(* ===== verification/Ipsum.thy ===== *)
theory Ipsum
  imports Go_Net Go_OS
begin

text \<open>
  \<^verbatim>\<open>pkg/ipsum/ipsum.go\<close>: the IPsum blacklist. The feed is a byte stream, the bytes it
  delivers and the error it ends with, if any; \<open>scan_lines\<close> is \<^verbatim>\<open>bufio.Scanner\<close> with the
  limit the code sets, and \<open>loadFromReader\<close> the loop over its lines. The calls of the
  \<^verbatim>\<open>warn\<close> callback are the list of its arguments.
\<close>

record DB =
  ips :: "string \<rightharpoonup> int"
  minCount :: int

definition DefaultMinCount :: int where "DefaultMinCount = 3"
definition maxTokenSize :: nat where "maxTokenSize = 5242880"

definition NewDB :: "int \<Rightarrow> DB" where
  "NewDB m = \<lparr>ips = Map.empty, minCount = (if m < 1 then 1 else m)\<rparr>"

subsection \<open>bufio.Scanner\<close>

definition dropCR :: "string \<Rightarrow> string" where
  "dropCR s = (if s \<noteq> [] \<and> last s = CHR 0x0D then butlast s else s)"

text \<open>The raw lines: what stands between the newlines, and a last line if it is not empty.\<close>

definition raw_lines :: "string \<Rightarrow> string list" where
  "raw_lines s =
     (let ls = Split_byte newline s in if last ls = [] then butlast ls else ls)"

text \<open>
  A line that does not fit the buffer ends the scan with \<^verbatim>\<open>ErrTooLong\<close>; an error of the
  reader is reported after the lines before it.
\<close>

definition scan_lines :: "reader \<Rightarrow> string list \<times> error option" where
  "scan_lines r =
     (let ls = raw_lines (feed r); ok = takeWhile (\<lambda>l. length l < maxTokenSize) ls
      in (map dropCR ok,
          if length ok < length ls then Some (Errorf ''bufio.Scanner: token too long'')
          else feed_error r))"

subsection \<open>Loading\<close>

text \<open>What one line contributes.\<close>

datatype line_result = Skip | Warning string | Entry string int

definition parse_line :: "string \<Rightarrow> line_result" where
  "parse_line raw =
     (let line = TrimSpace raw
      in if line = [] \<or> HasPrefix line ''#'' then Skip
         else let fields = Fields line
         in if length fields < 2 then Warning line
            else case ParseIP (fields ! 0) of
              None \<Rightarrow> Warning line
            | Some ip \<Rightarrow>
                (case To4 ip of
                   None \<Rightarrow> Warning line
                 | Some ip4 \<Rightarrow>
                     (case Atoi (fields ! 1) of
                        Inl _ \<Rightarrow> Warning line
                      | Inr cnt \<Rightarrow> Entry (IPv4_String ip4) cnt)))"

fun load_loop :: "int \<Rightarrow> nat \<Rightarrow> (string \<rightharpoonup> int) \<Rightarrow> (nat \<times> string) list \<Rightarrow> string list \<Rightarrow>
    (string \<rightharpoonup> int) \<times> (nat \<times> string) list" where
  "load_loop mc lineNum newMap warns [] = (newMap, warns)"
| "load_loop mc lineNum newMap warns (l # ls) =
     (case parse_line l of
        Skip \<Rightarrow> load_loop mc (lineNum + 1) newMap warns ls
      | Warning line \<Rightarrow> load_loop mc (lineNum + 1) newMap (warns @ [(lineNum + 1, line)]) ls
      | Entry ip cnt \<Rightarrow>
          load_loop mc (lineNum + 1) (if mc \<le> cnt then newMap(ip \<mapsto> cnt) else newMap) warns ls)"

definition loadFromReader :: "DB \<Rightarrow> reader \<Rightarrow> error option \<times> (nat \<times> string) list \<times> DB" where
  "loadFromReader db r =
     (let (ls, scan_err) = scan_lines r;
          (newMap, warns) = load_loop (minCount db) 0 Map.empty [] ls
      in case scan_err of
           Some err \<Rightarrow> (Some (Wrapf ''ipsum: scan error'' err), warns, db)
         | None \<Rightarrow> (None, warns, db\<lparr>ips := newMap\<rparr>))"

definition LoadFromReader :: "DB \<Rightarrow> reader \<Rightarrow> error option \<times> (nat \<times> string) list \<times> DB" where
  "LoadFromReader db r = loadFromReader db r"

definition LoadFromFile :: "file_system \<Rightarrow> DB \<Rightarrow> string \<Rightarrow> error option \<times> (nat \<times> string) list \<times> DB" where
  "LoadFromFile fs db path =
     (case os_Open fs path of
        Inl err \<Rightarrow> (Some (QuotedWrapf ''ipsum: failed to open '' path err), [], db)
      | Inr r \<Rightarrow> loadFromReader db r)"

definition IsBlocked :: "DB \<Rightarrow> string \<Rightarrow> bool \<times> int" where
  "IsBlocked db ipStr =
     (case ParseIP (TrimSpace ipStr) of
        None \<Rightarrow> (False, 0)
      | Some ip \<Rightarrow>
          (case To4 ip of
             None \<Rightarrow> (False, 0)
           | Some ip4 \<Rightarrow>
               (case ips db (IPv4_String ip4) of None \<Rightarrow> (False, 0) | Some c \<Rightarrow> (True, c))))"

definition Len :: "DB \<Rightarrow> nat" where
  "Len db = card (dom (ips db))"

subsection \<open>Downloading\<close>

text \<open>
  The HTTP client is a parameter: for a URL the outcome of building the request, of
  \<^verbatim>\<open>Do\<close>, the status and the body.
\<close>

record response =
  StatusCode :: nat
  Body :: reader

type_synonym http_client = "string \<Rightarrow> error option \<times> response result"

definition DownloadToFile :: "http_client \<Rightarrow> file_system \<Rightarrow> string \<Rightarrow> string \<Rightarrow> error option \<times> file_system" where
  "DownloadToFile http fs url path =
     (case http url of
        (Some err, _) \<Rightarrow> (Some (Wrapf ''ipsum: failed to create request'' err), fs)
      | (None, Inl err) \<Rightarrow> (Some (Wrapf ''ipsum: download failed'' err), fs)
      | (None, Inr resp) \<Rightarrow>
          if StatusCode resp \<noteq> 200
          then (Some (Errorf (''ipsum: unexpected HTTP status '' @ dec (StatusCode resp))), fs)
          else let tmpPath = path @ ''.tmp''
          in case open_trunc fs tmpPath of
               Inl err \<Rightarrow> (Some (QuotedWrapf ''ipsum: failed to create temp file '' tmpPath err), fs)
             | Inr fs1 \<Rightarrow>
                 (case io_Copy fs1 tmpPath (Body resp) of
                    (Some err, fs2) \<Rightarrow>
                      (Some (Wrapf ''ipsum: failed to write temp file'' err), os_Remove fs2 tmpPath)
                  | (None, fs2) \<Rightarrow>
                      (case close_error fs2 tmpPath of
                         Some err \<Rightarrow>
                           (Some (Wrapf ''ipsum: failed to close temp file'' err), os_Remove fs2 tmpPath)
                       | None \<Rightarrow>
                           (case os_Rename fs2 tmpPath path of
                              (Some err, fs3) \<Rightarrow>
                                (Some (QuotedWrapf ''ipsum: failed to rename temp file to '' path err),
                                 os_Remove fs3 tmpPath)
                            | (None, fs3) \<Rightarrow> (None, fs3)))))"

lemma tmp_path_neq [simp]: "path @ ''.tmp'' \<noteq> path" "path \<noteq> path @ ''.tmp''"
  by simp_all

text \<open>Only the temporary file is written before the rename.\<close>

lemma DownloadToFile_frame:
  assumes "DownloadToFile http fs url path = (e, fs')"
  shows "e \<noteq> None \<Longrightarrow> q \<noteq> path @ ''.tmp'' \<Longrightarrow> files fs' q = files fs q"
  using assms
  by (auto simp: DownloadToFile_def Let_def open_trunc_def io_Copy_def os_Remove_def os_Rename_def
      elim!: WriteString_files split: prod.splits option.splits sum.splits if_splits)

text \<open>C26: replacing the feed is atomic: a download that fails for whatever reason (request,
  status, disk full, connection lost half-way, rename) leaves the feed file and every other file
  but the temporary one as they were; one that succeeds leaves exactly the complete body of a
  response with status 200 in the feed file and no temporary file.\<close>

theorem DownloadToFile_atomic:
  assumes "DownloadToFile http fs url path = (e, fs')"
  shows "(e \<noteq> None \<longrightarrow> (\<forall>q. q \<noteq> path @ ''.tmp'' \<longrightarrow> files fs' q = files fs q)) \<and>
    (e = None \<longrightarrow> (\<exists>resp. http url = (None, Inr resp) \<and> StatusCode resp = 200 \<and>
       feed_error (Body resp) = None \<and>
       files fs' = (files fs)(path @ ''.tmp'' := None, path \<mapsto> feed (Body resp))))"
proof -
  have "e = None \<Longrightarrow> \<exists>resp. http url = (None, Inr resp) \<and> StatusCode resp = 200 \<and>
       feed_error (Body resp) = None \<and>
       files fs' = (files fs)(path @ ''.tmp'' := None, path \<mapsto> feed (Body resp))"
    using assms
    by (auto simp: DownloadToFile_def Let_def open_trunc_def io_Copy_def os_Rename_def content_def
        elim!: WriteString_files split: prod.splits option.splits sum.splits if_splits)
  then show ?thesis using DownloadToFile_frame [OF assms] by blast
qed
definition sample_disk :: file_system where
  "sample_disk = \<lparr>files = [''ipsum.txt'' \<mapsto> ''old''], open_error = Map.empty, mkdir_error = Map.empty,
    close_error = Map.empty, rename_error = Map.empty, remove_error = Map.empty, room = None\<rparr>"

definition sample_http :: http_client where
  "sample_http url = (None, Inr \<lparr>StatusCode = 200, Body = \<lparr>feed = ''new'', feed_error = None\<rparr>\<rparr>)"

theorem DownloadToFile_atomic_witness:
  "\<exists>fs'. DownloadToFile sample_http sample_disk ''u'' ''ipsum.txt'' = (None, fs') \<and>
     files fs' ''ipsum.txt'' = Some ''new''"
proof -
  obtain fs' where d: "DownloadToFile sample_http sample_disk ''u'' ''ipsum.txt'' = (None, fs')"
    by (simp add: DownloadToFile_def sample_http_def sample_disk_def open_trunc_def io_Copy_def
        WriteString_def os_Rename_def Let_def)
  with DownloadToFile_atomic [OF d] show ?thesis by (auto simp: sample_http_def)
qed

subsection \<open>What a load means\<close>

text \<open>The abstract reading of a feed: the qualifying entries in file order; the last one for an
  address counts.\<close>

definition line_entry :: "int \<Rightarrow> string \<Rightarrow> (string \<times> int) option" where
  "line_entry mc l = (case parse_line l of Entry ip c \<Rightarrow> if mc \<le> c then Some (ip, c) else None | _ \<Rightarrow> None)"

definition line_warning :: "string \<Rightarrow> string option" where
  "line_warning l = (case parse_line l of Warning w \<Rightarrow> Some w | _ \<Rightarrow> None)"

lemma load_loop_map:
  "fst (load_loop mc n m ws ls) = m ++ map_of (rev (List.map_filter (line_entry mc) ls))"
proof (induction mc n m ws ls rule: load_loop.induct)
  case (2 mc n m ws l ls)
  then show ?case
    by (cases "parse_line l") (simp_all add: line_entry_def List.map_filter_simps map_add_upds)
qed (simp add: List.map_filter_simps)

lemma load_loop_warns:
  "snd (load_loop mc n m ws ls) =
     ws @ List.map_filter (\<lambda>(i, l). map_option (Pair i) (line_warning l)) (enumerate (n + 1) ls)"
proof (induction mc n m ws ls rule: load_loop.induct)
  case (2 mc n m ws l ls)
  then show ?case
    by (cases "parse_line l") (simp_all add: line_warning_def List.map_filter_simps)
qed (simp add: List.map_filter_simps)

text \<open>The last qualifying occurrence of a key in a list of lines.\<close>

definition last_listed :: "int \<Rightarrow> string list \<Rightarrow> string \<Rightarrow> int \<Rightarrow> bool" where
  "last_listed mc ls ip c \<longleftrightarrow>
     (\<exists>pre l post. ls = pre @ l # post \<and> line_entry mc l = Some (ip, c) \<and>
        (\<forall>l'\<in>set post. \<forall>c'. line_entry mc l' \<noteq> Some (ip, c')))"

lemma last_listedI:
  "ls = pre @ l # post \<Longrightarrow> line_entry mc l = Some (ip, c) \<Longrightarrow>
    (\<And>l' c'. l' \<in> set post \<Longrightarrow> line_entry mc l' \<noteq> Some (ip, c')) \<Longrightarrow> last_listed mc ls ip c"
  unfolding last_listed_def by blast

lemma last_listed_snoc:
  "last_listed mc (ls @ [l]) ip c \<longleftrightarrow>
     line_entry mc l = Some (ip, c) \<or> (\<forall>d. line_entry mc l \<noteq> Some (ip, d)) \<and> last_listed mc ls ip c"
proof
  assume "last_listed mc (ls @ [l]) ip c"
  then obtain pre x post where s: "ls @ [l] = pre @ x # post" "line_entry mc x = Some (ip, c)"
    "\<forall>l'\<in>set post. \<forall>c'. line_entry mc l' \<noteq> Some (ip, c')"
    unfolding last_listed_def by blast
  show "line_entry mc l = Some (ip, c) \<or> (\<forall>d. line_entry mc l \<noteq> Some (ip, d)) \<and> last_listed mc ls ip c"
  proof (cases post rule: rev_cases)
    case (snoc zs z)
    then have "ls = pre @ x # zs" "l = z" using s(1) by simp_all
    then show ?thesis using s(2,3) snoc by (auto intro: last_listedI)
  qed (use s in simp)
next
  assume "line_entry mc l = Some (ip, c) \<or> (\<forall>d. line_entry mc l \<noteq> Some (ip, d)) \<and> last_listed mc ls ip c"
  then show "last_listed mc (ls @ [l]) ip c"
  proof (elim disjE conjE)
    assume "line_entry mc l = Some (ip, c)"
    then show ?thesis by (intro last_listedI [of _ ls l "[]"]) simp_all
  next
    assume none: "\<forall>d. line_entry mc l \<noteq> Some (ip, d)" and "last_listed mc ls ip c"
    then obtain pre x post where "ls = pre @ x # post" "line_entry mc x = Some (ip, c)"
      "\<forall>l'\<in>set post. \<forall>c'. line_entry mc l' \<noteq> Some (ip, c')"
      unfolding last_listed_def by blast
    with none show ?thesis
      unfolding last_listed_def by (intro exI [of _ pre] exI [of _ x] exI [of _ "post @ [l]"]) auto
  qed
qed

lemma map_of_last_listed:
  "map_of (rev (List.map_filter (line_entry mc) ls)) ip = Some c \<longleftrightarrow> last_listed mc ls ip c"
proof (induction ls arbitrary: c rule: rev_induct)
  case Nil
  then show ?case by (simp add: last_listed_def List.map_filter_simps)
next
  case (snoc l ls)
  have app: "List.map_filter (line_entry mc) (ls @ [l]) = List.map_filter (line_entry mc) ls @ List.map_filter (line_entry mc) [l]"
    by (simp add: List.map_filter_def)
  show ?case
  proof (cases "line_entry mc l")
    case (Some e)
    then show ?thesis using app by (cases e) (simp add: last_listed_snoc snoc.IH List.map_filter_simps)
  qed (use app in \<open>simp add: last_listed_snoc snoc.IH List.map_filter_simps\<close>)
qed

lemma loadFromReader_cases:
  assumes "loadFromReader db r = (e, ws, db')"
  shows "minCount db' = minCount db"
    and "ws = List.map_filter (\<lambda>(i, l). map_option (Pair i) (line_warning l)) (enumerate 1 (fst (scan_lines r)))"
    and "e = None \<longleftrightarrow> snd (scan_lines r) = None"
    and "e \<noteq> None \<Longrightarrow> db' = db"
    and "e = None \<Longrightarrow> ips db' ip = Some c \<longleftrightarrow> last_listed (minCount db) (fst (scan_lines r)) ip c"
proof -
  obtain ls se where sc: "scan_lines r = (ls, se)" by (cases "scan_lines r")
  obtain m w where ll: "load_loop (minCount db) 0 Map.empty [] ls = (m, w)"
    by (cases "load_loop (minCount db) 0 Map.empty [] ls")
  have m: "m ip = Some c \<longleftrightarrow> last_listed (minCount db) ls ip c" for ip c
    using load_loop_map [of "minCount db" 0 Map.empty "[]" ls] map_of_last_listed ll by simp
  have w: "w = List.map_filter (\<lambda>(i, l). map_option (Pair i) (line_warning l)) (enumerate 1 ls)"
    using load_loop_warns [of "minCount db" 0 Map.empty "[]" ls] ll by simp
  note d = assms [unfolded loadFromReader_def sc, simplified, unfolded ll, simplified]
  show "minCount db' = minCount db" "e = None \<longleftrightarrow> snd (scan_lines r) = None" "e \<noteq> None \<Longrightarrow> db' = db"
    using d by (auto simp: sc split: option.splits)
  show "ws = List.map_filter (\<lambda>(i, l). map_option (Pair i) (line_warning l)) (enumerate 1 (fst (scan_lines r)))"
    using d w by (auto simp: sc split: option.splits)
  show "e = None \<Longrightarrow> ips db' ip = Some c \<longleftrightarrow> last_listed (minCount db) (fst (scan_lines r)) ip c"
    using d m by (auto simp: sc split: option.splits)
qed

text \<open>C25: after a load without error, an IPv4 address, in whatever form it is written
  (blanks around it, mapped into IPv6), is blocked with count \<open>c\<close> exactly when \<open>c\<close> is the count
  of the last line of the feed that lists this address with at least the minimum count.\<close>

theorem IsBlocked_iff_listed:
  assumes "LoadFromReader db r = (None, ws, db')"
    and "ParseIP (TrimSpace a) = Some ip" "To4 ip = Some ip4"
  shows "IsBlocked db' a = (True, c) \<longleftrightarrow>
    (\<exists>pre l post. fst (scan_lines r) = pre @ l # post \<and>
       parse_line l = Entry (IPv4_String ip4) c \<and> minCount db \<le> c \<and>
       (\<forall>l'\<in>set post. \<forall>c'. parse_line l' = Entry (IPv4_String ip4) c' \<longrightarrow> c' < minCount db))"
proof -
  have le: "line_entry mc l = Some (i, d) \<longleftrightarrow> parse_line l = Entry i d \<and> mc \<le> d" for mc l i d
    by (auto simp: line_entry_def split: line_result.splits if_splits)
  have "IsBlocked db' a = (True, c) \<longleftrightarrow> ips db' (IPv4_String ip4) = Some c"
    using assms(2,3) by (simp add: IsBlocked_def split: option.split)
  also have "\<dots> \<longleftrightarrow> last_listed (minCount db) (fst (scan_lines r)) (IPv4_String ip4) c"
    using loadFromReader_cases(5) [OF assms(1) [unfolded LoadFromReader_def]] by simp
  finally show ?thesis unfolding last_listed_def le by (simp add: not_le)
qed

text \<open>A load reports exactly the lines it cannot use, with their numbers counted from 1;
  it fails exactly when the scanner fails, and a failed load leaves the database as it was.\<close>

lemma load_reports_and_keeps:
  assumes "LoadFromReader db r = (e, ws, db')"
  shows "(\<forall>i w. (i, w) \<in> set ws \<longleftrightarrow>
            1 \<le> i \<and> i \<le> length (fst (scan_lines r)) \<and> parse_line (fst (scan_lines r) ! (i - 1)) = Warning w) \<and>
    (e = None \<longleftrightarrow> snd (scan_lines r) = None) \<and> (e \<noteq> None \<longrightarrow> db' = db)"
proof -
  note c = loadFromReader_cases [OF assms [unfolded LoadFromReader_def]]
  let ?ls = "fst (scan_lines r)"
  have lw: "line_warning l = Some w \<longleftrightarrow> parse_line l = Warning w" for l w
    by (auto simp: line_warning_def split: line_result.splits)
  have "(i, w) \<in> set ws \<longleftrightarrow> (\<exists>l. (i, l) \<in> set (enumerate 1 ?ls) \<and> parse_line l = Warning w)" for i w
    unfolding c(2) by (force simp: List.map_filter_def lw [symmetric])
  then have "(i, w) \<in> set ws \<longleftrightarrow>
      1 \<le> i \<and> i \<le> length ?ls \<and> parse_line (?ls ! (i - 1)) = Warning w" for i w
    by (auto simp: in_set_enumerate_eq)
  then show ?thesis using c(3,4) by blast
qed

definition sample_reader :: reader where
  "sample_reader = \<lparr>feed = ''1.2.3.4 5'' @ [newline] @ ''bad'' @ [newline] @ ''1.2.3.4 2'', feed_error = None\<rparr>"

lemma sample_scan: "scan_lines sample_reader = ([''1.2.3.4 5'', ''bad'', ''1.2.3.4 2''], None)"
  by (simp add: scan_lines_def sample_reader_def raw_lines_def newline_def maxTokenSize_def dropCR_def Let_def)

lemma sample_texts:
  "TrimSpace ''1.2.3.4 5'' = ''1.2.3.4 5''" "TrimSpace ''1.2.3.4 2'' = ''1.2.3.4 2''"
  "TrimSpace ''bad'' = ''bad''" "Fields ''1.2.3.4 5'' = [''1.2.3.4'', ''5'']"
  "Fields ''1.2.3.4 2'' = [''1.2.3.4'', ''2'']" "Fields ''bad'' = [''bad'']"
  "ParseIP ''1.2.3.4'' = Some (v4_prefix @ [1, 2, 3, 4])" "Atoi ''5'' = Inr 5" "Atoi ''2'' = Inr 2"
  by code_simp+

lemma sample_parse:
  "parse_line ''1.2.3.4 5'' = Entry (IPv4_String [1, 2, 3, 4]) 5"
  "parse_line ''1.2.3.4 2'' = Entry (IPv4_String [1, 2, 3, 4]) 2"
  "parse_line ''bad'' = Warning ''bad''"
  by (simp_all add: parse_line_def sample_texts HasPrefix_def)

lemma sample_ip:
  "ParseIP (TrimSpace '' ::ffff:1.2.3.4'') = Some (v4_prefix @ [1, 2, 3, 4])"
proof -
  have "TrimSpace '' ::ffff:1.2.3.4'' = ''::ffff:1.2.3.4''" by code_simp
  moreover have "parseIPv6_loop [] (Some 0) ''ffff:1.2.3.4'' = Some ([255, 255, 1, 2, 3, 4], Some 0, [])"
    by (simp add: parseIPv6_loop.simps hex_value_def is_digit_def HasPrefix_def)
  ultimately show ?thesis
    by (simp add: ParseIP_def ParseAddr_def parseIPv6_def HasPrefix_def index_byte_def expand_ellipsis_def
        v4_prefix_def numeral_eq_Suc)
qed

lemma sample_load: "\<exists>ws db'. LoadFromReader (NewDB 3) sample_reader = (None, ws, db')"
  by (simp add: LoadFromReader_def loadFromReader_def sample_scan split: prod.split)

theorem IsBlocked_iff_listed_witness:
  "\<exists>ws db'. LoadFromReader (NewDB 3) sample_reader = (None, ws, db') \<and>
     IsBlocked db' '' ::ffff:1.2.3.4'' = (True, 5)"
proof -
  obtain ws db' where l: "LoadFromReader (NewDB 3) sample_reader = (None, ws, db')"
    using sample_load by blast
  have "To4 (v4_prefix @ [1, 2, 3, 4]) = Some [1, 2, 3, 4]" by simp
  note t = IsBlocked_iff_listed [OF l sample_ip this, of 5]
  have "IsBlocked db' '' ::ffff:1.2.3.4'' = (True, 5)"
    unfolding t sample_scan
    by (rule exI [of _ "[]"], rule exI [of _ "''1.2.3.4 5''"], rule exI [of _ "[''bad'', ''1.2.3.4 2'']"])
       (simp add: sample_parse NewDB_def)
  with l show ?thesis by blast
qed

lemma load_reports_and_keeps_witness:
  "\<exists>ws db'. LoadFromReader (NewDB 3) sample_reader = (None, ws, db') \<and> (2, ''bad'') \<in> set ws"
proof -
  obtain ws db' where l: "LoadFromReader (NewDB 3) sample_reader = (None, ws, db')"
    using sample_load by blast
  have "(2, ''bad'') \<in> set ws"
    using load_reports_and_keeps [OF l] by (simp add: sample_scan sample_parse)
  with l show ?thesis by blast
qed

end
