(* ===== verification/Geoblock.thy ===== *)
theory Geoblock
  imports Go_Net
begin

text \<open>
  \<^verbatim>\<open>pkg/geoblock/geoblock.go\<close>: blocking by country. The MaxMind reader
  (\<^verbatim>\<open>geoip2.Reader\<close>) is a parameter: \<open>City\<close> is its lookup, \<open>reader_Close\<close> the outcome of
  closing it, and opening a database path gives a reader or an error. Theory and type names carry the package where
  another package has the same name.
\<close>

record city_record =
  HasData :: bool
  ISOCode :: string

record geo_reader =
  City :: "addr \<Rightarrow> city_record result"
  reader_Close :: "error option"

record geo_DB =
  georeader :: geo_reader
  blocked :: "string set"

definition normalize_code :: "unicode_tables \<Rightarrow> string \<Rightarrow> string" where
  "normalize_code u c = ToUpper u (TrimSpace c)"

definition geo_Open :: "unicode_tables \<Rightarrow> (string \<Rightarrow> geo_reader result) \<Rightarrow> string \<Rightarrow> string list \<Rightarrow> geo_DB result" where
  "geo_Open u open_db dbPath countries =
     (case open_db dbPath of
        Inl err \<Rightarrow> Inl err
      | Inr r \<Rightarrow>
          Inr \<lparr>georeader = r,
               blocked = foldl (\<lambda>b c. let code = normalize_code u c in if code \<noteq> [] then insert code b else b)
                 {} countries\<rparr>)"

definition geo_IsBlocked :: "geo_DB \<Rightarrow> string \<Rightarrow> bool \<times> string" where
  "geo_IsBlocked db ipStr =
     (case ParseAddr (TrimSpace ipStr) of
        None \<Rightarrow> (False, [])
      | Some a \<Rightarrow>
          (case City (georeader db) a of
             Inl _ \<Rightarrow> (False, [])
           | Inr rec \<Rightarrow>
               if \<not> HasData rec then (False, [])
               else if ISOCode rec = [] then (False, [])
               else (ISOCode rec \<in> blocked db, ISOCode rec)))"

text \<open>The list comes in the order in which Go visits the map: any order will do.\<close>

definition Countries :: "geo_DB \<Rightarrow> string list \<Rightarrow> bool" where
  "Countries db codes \<longleftrightarrow> distinct codes \<and> set codes = blocked db"

definition geo_Close :: "geo_DB \<Rightarrow> error option" where
  "geo_Close db = reader_Close (georeader db)"

lemma blocked_foldl:
  "foldl (\<lambda>b c. let code = normalize_code u c in if code \<noteq> [] then insert code b else b) B cs =
     B \<union> {code. code \<noteq> [] \<and> code \<in> normalize_code u ` set cs}"
  by (induction cs arbitrary: B) (auto simp: Let_def)

text \<open>An address is blocked exactly when it parses, the database knows its country, and this
  country's code is among the configured ones after trimming and upper-casing; an empty
  configured code blocks nothing, and every lookup problem leaves the address unblocked.\<close>

lemma geo_IsBlocked_iff:
  assumes "geo_Open u open_db path countries = Inr db"
  shows "fst (geo_IsBlocked db ip) \<longleftrightarrow>
    (\<exists>a rec r. ParseAddr (TrimSpace ip) = Some a \<and> open_db path = Inr r \<and> City r a = Inr rec \<and>
       HasData rec \<and> ISOCode rec \<noteq> [] \<and> ISOCode rec \<in> normalize_code u ` set countries)"
  using assms
  by (auto simp: geo_Open_def geo_IsBlocked_def blocked_foldl split: sum.splits option.splits)

definition sample_tables :: unicode_tables where
  "sample_tables = \<lparr>IsPrint_rune = (\<lambda>r. False), ToUpper_nonASCII = (\<lambda>s. s)\<rparr>"

definition sample_geo :: geo_reader where
  "sample_geo = \<lparr>City = (\<lambda>a. Inr \<lparr>HasData = True, ISOCode = ''DE''\<rparr>), reader_Close = None\<rparr>"

lemma geo_IsBlocked_iff_witness:
  "\<exists>db. geo_Open sample_tables (\<lambda>p. Inr sample_geo) ''x.mmdb'' ['' de '', ''''] = Inr db \<and>
     fst (geo_IsBlocked db ''1.2.3.4'')"
proof -
  obtain db where o: "geo_Open sample_tables (\<lambda>p. Inr sample_geo) ''x.mmdb'' ['' de '', ''''] = Inr db"
    by (simp add: geo_Open_def)
  have "ParseAddr (TrimSpace ''1.2.3.4'') = Some (V4 [1, 2, 3, 4])" by code_simp
  moreover have "normalize_code sample_tables '' de '' = ''DE''" by code_simp
  ultimately have "fst (geo_IsBlocked db ''1.2.3.4'')"
    unfolding geo_IsBlocked_iff [OF o] by (simp add: sample_geo_def image_iff)
  with o show ?thesis by blast
qed

end
