(* ===== verification/Server.thy ===== *)
theory Server
  imports ClientConn Logger Ipsum Geoblock
begin

text \<open>
  \<^verbatim>\<open>pkg/broker/server.go\<close>: the broker. This theory has every function of the file, each run
  without interruption; where another goroutine can run in between, the function is composed of
  pieces that are atomic (\<open>listener_register\<close>, \<open>relay_receive\<close>, \<open>relay_send\<close>, ...), and
  \<open>Broker_Concurrent\<close> interleaves these same pieces.

  Lines written with \<^verbatim>\<open>log.Printf\<close> to standard error have no effect in the model; the
  security log does.
\<close>

definition DefaultMaxConnections :: nat where "DefaultMaxConnections = 1024"
definition maxLogPayloadBytes :: nat where "maxLogPayloadBytes = 256"
definition logTagAuth :: string where "logTagAuth = ''AUTH''"
definition logTagRouting :: string where "logTagRouting = ''ROUTING''"
definition logTagIPBlock :: string where "logTagIPBlock = ''IPBLOCK''"
definition logTagGeoBlock :: string where "logTagGeoBlock = ''GEOBLOCK''"

text \<open>
  \<open>connSem\<close> counts the slots in use, \<open>listener\<close> is the address of the listener and \<open>accepting\<close> whether it is open, \<open>beats\<close> are
  the clients whose heartbeat goroutine runs, \<open>disk\<close> and \<open>wall\<close> are the file system and the
  wall clock the logger uses. A \<^verbatim>\<open>nil\<close> passphrase hash is the empty list.
\<close>

record server =
  address :: string
  hub :: hub
  listener :: "string option"
  accepting :: bool
  clients :: "cid set"
  connSem :: nat
  closeCh :: bool
  passphraseHash :: bytes
  slogger :: "logger option"
  ipFilter :: "DB option"
  geoFilter :: "geo_DB option"
  beats :: "cid set"
  disk :: file_system
  wall :: go_time

type_synonym ServerOption = "server \<Rightarrow> server"

definition WithPassphrase :: "string \<Rightarrow> ServerOption" where
  "WithPassphrase passphrase s = s\<lparr>passphraseHash := sha256_Sum256 (bytes_of_string passphrase)\<rparr>"

definition WithLogger :: "logger option \<Rightarrow> ServerOption" where
  "WithLogger l s = s\<lparr>slogger := l\<rparr>"

definition WithIPFilter :: "DB option \<Rightarrow> ServerOption" where
  "WithIPFilter db s = s\<lparr>ipFilter := db\<rparr>"

definition WithGeoFilter :: "geo_DB option \<Rightarrow> ServerOption" where
  "WithGeoFilter db s = s\<lparr>geoFilter := db\<rparr>"

definition NewServer :: "file_system \<Rightarrow> go_time \<Rightarrow> int \<Rightarrow> string \<Rightarrow> ServerOption list \<Rightarrow> server" where
  "NewServer fs w t addr opts =
     (let s0 = \<lparr>address = addr, hub = \<lparr>router = NewRouter, heap = [], now = t\<rparr>, listener = None, accepting = False,
                clients = {}, connSem = 0, closeCh = False, passphraseHash = [], slogger = None,
                ipFilter = None, geoFilter = None, beats = {}, disk = fs, wall = w\<rparr>;
          s1 = foldl (\<lambda>s opt. opt s) s0 opts
      in if passphraseHash s1 = [] then s1\<lparr>passphraseHash := sha256_Sum256 (bytes_of_string '''')\<rparr>
         else s1)"

definition set_hub :: "server \<Rightarrow> hub \<Rightarrow> server" where
  "set_hub s h = s\<lparr>hub := h\<rparr>"

text \<open>\<^verbatim>\<open>net.Listen\<close> gives the bound address or an error.\<close>

definition Start :: "(string \<Rightarrow> string result) \<Rightarrow> server \<Rightarrow> error option \<times> server" where
  "Start listen s =
     (case listen (address s) of
        Inl err \<Rightarrow> (Some (Wrapf (''failed to listen on '' @ address s) err), s)
      | Inr bound \<Rightarrow> (None, s\<lparr>listener := Some bound, accepting := True\<rparr>))"

definition Address :: "server \<Rightarrow> string" where
  "Address s = (case listener s of Some a \<Rightarrow> a | None \<Rightarrow> address s)"

subsection \<open>The security log\<close>

definition security_warn :: "server \<Rightarrow> string \<Rightarrow> string \<Rightarrow> server" where
  "security_warn s tag msg =
     (case slogger s of
        None \<Rightarrow> s
      | Some l \<Rightarrow> s\<lparr>disk := snd (Warn l (wall s) (disk s) tag msg)\<rparr>)"

definition logInvalidAuthPayload :: "server \<Rightarrow> cid \<Rightarrow> bytes \<Rightarrow> server" where
  "logInvalidAuthPayload s c rawBytes =
     security_warn s logTagAuth
       (''invalid auth payload from '' @ RemoteAddr (hub s) c @ '': '' @
        EncodeToString (if length rawBytes > maxLogPayloadBytes then take maxLogPayloadBytes rawBytes else rawBytes))"

definition logPassphraseMismatch :: "server \<Rightarrow> cid \<Rightarrow> server" where
  "logPassphraseMismatch s c =
     security_warn s logTagAuth (''passphrase mismatch from '' @ RemoteAddr (hub s) c)"

definition logInvalidConnectionID :: "broker_env \<Rightarrow> server \<Rightarrow> cid \<Rightarrow> string \<Rightarrow> server" where
  "logInvalidConnectionID E s c i =
     security_warn s logTagRouting
       (''invalid connection ID '' @ Quote (env_tables E) i @ '' from '' @ RemoteAddr (hub s) c)"

definition logBlockedIP :: "server \<Rightarrow> string \<Rightarrow> int \<Rightarrow> server" where
  "logBlockedIP s remoteAddr count =
     security_warn s logTagIPBlock
       (''blocked connection from '' @ remoteAddr @ '' (ipsum count='' @ Itoa count @ '')'')"

definition logGeoBlockedIP :: "server \<Rightarrow> string \<Rightarrow> string \<Rightarrow> server" where
  "logGeoBlockedIP s remoteAddr countryCode =
     security_warn s logTagGeoBlock
       (''blocked connection from '' @ remoteAddr @ '' (country='' @ countryCode @ '')'')"

subsection \<open>Accepting connections\<close>

datatype accepted =
    Return
  | Continue
  | Rejected net_conn
  | Spawn net_conn

text \<open>The two filter tests, each \<^term>\<open>Some\<close> of the state after the log entry when it blocks.\<close>

definition ip_blocked :: "server \<Rightarrow> string \<Rightarrow> server option" where
  "ip_blocked s addr =
     (case ipFilter s of
        None \<Rightarrow> None
      | Some db \<Rightarrow>
          (case SplitHostPort addr of
             Inl _ \<Rightarrow> None
           | Inr (ip, _) \<Rightarrow>
               (case IsBlocked db ip of
                  (True, count) \<Rightarrow> Some (logBlockedIP s addr count)
                | (False, _) \<Rightarrow> None)))"

definition geo_blocked :: "server \<Rightarrow> string \<Rightarrow> server option" where
  "geo_blocked s addr =
     (case geoFilter s of
        None \<Rightarrow> None
      | Some db \<Rightarrow>
          (case SplitHostPort addr of
             Inl _ \<Rightarrow> None
           | Inr (ip, _) \<Rightarrow>
               (case geo_IsBlocked db ip of
                  (True, code) \<Rightarrow> Some (logGeoBlockedIP s addr code)
                | (False, _) \<Rightarrow> None)))"

text \<open>One round of \<^verbatim>\<open>acceptLoop\<close>; \<open>Spawn\<close> starts the handler goroutine, which owns a slot.\<close>

definition acceptLoop_round :: "server \<Rightarrow> (net_conn \<times> string) result \<Rightarrow> accepted \<times> server" where
  "acceptLoop_round s acc =
     (case acc of
        Inl _ \<Rightarrow> (if closeCh s then (Return, s) else (Continue, s))
      | Inr (cn, addr) \<Rightarrow>
          (case ip_blocked s addr of
             Some s1 \<Rightarrow> (Rejected (conn_Close cn), s1)
           | None \<Rightarrow>
               (case geo_blocked s addr of
                  Some s2 \<Rightarrow> (Rejected (conn_Close cn), s2)
                | None \<Rightarrow>
                    if connSem s < DefaultMaxConnections then (Spawn cn, s\<lparr>connSem := connSem s + 1\<rparr>)
                    else (Rejected (conn_Close cn), s))))"

definition release_slot :: "server \<Rightarrow> server" where
  "release_slot s = s\<lparr>connSem := connSem s - 1\<rparr>"

definition trackClient :: "server \<Rightarrow> cid \<Rightarrow> server" where
  "trackClient s c = s\<lparr>clients := insert c (clients s)\<rparr>"

definition untrackClient :: "server \<Rightarrow> cid \<Rightarrow> server" where
  "untrackClient s c = s\<lparr>clients := clients s - {c}\<rparr>"

subsection \<open>Authentication\<close>

text \<open>\<^verbatim>\<open>subtle.ConstantTimeCompare\<close>.\<close>

definition ConstantTimeCompare :: "bytes \<Rightarrow> bytes \<Rightarrow> nat" where
  "ConstantTimeCompare x y =
     (if length x \<noteq> length y then 0
      else if foldl (\<lambda>v (a, b). v OR (a XOR b)) 0 (zip x y) = 0 then 1 else 0)"

definition authenticateClient :: "broker_env \<Rightarrow> server \<Rightarrow> cid \<Rightarrow> error option \<times> server" where
  "authenticateClient E s c =
     (case conn_SetReadDeadline (conn (sess_of (hub s) c)) of
        Some err \<Rightarrow> (Some (Wrapf ''failed to set auth deadline'' err), set_hub s (cc_conn_Close c (hub s)))
      | None \<Rightarrow>
     (case cc_ReceiveRaw E (hub s) c of (rawBytes, received, h1) \<Rightarrow>
     let s1 = set_hub s h1
     in case received of
          Inl err \<Rightarrow>
            let s2 = logInvalidAuthPayload s1 c rawBytes
            in (Some (Wrapf ''failed to receive auth message'' err), set_hub s2 (cc_conn_Close c (hub s2)))
        | Inr e \<Rightarrow>
     (case conn_SetReadDeadline (conn (sess_of (hub s1) c)) of
        Some err \<Rightarrow> (Some (Wrapf ''failed to clear auth deadline'' err), set_hub s1 (cc_conn_Close c (hub s1)))
      | None \<Rightarrow>
     (case GetAuthenticate e of
        None \<Rightarrow>
          let s2 = logInvalidAuthPayload s1 c rawBytes
          in (Some (Errorf (''expected Authenticate, got '' @ payload_type e)), set_hub s2 (cc_conn_Close c (hub s2)))
      | Some auth \<Rightarrow>
     if ConstantTimeCompare (Authenticate_GetPassphraseHash (Some auth)) (passphraseHash s1) \<noteq> 1
     then let s2 = logPassphraseMismatch s1 c
          in (Some (Errorf ''passphrase mismatch''), set_hub s2 (cc_conn_Close c (hub s2)))
     else (None, s1)))))"

subsection \<open>The relay\<close>

datatype relay_in = RelayFail | RelaySkip | RelayForward Envelope

text \<open>Receive, note the time, drop heartbeats.\<close>

definition relay_receive :: "broker_env \<Rightarrow> server \<Rightarrow> cid \<Rightarrow> relay_in \<times> server" where
  "relay_receive E s c =
     (case cc_Receive E (hub s) c of
        (Inl _, h1) \<Rightarrow> (RelayFail, set_hub s h1)
      | (Inr e, h1) \<Rightarrow>
          let s1 = set_hub s (UpdateLastSeen c h1)
          in if GetHeartbeat e \<noteq> None then (RelaySkip, s1) else (RelayForward e, s1))"

definition relay_send :: "broker_env \<Rightarrow> server \<Rightarrow> cid \<Rightarrow> Envelope \<Rightarrow> error option \<times> server" where
  "relay_send E s p e = (case cc_Send E (hub s) p e of (r, h) \<Rightarrow> (r, set_hub s h))"

definition close_client :: "broker_env \<Rightarrow> server \<Rightarrow> cid \<Rightarrow> server" where
  "close_client E s c = set_hub s (cc_Close E c (hub s))"

text \<open>One round of the loop of \<^verbatim>\<open>relayMessages\<close>: whether it goes on, and the state.\<close>

definition relay_round :: "broker_env \<Rightarrow> server \<Rightarrow> cid \<Rightarrow> bool \<times> server" where
  "relay_round E s c =
     (case relay_receive E s c of
        (RelayFail, s1) \<Rightarrow> (False, close_client E s1 c)
      | (RelaySkip, s1) \<Rightarrow> (True, s1)
      | (RelayForward e, s1) \<Rightarrow>
          (case GetPeer (router (hub s1)) c of
             None \<Rightarrow> (False, close_client E s1 c)
           | Some p \<Rightarrow>
               (case relay_send E s1 p e of
                  (Some _, s2) \<Rightarrow> (False, close_client E s2 c)
                | (None, s2) \<Rightarrow> (True, s2))))"

text \<open>What is still unread on a client's connection.\<close>

definition unread :: "hub \<Rightarrow> cid \<Rightarrow> nat" where
  "unread h c = length (rx (conn (sess_of h c)))"

lemma sess_cc_upd:
  "d < length (heap h) \<Longrightarrow>
    sess_of (cc_upd c f h) d = (if d = c then cc_session (f (heap h ! d)) else sess_of h d)"
  by (simp add: sess_of_def cc_upd_nth)

lemma cc_Send_heap:
  assumes "cc_Send E h p e = (r, h')" "d < length (heap h)"
  shows "heap h' ! d =
    (if d = p then (heap h ! p)\<lparr>cc_session := snd (Send (env_codec E) (sess_of h p) e)\<rparr> else heap h ! d)"
  using assms by (auto simp: cc_Send_def cc_upd_nth split: prod.splits)

lemma cc_Send_unread:
  assumes "cc_Send E h p e = (r, h')" "d < length (heap h)"
  shows "unread h' d = unread h d"
proof -
  obtain x s' where s: "Send (env_codec E) (sess_of h p) e = (x, s')"
    by (cases "Send (env_codec E) (sess_of h p) e")
  then show ?thesis
    using Send_conn(1) [OF s] cc_Send_heap [OF assms] by (simp add: s unread_def sess_of_def)
qed

lemma cc_Receive_heap:
  assumes "cc_Receive E h c = (r, h')" "d < length (heap h)"
  shows "heap h' ! d =
    (if d = c then (heap h ! c)\<lparr>cc_session := snd (Receive (env_codec E) (sess_of h c))\<rparr> else heap h ! d)"
  using assms by (auto simp: cc_Receive_def cc_upd_nth split: prod.splits)

lemma cc_Receive_unread:
  assumes "cc_Receive E h c = (Inr e, h')" "c < length (heap h)"
  shows "unread h' c < unread h c"
proof -
  obtain s' where "Receive (env_codec E) (sess_of h c) = (Inr e, s')"
    using assms(1) by (auto simp: cc_Receive_def split: prod.splits)
  then show ?thesis
    using cc_Receive_heap [OF assms] Receive_conn(5) [of "env_codec E" "sess_of h c" "Inr e" s' e]
    by (simp add: unread_def sess_of_def)
qed

lemma UpdateLastSeen_facts [simp]:
  "unread (UpdateLastSeen c h) d = unread h d" "length (heap (UpdateLastSeen c h)) = length (heap h)"
  "router (UpdateLastSeen c h) = router h" "live (UpdateLastSeen c h) = live h"
  "sess_of (UpdateLastSeen c h) d = sess_of h d" "now (UpdateLastSeen c h) = now h"
proof -
  show "sess_of (UpdateLastSeen c h) d = sess_of h d"
    by (cases "c < length (heap h)"; cases "d = c") (simp_all add: sess_of_def UpdateLastSeen_def cc_upd_def list_update_beyond)
  then show "unread (UpdateLastSeen c h) d = unread h d" by (simp add: unread_def)
qed (simp_all add: UpdateLastSeen_def live_cc_upd)

lemma set_hub_simps [simp]:
  "hub (set_hub s h) = h" "set_hub (set_hub s h) h' = set_hub s h'" "clients (set_hub s h) = clients s"
  "connSem (set_hub s h) = connSem s" "closeCh (set_hub s h) = closeCh s"
  "passphraseHash (set_hub s h) = passphraseHash s" "beats (set_hub s h) = beats s"
  "disk (set_hub s h) = disk s" "slogger (set_hub s h) = slogger s" "wall (set_hub s h) = wall s"
  by (simp_all add: set_hub_def)

lemma relay_round_progress:
  assumes "relay_round E s c = (True, s')" "c < length (heap (hub s))"
  shows "unread (hub s') c < unread (hub s) c" "length (heap (hub s')) = length (heap (hub s))"
proof -
  from assms(1) obtain e h1 where r: "cc_Receive E (hub s) c = (Inr e, h1)"
    by (auto simp: relay_round_def relay_receive_def Let_def split: prod.splits sum.splits relay_in.splits if_splits)
  note lt = cc_Receive_unread [OF r assms(2)] and len = cc_Receive_facts(3) [OF r]
  let ?s1 = "set_hub s (UpdateLastSeen c h1)"
  show "unread (hub s') c < unread (hub s) c" "length (heap (hub s')) = length (heap (hub s))"
  proof -
    have "(unread (hub s') c < unread (hub s) c) \<and> length (heap (hub s')) = length (heap (hub s))"
    proof (cases "GetHeartbeat e")
      case (Some x)
      with assms(1) r have "s' = ?s1" by (simp add: relay_round_def relay_receive_def)
      with lt len show ?thesis by simp
    next
      case None
      with assms(1) r obtain p h2 where "cc_Send E (UpdateLastSeen c h1) p e = (None, h2)" "s' = set_hub s h2"
        by (auto simp: relay_round_def relay_receive_def relay_send_def split: option.splits prod.splits)
      with lt len assms(2) show ?thesis
        using cc_Send_unread [of E "UpdateLastSeen c h1" p e None h2 c] cc_Send_facts(3) by fastforce
    qed
    then show "unread (hub s') c < unread (hub s) c" "length (heap (hub s')) = length (heap (hub s))" by auto
  qed
qed

text \<open>The loop: every round that goes on has consumed a frame, so with no new input it ends.
  A \<open>c\<close> that is no client (no such pointer exists) stops at once.\<close>

function relayMessages :: "broker_env \<Rightarrow> server \<Rightarrow> cid \<Rightarrow> server" where
  "relayMessages E s c =
     (if length (heap (hub s)) \<le> c then s
      else case relay_round E s c of
        (True, s1) \<Rightarrow> relayMessages E s1 c
      | (False, s1) \<Rightarrow> s1)"
  by pat_completeness auto
termination
  by (relation "measure (\<lambda>(E, s, c). unread (hub s) c)")
     (auto simp: not_le intro!: relay_round_progress(1))

declare relayMessages.simps [simp del]

subsection \<open>The handler goroutine\<close>

definition register_ack :: "bool \<Rightarrow> Envelope" where
  "register_ack ok = env (Envelope_RegisterAck
     \<lparr>RegisterAck_Success = ok, RegisterAck_Message = (if ok then ''registered'' else ''registration failed'')\<rparr>)"

definition connect_ack :: "bool \<Rightarrow> Envelope" where
  "connect_ack ok = env (Envelope_ConnectAck
     \<lparr>ConnectAck_Success = ok, ConnectAck_Message = (if ok then ''connected'' else ''connection failed'')\<rparr>)"

definition send_to :: "broker_env \<Rightarrow> server \<Rightarrow> cid \<Rightarrow> Envelope \<Rightarrow> server" where
  "send_to E s c e = set_hub s (snd (cc_Send E (hub s) c e))"

definition StartHeartbeat :: "server \<Rightarrow> cid \<Rightarrow> server" where
  "StartHeartbeat s c = s\<lparr>beats := insert c (beats s)\<rparr>"

definition listener_register :: "server \<Rightarrow> cid \<Rightarrow> string \<Rightarrow> error option \<times> server" where
  "listener_register s c i =
     (let h1 = SetConnectionID c i (hub s)
      in case RegisterListener (router h1) i c of
           (r, rt) \<Rightarrow> (r, set_hub s (h1\<lparr>router := rt\<rparr>)))"

definition listener_reject :: "broker_env \<Rightarrow> server \<Rightarrow> cid \<Rightarrow> string \<Rightarrow> server" where
  "listener_reject E s c i = send_to E (logInvalidConnectionID E s c i) c (register_ack False)"

definition listener_ack :: "broker_env \<Rightarrow> server \<Rightarrow> cid \<Rightarrow> server" where
  "listener_ack E s c = StartHeartbeat (send_to E s c (register_ack True)) c"

definition handleListener :: "broker_env \<Rightarrow> server \<Rightarrow> cid \<Rightarrow> string \<Rightarrow> server" where
  "handleListener E s c i =
     (case listener_register s c i of
        (Some _, s1) \<Rightarrow> close_client E (listener_reject E s1 c i) c
      | (None, s1) \<Rightarrow> relayMessages E (listener_ack E s1 c) c)"

definition connector_link :: "server \<Rightarrow> cid \<Rightarrow> string \<Rightarrow> error option \<times> server" where
  "connector_link s c i =
     (let h1 = SetConnectionID c i (hub s)
      in case LinkConnector (router h1) i c of
           (r, rt) \<Rightarrow> (r, set_hub s (h1\<lparr>router := rt\<rparr>)))"

definition connector_reject :: "broker_env \<Rightarrow> server \<Rightarrow> cid \<Rightarrow> string \<Rightarrow> server" where
  "connector_reject E s c i = send_to E (logInvalidConnectionID E s c i) c (connect_ack False)"

definition connector_ack :: "broker_env \<Rightarrow> server \<Rightarrow> cid \<Rightarrow> server" where
  "connector_ack E s c = StartHeartbeat (send_to E s c (connect_ack True)) c"

definition handleConnector :: "broker_env \<Rightarrow> server \<Rightarrow> cid \<Rightarrow> string \<Rightarrow> server" where
  "handleConnector E s c i =
     (case connector_link s c i of
        (Some _, s1) \<Rightarrow> close_client E (connector_reject E s1 c i) c
      | (None, s1) \<Rightarrow> relayMessages E (connector_ack E s1 c) c)"

datatype role = NoMessage | Listener string | Connector string | Unexpected

definition first_message :: "broker_env \<Rightarrow> server \<Rightarrow> cid \<Rightarrow> role \<times> server" where
  "first_message E s c =
     (case cc_Receive E (hub s) c of
        (Inl _, h1) \<Rightarrow> (NoMessage, set_hub s h1)
      | (Inr e, h1) \<Rightarrow>
          let s1 = set_hub s (UpdateLastSeen c h1)
          in if GetRegister e \<noteq> None then (Listener (Register_GetConnectionId (GetRegister e)), s1)
             else if GetConnectRequest e \<noteq> None
               then (Connector (ConnectRequest_GetConnectionId (GetConnectRequest e)), s1)
             else (Unexpected, s1))"

definition unexpected_reject :: "broker_env \<Rightarrow> server \<Rightarrow> cid \<Rightarrow> server" where
  "unexpected_reject E s c =
     send_to E s c (env (Envelope_ErrorMsg
       \<lparr>ErrorMsg_Message = ''expected Register or ConnectRequest as first message''\<rparr>))"

definition new_client :: "broker_env \<Rightarrow> bytes result \<Rightarrow> bool \<Rightarrow> server \<Rightarrow> net_conn \<Rightarrow> string \<Rightarrow> cid result \<times> net_conn \<times> server" where
  "new_client E rand sent s cn addr =
     (case NewClientConn E rand sent (hub s) cn addr of
        (Inl err, cn', h) \<Rightarrow> (Inl err, conn_Close cn', set_hub s h)
      | (Inr c, cn', h) \<Rightarrow> (Inr c, cn', trackClient (set_hub s h) c))"

definition handleClient :: "broker_env \<Rightarrow> bytes result \<Rightarrow> bool \<Rightarrow> server \<Rightarrow> net_conn \<Rightarrow> string \<Rightarrow> server" where
  "handleClient E rand sent s cn addr =
     (case new_client E rand sent s cn addr of
        (Inl _, _, s1) \<Rightarrow> s1
      | (Inr c, _, s1) \<Rightarrow>
          (case authenticateClient E s1 c of
             (Some _, s2) \<Rightarrow> untrackClient s2 c
           | (None, s2) \<Rightarrow>
               (case first_message E s2 c of
                  (NoMessage, s3) \<Rightarrow> untrackClient (close_client E s3 c) c
                | (Listener i, s3) \<Rightarrow> untrackClient (handleListener E s3 c i) c
                | (Connector i, s3) \<Rightarrow> untrackClient (handleConnector E s3 c i) c
                | (Unexpected, s3) \<Rightarrow> untrackClient (close_client E (unexpected_reject E s3 c) c) c)))"

text \<open>\<^verbatim>\<open>Stop\<close>; \<open>order\<close> is the order in which Go visits the client set.\<close>

definition Stop :: "broker_env \<Rightarrow> cid list \<Rightarrow> server \<Rightarrow> server" where
  "Stop E order s = foldl (close_client E) (s\<lparr>closeCh := True, accepting := False\<rparr>) order"

subsection \<open>Authentication admits exactly the right passphrase\<close>

lemma foldl_or_zero:
  "foldl (\<lambda>v (a, b). v OR (a XOR b)) v ps = (0 :: byte) \<longleftrightarrow> v = 0 \<and> (\<forall>(a, b)\<in>set ps. a = b)"
proof (induction ps arbitrary: v)
  case (Cons p ps)
  obtain a b where p: "p = (a, b)" by (cases p)
  have "v OR (a XOR b) = 0 \<longleftrightarrow> v = 0 \<and> a = b"
  proof
    assume "v OR (a XOR b) = 0"
    then have "\<not> bit (v OR (a XOR b)) n" for n by simp
    then have "\<not> bit v n" "bit a n = bit b n" for n by (auto simp: bit_or_iff bit_xor_iff)
    then show "v = 0 \<and> a = b" by (auto intro: bit_eqI)
  qed simp
  with Cons p show ?case by auto
qed simp

lemma ConstantTimeCompare_eq [simp]: "ConstantTimeCompare x y = Suc 0 \<longleftrightarrow> x = y"
proof (cases "length x = length y")
  case True
  then have "(\<forall>(a, b)\<in>set (zip x y). a = b) \<longleftrightarrow> x = y"
    by (induction x y rule: list_induct2) auto
  then show ?thesis using True by (auto simp: ConstantTimeCompare_def foldl_or_zero)
qed (auto simp: ConstantTimeCompare_def)

lemma security_warn_hub [simp]:
  "hub (security_warn s tag msg) = hub s" "passphraseHash (security_warn s tag msg) = passphraseHash s"
  "clients (security_warn s tag msg) = clients s" "connSem (security_warn s tag msg) = connSem s"
  "closeCh (security_warn s tag msg) = closeCh s" "beats (security_warn s tag msg) = beats s"
  by (simp_all add: security_warn_def split: option.split)

lemmas log_defs =
  logInvalidAuthPayload_def logPassphraseMismatch_def logInvalidConnectionID_def logBlockedIP_def logGeoBlockedIP_def

lemma conn_closed_conn_Close [simp]:
  "c < length (heap h) \<Longrightarrow> conn_closed (conn (sess_of (cc_conn_Close c h) c))"
  by (simp add: cc_conn_Close_def sess_cc_upd conn_Close_def)

lemma cc_ReceiveRaw_Receive:
  "cc_ReceiveRaw E h c = (raw, r, h') \<Longrightarrow> cc_Receive E h c = (r, h')"
  by (auto simp: cc_ReceiveRaw_def cc_Receive_def Receive_def split: prod.splits)

lemma cc_Receive_open:
  assumes "cc_Receive E h c = (Inr e, h')" "c < length (heap h)"
  shows "\<not> conn_closed (conn (sess_of h c))" "\<not> conn_closed (conn (sess_of h' c))"
proof -
  obtain s' where s': "Receive (env_codec E) (sess_of h c) = (Inr e, s')"
    using assms(1) by (auto simp: cc_Receive_def split: prod.splits)
  then have "sess_of h' c = s'" using cc_Receive_heap [OF assms] by (simp add: sess_of_def)
  then show "\<not> conn_closed (conn (sess_of h c))" "\<not> conn_closed (conn (sess_of h' c))"
    using Receive_conn(2,6) [OF s'] by simp_all
qed

text \<open>The outcomes of \<open>authenticateClient\<close>.\<close>

lemma authenticateClient_cases:
  assumes "authenticateClient E s c = (r, s')" "c < length (heap (hub s))"
  obtains (ok) e h1 where "r = None" "cc_Receive E (hub s) c = (Inr e, h1)" "s' = set_hub s h1"
      "GetAuthenticate e = Some \<lparr>Authenticate_PassphraseHash = passphraseHash s\<rparr>"
  | (refused) err where "r = Some err" "conn_closed (conn (sess_of (hub s') c))"
      "\<And>e h1 m. cc_Receive E (hub s) c = (Inr e, h1) \<Longrightarrow> GetAuthenticate e = Some m \<Longrightarrow>
         m \<noteq> \<lparr>Authenticate_PassphraseHash = passphraseHash s\<rparr>"
proof (cases "conn_closed (conn (sess_of (hub s) c))")
  case True
  with assms have "r \<noteq> None" "conn_closed (conn (sess_of (hub s') c))"
    by (auto simp: authenticateClient_def conn_SetReadDeadline_def)
  moreover have "cc_Receive E (hub s) c \<noteq> (Inr e, h1)" for e h1
    using True cc_Receive_open(1) [OF _ assms(2)] by blast
  ultimately show ?thesis using refused by blast
next
  case alive: False
  obtain raw x h1 where rr: "cc_ReceiveRaw E (hub s) c = (raw, x, h1)"
    by (cases "cc_ReceiveRaw E (hub s) c")
  note r = cc_ReceiveRaw_Receive [OF rr] and len = cc_ReceiveRaw_facts(3) [OF rr]
  show ?thesis
  proof (cases x)
    case (Inl err)
    with assms rr alive len have "r \<noteq> None" "conn_closed (conn (sess_of (hub s') c))"
      by (auto simp: authenticateClient_def conn_SetReadDeadline_def Let_def log_defs)
    with r Inl show ?thesis using refused by auto
  next
    case (Inr e)
    with r have open1: "\<not> conn_closed (conn (sess_of h1 c))" using cc_Receive_open(2) assms(2) by blast
    show ?thesis
    proof (cases "GetAuthenticate e = Some \<lparr>Authenticate_PassphraseHash = passphraseHash s\<rparr>")
      case True
      with assms rr alive Inr open1 have "r = None" "s' = set_hub s h1"
        by (auto simp: authenticateClient_def conn_SetReadDeadline_def Let_def Authenticate_GetPassphraseHash_def)
      with True Inr r show ?thesis using ok by blast
    next
      case False
      then have "GetAuthenticate e = Some m \<Longrightarrow> Authenticate_PassphraseHash m \<noteq> passphraseHash s" for m
        by (cases m) auto
      with assms rr alive Inr open1 len have "r \<noteq> None" "conn_closed (conn (sess_of (hub s') c))"
        by (auto simp: authenticateClient_def conn_SetReadDeadline_def Let_def log_defs
            Authenticate_GetPassphraseHash_def split: option.splits if_splits)
      with False Inr r show ?thesis using refused by auto
    qed
  qed
qed

lemma authenticateClient_frame:
  assumes "authenticateClient E s c = (r, s')"
  shows "router (hub s') = router (hub s) \<and> live (hub s') = live (hub s)"
proof -
  obtain raw x h1 where rr: "cc_ReceiveRaw E (hub s) c = (raw, x, h1)" by (cases "cc_ReceiveRaw E (hub s) c")
  have "hub (snd (authenticateClient E s c)) \<in> {cc_conn_Close c (hub s), cc_conn_Close c h1, h1}"
    unfolding authenticateClient_def rr Let_def
    by (auto simp only: split_conv snd_conv set_hub_simps(1) security_warn_hub log_defs split: option.split sum.split if_split)
  then have "hub s' \<in> {cc_conn_Close c (hub s), cc_conn_Close c h1, h1}" using assms by simp
  then consider "hub s' = cc_conn_Close c (hub s)" | "hub s' = cc_conn_Close c h1" | "hub s' = h1" by blast
  then show ?thesis using cc_ReceiveRaw_facts(1,2) [OF rr] by cases (simp_all only: live_conn_Close router_conn_Close)
qed

text \<open>C16: a client passes authentication exactly when the first message it sends is an
  Authenticate message carrying the SHA-256 of the configured passphrase; every other client (no
  message, another message, a wrong hash) has its connection closed. In both cases the router and
  the set of live clients are untouched.\<close>

theorem authenticateClient_iff:
  assumes "c < length (heap (hub s))" "authenticateClient E s c = (r, s')"
    and "passphraseHash s = passphraseHash (NewServer fs w t addr [WithPassphrase pw])"
  shows "(r = None \<longleftrightarrow>
      (\<exists>h1. cc_Receive E (hub s) c =
         (Inr (env (Envelope_Authenticate \<lparr>Authenticate_PassphraseHash = sha256_Sum256 (bytes_of_string pw)\<rparr>)), h1))) \<and>
    (r \<noteq> None \<longrightarrow> conn_closed (conn (sess_of (hub s') c))) \<and>
    router (hub s') = router (hub s) \<and> live (hub s') = live (hub s)"
proof -
  have "length (sha256_Sum256 m) = 32" for m
    by simp
  then have "sha256_Sum256 m \<noteq> []" for m by (metis list.size(3) zero_neq_numeral)
  then have pw: "passphraseHash s = sha256_Sum256 (bytes_of_string pw)"
    using assms(3) by (simp add: NewServer_def WithPassphrase_def Let_def)
  have e_iff: "GetAuthenticate e = Some m \<longleftrightarrow> e = env (Envelope_Authenticate m)" for e m
    by (cases e) (simp add: GetAuthenticate_iff)
  have "router (hub s') = router (hub s) \<and> live (hub s') = live (hub s)"
    by (rule authenticateClient_frame [OF assms(2)])
  moreover have "(r = None \<longleftrightarrow>
      (\<exists>h1. cc_Receive E (hub s) c = (Inr (env (Envelope_Authenticate \<lparr>Authenticate_PassphraseHash = passphraseHash s\<rparr>)), h1))) \<and>
    (r \<noteq> None \<longrightarrow> conn_closed (conn (sess_of (hub s') c)))"
    using assms(2,1)
  proof (cases rule: authenticateClient_cases)
    case (ok e h1)
    then have "e = env (Envelope_Authenticate \<lparr>Authenticate_PassphraseHash = passphraseHash s\<rparr>)"
      by (simp only: e_iff)
    with ok show ?thesis by blast
  next
    case (refused err)
    then show ?thesis using e_iff by blast
  qed
  ultimately show ?thesis unfolding pw by blast
qed

subsection \<open>The relay forwards everything, in order\<close>

text \<open>The outgoing link of a client: its session with what it has written delivered to the
  receiver's session \<open>b\<close>.\<close>

definition outgoing :: "codec \<Rightarrow> session \<Rightarrow> session \<Rightarrow> session_link" where
  "outgoing cd sp b =
     (cd, sp\<lparr>conn := (conn sp)\<lparr>tx := []\<rparr>\<rparr>, b\<lparr>conn := (conn b)\<lparr>rx := rx (conn b) @ tx (conn sp)\<rparr>\<rparr>)"

lemma outgoing_idle: "tx (conn sp) = [] \<Longrightarrow> outgoing cd sp b = (cd, sp, b)"
  by (simp add: outgoing_def)

lemma Send_outgoing:
  assumes "in_sync (outgoing cd sp b)" "healthy (conn sp)" "Marshal cd e = Inr d" "length d \<le> max_plaintext"
  shows "\<exists>sp'. Send cd sp e = (None, sp') \<and> healthy (conn sp') \<and> in_sync (outgoing cd sp' b) \<and>
    in_flight (outgoing cd sp' b) = in_flight (outgoing cd sp b) @ [e]"
proof -
  obtain key where key: "gcm (sendEnc sp) = aes_NewGCM key"
    using assms(1) by (auto simp: in_sync_def outgoing_def)
  define sp' where "sp' = snd (Send cd sp e)"
  have s: "Send cd sp e = (None, sp')"
    using Send_healthy [OF assms(2-4) key] by (simp add: sp'_def)
  have h: "healthy (conn sp')"
    using Send_healthy [OF assms(2-4) key] assms(2) by (simp add: sp'_def)
  have "healthy (conn (sp\<lparr>conn := (conn sp)\<lparr>tx := []\<rparr>\<rparr>))" using assms(2) by simp
  then have "link_push (outgoing cd sp b) e = Some (outgoing cd sp' b)"
    using Send_healthy [of "sp\<lparr>conn := (conn sp)\<lparr>tx := []\<rparr>\<rparr>" cd e d key] Send_healthy [OF assms(2-4) key] assms(3,4) key
    by (simp add: link_push_def outgoing_def deliver_def sp'_def)
  then show ?thesis
    using s h sess.push_flight [OF assms(1)] sess.push_sound [OF assms(1)] by blast
qed

text \<open>A client whose peer has a link to the receiving program's session \<open>b\<close>.\<close>

definition relay_link :: "broker_env \<Rightarrow> server \<Rightarrow> cid \<Rightarrow> cid \<Rightarrow> session \<Rightarrow> bool" where
  "relay_link E s c p b \<longleftrightarrow>
     order_ok E \<and> router_inv (router (hub s)) \<and> c \<in> live (hub s) \<and> p \<in> live (hub s) \<and> p \<noteq> c \<and>
     GetPeer (router (hub s)) c = Some p \<and>
     in_sync (outgoing (env_codec E) (sess_of (hub s) p) b) \<and> healthy (conn (sess_of (hub s) p))"

text \<open>The situation of a relay: \<open>a\<close> is the sending program's session, \<open>es\<close> what it has sent and the broker has not read.\<close>

definition relaying :: "broker_env \<Rightarrow> server \<Rightarrow> cid \<Rightarrow> cid \<Rightarrow> session \<Rightarrow> session \<Rightarrow> Envelope list \<Rightarrow> bool" where
  "relaying E s c p a b es \<longleftrightarrow> relay_link E s c p b \<and>
     in_sync (env_codec E, a, sess_of (hub s) c) \<and> in_flight (env_codec E, a, sess_of (hub s) c) = es"

lemma relay_link_less:
  assumes "relay_link E s c p b"
  shows "c < length (heap (hub s))" "p < length (heap (hub s))" "p \<noteq> c"
  using assms by (auto simp: relay_link_def live_less)

lemma relay_link_receive:
  assumes "relay_link E s c p b" "cc_Receive E (hub s) c = (r, h1)"
  shows "relay_link E (set_hub s h1) c p b" "relay_link E (set_hub s (UpdateLastSeen c h1)) c p b"
    "sess_of h1 p = sess_of (hub s) p" "sess_of h1 c = snd (Receive (env_codec E) (sess_of (hub s) c))"
proof -
  note lt = relay_link_less [OF assms(1)]
  show p: "sess_of h1 p = sess_of (hub s) p" using cc_Receive_heap [OF assms(2) lt(2)] lt(3) by (simp add: sess_of_def)
  show "sess_of h1 c = snd (Receive (env_codec E) (sess_of (hub s) c))"
    using cc_Receive_heap [OF assms(2) lt(1)] by (simp add: sess_of_def)
  show "relay_link E (set_hub s h1) c p b" "relay_link E (set_hub s (UpdateLastSeen c h1)) c p b"
    using assms(1) cc_Receive_facts(1,2) [OF assms(2)] p by (simp_all add: relay_link_def)
qed

lemma relaying_receive:
  assumes "relaying E s c p a b (e # es)"
  shows "\<exists>h1. cc_Receive E (hub s) c = (Inr e, h1) \<and> relaying E (set_hub s (UpdateLastSeen c h1)) c p a b es \<and>
    sess_of h1 p = sess_of (hub s) p"
proof -
  let ?cd = "env_codec E" and ?sc = "sess_of (hub s) c"
  from assms have "in_sync (?cd, a, ?sc)" "in_flight (?cd, a, ?sc) = e # es" by (auto simp: relaying_def)
  from sess.pull_flight [OF this] obtain w' where w': "link_pull (?cd, a, ?sc) = Some (e, w')"
      "in_flight w' = es" "in_sync w'" by blast
  then obtain sc' where r: "Receive ?cd ?sc = (Inr e, sc')" "w' = (?cd, a, sc')"
    by (auto simp: link_pull_def split: prod.splits sum.splits)
  define h1 where "h1 = cc_upd c (\<lambda>x. x\<lparr>cc_session := sc'\<rparr>) (hub s)"
  have h1: "cc_Receive E (hub s) c = (Inr e, h1)" by (simp add: cc_Receive_def r(1) h1_def)
  have "relay_link E s c p b" using assms by (simp add: relaying_def)
  from relay_link_receive [OF this h1] w' r h1 show ?thesis by (simp add: relaying_def)
qed

lemma relay_link_forward:
  assumes "relay_link E s c p b" "Marshal (env_codec E) e = Inr d" "length d \<le> max_plaintext"
  shows "\<exists>s'. relay_send E s p e = (None, s') \<and> relay_link E s' c p b \<and> sess_of (hub s') c = sess_of (hub s) c \<and>
    in_flight (outgoing (env_codec E) (sess_of (hub s') p) b) =
      in_flight (outgoing (env_codec E) (sess_of (hub s) p) b) @ [e]"
proof -
  let ?cd = "env_codec E" and ?sp = "sess_of (hub s) p"
  note lt = relay_link_less [OF assms(1)]
  from assms(1) have "in_sync (outgoing ?cd ?sp b)" "healthy (conn ?sp)" by (auto simp: relay_link_def)
  from Send_outgoing [OF this assms(2,3)] obtain sp' where sp': "Send ?cd ?sp e = (None, sp')"
      "healthy (conn sp')" "in_sync (outgoing ?cd sp' b)"
      "in_flight (outgoing ?cd sp' b) = in_flight (outgoing ?cd ?sp b) @ [e]" by blast
  define h1 where "h1 = cc_upd p (\<lambda>x. x\<lparr>cc_session := sp'\<rparr>) (hub s)"
  have h1: "cc_Send E (hub s) p e = (None, h1)" by (simp add: cc_Send_def sp'(1) h1_def)
  have "sess_of h1 p = sp'" "sess_of h1 c = sess_of (hub s) c"
    using lt by (simp_all add: h1_def sess_cc_upd)
  with assms(1) sp' cc_Send_facts(1,2) [OF h1] show ?thesis
    by (simp add: relay_send_def h1 relay_link_def)
qed

definition relayed :: "Envelope list \<Rightarrow> Envelope list" where
  "relayed es = filter (\<lambda>e. GetHeartbeat e = None) es"

text \<open>One round, for any message that can be passed on.\<close>

lemma relay_link_round:
  assumes "relay_link E s c p b" "cc_Receive E (hub s) c = (Inr e, h1)"
    and "Marshal (env_codec E) e = Inr d" "length d \<le> max_plaintext"
  shows "\<exists>s'. relay_round E s c = (True, s') \<and> relay_link E s' c p b \<and> sess_of (hub s') c = sess_of h1 c \<and>
    in_flight (outgoing (env_codec E) (sess_of (hub s') p) b) =
      in_flight (outgoing (env_codec E) (sess_of (hub s) p) b) @ relayed [e]"
proof (cases "GetHeartbeat e")
  case (Some x)
  with relay_link_receive(2,3) [OF assms(1,2)] assms(2) show ?thesis
    by (simp add: relay_round_def relay_receive_def relayed_def)
next
  case None
  let ?s1 = "set_hub s (UpdateLastSeen c h1)"
  note l = relay_link_receive [OF assms(1,2)]
  obtain s' where s': "relay_send E ?s1 p e = (None, s')" "relay_link E s' c p b" "sess_of (hub s') c = sess_of (hub ?s1) c"
      "in_flight (outgoing (env_codec E) (sess_of (hub s') p) b) =
       in_flight (outgoing (env_codec E) (sess_of (hub ?s1) p) b) @ [e]"
    using relay_link_forward [OF l(2) assms(3,4)] by blast
  have "GetPeer (router (hub ?s1)) c = Some p" using l(2) by (simp add: relay_link_def)
  with None assms(2) l(3) s' show ?thesis by (simp add: relay_round_def relay_receive_def relayed_def)
qed

lemma relay_round_relaying:
  assumes "relaying E s c p a b (e # es)" "Marshal (env_codec E) e = Inr d" "length d \<le> max_plaintext"
  shows "\<exists>s'. relay_round E s c = (True, s') \<and> relaying E s' c p a b es \<and>
    in_flight (outgoing (env_codec E) (sess_of (hub s') p) b) =
      in_flight (outgoing (env_codec E) (sess_of (hub s) p) b) @ relayed [e]"
proof -
  obtain h1 where h1: "cc_Receive E (hub s) c = (Inr e, h1)" "relaying E (set_hub s (UpdateLastSeen c h1)) c p a b es"
    using relaying_receive [OF assms(1)] by blast
  have "relay_link E s c p b" using assms(1) by (simp add: relaying_def)
  from relay_link_round [OF this h1(1) assms(2,3)] h1(2) show ?thesis by (auto simp: relaying_def)
qed

text \<open>When no further message can be read, the loop closes the client, which tells the peer.\<close>

lemma relay_link_end:
  assumes "relay_link E s c p b" "cc_Receive E (hub s) c = (Inl x, h1)"
    and "Marshal (env_codec E) disconnect_env = Inr d" "length d \<le> max_plaintext"
  shows "in_flight (outgoing (env_codec E) (sess_of (hub (relayMessages E s c)) p) b) =
      in_flight (outgoing (env_codec E) (sess_of (hub s) p) b) @ [disconnect_env] \<and>
    in_sync (outgoing (env_codec E) (sess_of (hub (relayMessages E s c)) p) b) \<and>
    c \<notin> live (hub (relayMessages E s c)) \<and> p \<notin> live (hub (relayMessages E s c)) \<and>
    router_inv (router (hub (relayMessages E s c)))"
proof -
  let ?cd = "env_codec E" and ?sp = "sess_of (hub s) p"
  note lt = relay_link_less [OF assms(1)]
  have out: "in_sync (outgoing ?cd ?sp b)" "healthy (conn ?sp)" using assms(1) by (auto simp: relay_link_def)
  have unread: "sess_of h1 p = ?sp" using relay_link_receive(3) [OF assms(1,2)] .
  have closed: "cc_Close E c h1 = hub (relayMessages E s c)"
    using lt(1) by (simp add: relayMessages.simps [of E s] relay_round_def relay_receive_def assms(2) close_client_def)
  obtain sp' where sp': "Send ?cd ?sp disconnect_env = (None, sp')" "in_sync (outgoing ?cd sp' b)"
      "in_flight (outgoing ?cd sp' b) = in_flight (outgoing ?cd ?sp b) @ [disconnect_env]"
    using Send_outgoing [OF out assms(3,4)] by blast
  have "order_ok E" "router_inv (router h1)" "c \<in> live h1" "p \<in> live h1" "p \<noteq> c" "GetPeer (router h1) c = Some p"
    using assms(1) cc_Receive_facts(1,2) [OF assms(2)] by (auto simp: relay_link_def)
  note cl = cc_Close_pair [OF this]
  have same: "in_flight (outgoing ?cd (y\<lparr>conn := conn_Close (conn y)\<rparr>) b) = in_flight (outgoing ?cd y b)"
    "in_sync (outgoing ?cd (y\<lparr>conn := conn_Close (conn y)\<rparr>) b) = in_sync (outgoing ?cd y b)" for y
    by (simp_all add: outgoing_def in_flight_def in_sync_def conn_Close_def)
  have "sess_of (hub (relayMessages E s c)) p = sp'\<lparr>conn := conn_Close (conn sp')\<rparr>"
    using cl unfolding closed unread sp'(1) by (simp add: Let_def)
  then show ?thesis using same sp'(2,3) cl unfolding closed by simp
qed

lemma relayMessages_delivers:
  assumes "relaying E s c p a b es"
    and "\<forall>e\<in>insert disconnect_env (set es). \<exists>d. Marshal (env_codec E) e = Inr d \<and> length d \<le> max_plaintext"
  shows "in_flight (outgoing (env_codec E) (sess_of (hub (relayMessages E s c)) p) b) =
      in_flight (outgoing (env_codec E) (sess_of (hub s) p) b) @
      filter (\<lambda>e. GetHeartbeat e = None) es @ [disconnect_env] \<and>
    in_sync (outgoing (env_codec E) (sess_of (hub (relayMessages E s c)) p) b) \<and>
    c \<notin> live (hub (relayMessages E s c)) \<and> p \<notin> live (hub (relayMessages E s c)) \<and>
    router_inv (router (hub (relayMessages E s c)))"
  using assms
proof (induction es arbitrary: s)
  case Nil
  then obtain d where d: "Marshal (env_codec E) disconnect_env = Inr d" "length d \<le> max_plaintext" by auto
  have l: "relay_link E s c p b" "in_sync (env_codec E, a, sess_of (hub s) c)" "in_flight (env_codec E, a, sess_of (hub s) c) = []"
    using Nil.prems(1) by (simp_all add: relaying_def)
  obtain x h1 where "cc_Receive E (hub s) c = (Inl x, h1)"
    using sess.pull_empty [OF l(2,3)]
    by (auto simp: link_pull_def cc_Receive_def split: prod.splits sum.splits)
  from relay_link_end [OF l(1) this d] show ?case by simp
next
  case (Cons e es)
  then obtain d where "Marshal (env_codec E) e = Inr d" "length d \<le> max_plaintext" by auto
  from relay_round_relaying [OF Cons.prems(1) this] obtain s' where
    s': "relay_round E s c = (True, s')" "relaying E s' c p a b es"
      "in_flight (outgoing (env_codec E) (sess_of (hub s') p) b) =
       in_flight (outgoing (env_codec E) (sess_of (hub s) p) b) @ relayed [e]" by blast
  moreover have "\<not> length (heap (hub s)) \<le> c"
    using Cons.prems(1) by (auto simp: relaying_def dest: relay_link_less(1))
  ultimately have "relayMessages E s c = relayMessages E s' c"
    by (subst relayMessages.simps) simp
  with Cons.IH [OF s'(2)] Cons.prems(2) s'(3) show ?case by (simp add: relayed_def)
qed

text \<open>C15: the relay is faithful from end to end. When \<open>a\<close> has sent the envelopes \<open>es\<close> to the
  broker and its client is linked to the one of \<open>b\<close>, the relay loop passes on exactly those that
  are not heartbeats, unchanged and in order, behind what \<open>b\<close> had not read yet; when the input
  ends it sends the Disconnect notice last and takes both clients down.\<close>

theorem relayMessages_end_to_end:
  assumes "relaying E s c p a b es"
    and "\<forall>e\<in>insert disconnect_env (set es). \<exists>d. Marshal (env_codec E) e = Inr d \<and> length d \<le> max_plaintext"
  shows "in_flight (outgoing (env_codec E) (sess_of (hub (relayMessages E s c)) p) b) =
      in_flight (outgoing (env_codec E) (sess_of (hub s) p) b) @
      filter (\<lambda>e. GetHeartbeat e = None) es @ [disconnect_env] \<and>
    c \<notin> live (hub (relayMessages E s c)) \<and> p \<notin> live (hub (relayMessages E s c)) \<and>
    router_inv (router (hub (relayMessages E s c)))"
  using relayMessages_delivers [OF assms] by blast

subsection \<open>The log cannot be forged\<close>

text \<open>A logger on a disk that works.\<close>

definition log_works :: "server \<Rightarrow> logger \<Rightarrow> bool" where
  "log_works s l \<longleftrightarrow> slogger s = Some l \<and> room (disk s) = None \<and>
     open_error (disk s) (log_filename l (wall s)) = None"

definition log_lines :: "server \<Rightarrow> logger \<Rightarrow> string list" where
  "log_lines s l = lines (content (disk s) (log_filename l (wall s)))"

lemma security_warn_line:
  assumes "log_works s l" "log_lines s l = ls @ [[]]" "one_line tag" "one_line msg"
  shows "\<exists>entry. log_lines (security_warn s tag msg) l = ls @ [entry, []] \<and>
    entry = ''['' @ Format_time (wall s) @ ''] ['' @ tag @ ''] ['' @ SeverityWarn @ '']'' @ [CHR 0x09] @ msg"
proof -
  let ?f = "log_filename l (wall s)"
  let ?e = "''['' @ Format_time (wall s) @ ''] ['' @ tag @ ''] ['' @ SeverityWarn @ '']'' @ [CHR 0x09] @ msg"
  have works: "open_error (disk s) ?f = None" "room (disk s) = None" "slogger s = Some l"
    using assms(1) by (auto simp: log_works_def)
  obtain fs' where fs': "Log l (wall s) (disk s) tag SeverityWarn msg = (None, fs')"
      "content fs' ?f = content (disk s) ?f @ log_line (wall s) tag SeverityWarn msg"
    using Log_appends [OF works(1,2)] by blast
  have "one_line ?e" using assms(3,4) by (simp add: SeverityWarn_def)
  then have "lines (content (disk s) ?f @ ?e @ [newline]) = ls @ [?e, []]"
    using assms(2) by (intro lines_append_line) (simp_all add: log_lines_def)
  moreover have "log_lines (security_warn s tag msg) l = lines (content fs' ?f)"
    using works(3) fs'(1) by (simp add: log_lines_def security_warn_def Warn_def)
  moreover have "log_line (wall s) tag SeverityWarn msg = ?e @ [newline]" by (simp add: log_line_def)
  ultimately show ?thesis using fs'(2) by simp
qed

text \<open>C23: no client can forge or split a log entry. Whatever bytes a client sends as its
  authentication payload or as its connection ID (line breaks and control characters included), the
  corresponding log call adds exactly one line to the file, which starts with the time, tag and
  severity the broker chose; and at most 256 bytes of an authentication payload are kept.\<close>

theorem log_not_forgeable:
  assumes "log_works s l" "log_lines s l = ls @ [[]]" "one_line (RemoteAddr (hub s) c)"
  shows "(\<exists>msg. log_lines (logInvalidConnectionID E s c i) l =
        ls @ [''['' @ Format_time (wall s) @ ''] [ROUTING] [WARN]'' @ [CHR 0x09] @ msg, []]) \<and>
    (\<exists>msg. log_lines (logInvalidAuthPayload s c raw) l =
        ls @ [''['' @ Format_time (wall s) @ ''] [AUTH] [WARN]'' @ [CHR 0x09] @ msg, []] \<and>
        msg = ''invalid auth payload from '' @ RemoteAddr (hub s) c @ '': '' @ EncodeToString (take 256 raw))"
proof (intro conjI)
  have cut: "(if length raw > 256 then take 256 raw else raw) = take 256 raw" by simp
  show "\<exists>msg. log_lines (logInvalidConnectionID E s c i) l =
        ls @ [''['' @ Format_time (wall s) @ ''] [ROUTING] [WARN]'' @ [CHR 0x09] @ msg, []]"
    using security_warn_line [OF assms(1,2), of logTagRouting] assms(3)
    by (simp add: logInvalidConnectionID_def logTagRouting_def SeverityWarn_def)
  show "\<exists>msg. log_lines (logInvalidAuthPayload s c raw) l =
        ls @ [''['' @ Format_time (wall s) @ ''] [AUTH] [WARN]'' @ [CHR 0x09] @ msg, []] \<and>
        msg = ''invalid auth payload from '' @ RemoteAddr (hub s) c @ '': '' @ EncodeToString (take 256 raw)"
    using security_warn_line [OF assms(1,2), of logTagAuth] assms(3)
    by (simp add: logInvalidAuthPayload_def logTagAuth_def SeverityWarn_def maxLogPayloadBytes_def)
qed

subsection \<open>Concrete instances\<close>

text \<open>Client 2 is linked to client 1 (as in \<^const>\<open>sample_router\<close>); client 2 has \<open>ps\<close> to read.\<close>

definition sample_server :: "Payload list \<Rightarrow> server" where
  "sample_server ps =
     (NewServer \<lparr>files = Map.empty, open_error = Map.empty, mkdir_error = Map.empty,
        close_error = Map.empty, rename_error = Map.empty, remove_error = Map.empty, room = None\<rparr>
        sample_now 0 '':1781'' [WithPassphrase ''secret'', WithLogger (Some \<lparr>dir = ''logs''\<rparr>)])
     \<lparr>hub := \<lparr>router = sample_router,
        heap = [sample_client, sample_client, sample_client\<lparr>cc_session := sample_incoming ps\<rparr>], now = 0\<rparr>\<rparr>"

lemma sample_server_simps [simp]:
  "hub (sample_server ps) = \<lparr>router = sample_router,
      heap = [sample_client, sample_client, sample_client\<lparr>cc_session := sample_incoming ps\<rparr>], now = 0\<rparr>"
  "passphraseHash (sample_server ps) = sha256_Sum256 (bytes_of_string ''secret'')"
proof -
  have "length (sha256_Sum256 (bytes_of_string ''secret'')) = 32" by simp
  then have "sha256_Sum256 (bytes_of_string ''secret'') \<noteq> []" by (metis list.size(3) zero_neq_numeral)
  then show "passphraseHash (sample_server ps) = sha256_Sum256 (bytes_of_string ''secret'')"
    by (simp add: sample_server_def NewServer_def WithPassphrase_def WithLogger_def Let_def)
qed (simp add: sample_server_def)

lemma sess_sample_server [simp]:
  "sess_of (hub (sample_server ps)) 2 = sample_incoming ps" "sess_of (hub (sample_server ps)) 1 = sample_session"
  by (simp_all add: sess_of_def sample_client_def)

lemma sample_idle_outgoing:
  "in_flight (outgoing proto_codec (sess_of (hub (sample_server ps)) 1) sample_session) = []"
  "in_sync (outgoing proto_codec (sess_of (hub (sample_server ps)) 1) sample_session)"
proof -
  have t: "tx (conn sample_session) = []" by (simp add: sample_session_def sample_conn_def)
  show "in_flight (outgoing proto_codec (sess_of (hub (sample_server ps)) 1) sample_session) = []"
    "in_sync (outgoing proto_codec (sess_of (hub (sample_server ps)) 1) sample_session)"
    unfolding sess_sample_server outgoing_idle [OF t]
    by (rule in_sync_fresh [OF proto_codec_ok, where key = "replicate 32 0"]; simp add: sample_session_def sample_conn_def)+
qed

lemma sample_relay_link: "relay_link sample_env (sample_server ps) 2 1 sample_session"
  unfolding relay_link_def
proof (intro conjI)
  show "in_sync (outgoing (env_codec sample_env) (sess_of (hub (sample_server ps)) 1) sample_session)"
    using sample_idle_outgoing(2) [of ps] by (simp only: sample_env_def broker_env.simps)
  show "healthy (conn (sess_of (hub (sample_server ps)) 1))"
    unfolding sess_sample_server by (simp add: sample_session_def sample_conn_def healthy_def)
  show "router_inv (router (hub (sample_server ps)))" by (simp add: sample_router_inv)
  show "GetPeer (router (hub (sample_server ps))) 2 = Some 1" by (simp add: GetPeer_def sample_router_def)
qed (simp_all add: sample_env_ok live_def sample_client_def)

theorem relayMessages_end_to_end_witness:
  "in_flight (outgoing proto_codec
      (sess_of (hub (relayMessages sample_env
         (sample_server [Envelope_Heartbeat Heartbeat, Envelope_CloseStream \<lparr>CloseStream_StreamId = 7\<rparr>]) 2)) 1)
      sample_session) = [env (Envelope_CloseStream \<lparr>CloseStream_StreamId = 7\<rparr>), disconnect_env]"
proof -
  let ?ps = "[Envelope_Heartbeat Heartbeat, Envelope_CloseStream \<lparr>CloseStream_StreamId = 7\<rparr>]"
  let ?s = "sample_server ?ps"
  have fits: "\<forall>p\<in>set ?ps. sendable p" by (simp add: sendable_simps)
  have cd: "env_codec sample_env = proto_codec" by (simp add: sample_env_def)
  have "relaying sample_env ?s 2 1 (sample_sender 2) sample_session (map env ?ps)"
    unfolding relaying_def
  proof (intro conjI)
    show "relay_link sample_env ?s 2 1 sample_session" by (rule sample_relay_link)
    show "in_sync (env_codec sample_env, sample_sender 2, sess_of (hub ?s) 2)"
      using sample_incoming_sync(1) [OF fits] by (simp add: cd numeral_2_eq_2 [symmetric] del: sample_server_simps)
    show "in_flight (env_codec sample_env, sample_sender 2, sess_of (hub ?s) 2) = map env ?ps"
      using sample_incoming_sync(2) [OF fits] by (simp only: cd sess_sample_server)
  qed
  moreover have "\<forall>e\<in>insert disconnect_env (set (map env ?ps)). \<exists>d. Marshal (env_codec sample_env) e = Inr d \<and> length d \<le> max_plaintext"
    using fits by (simp add: cd disconnect_env_def sendable_simps)
  ultimately show ?thesis
    using relayMessages_end_to_end [of sample_env ?s 2 1 "sample_sender 2" sample_session "map env ?ps"]
    by (simp add: cd sample_idle_outgoing(1) [unfolded One_nat_def] getter_defs del: sample_server_simps)
qed

theorem authenticateClient_iff_witness:
  "fst (authenticateClient sample_env
     (sample_server [Envelope_Authenticate \<lparr>Authenticate_PassphraseHash = sha256_Sum256 (bytes_of_string ''secret'')\<rparr>]) 2) = None"
proof -
  let ?p = "Envelope_Authenticate \<lparr>Authenticate_PassphraseHash = sha256_Sum256 (bytes_of_string ''secret'')\<rparr>"
  let ?s = "sample_server [?p]"
  have "sendable ?p" by (simp add: sendable_simps)
  then have "\<exists>b. Receive proto_codec (sample_incoming [?p]) = (Inr (env ?p), b)"
    by (intro sample_incoming_Receive) simp
  then have "\<exists>h1. cc_Receive sample_env (hub ?s) 2 = (Inr (env ?p), h1)"
    by (auto simp: cc_Receive_def sample_env_def simp del: sample_server_simps)
  moreover obtain r s' where a: "authenticateClient sample_env ?s 2 = (r, s')"
    by (cases "authenticateClient sample_env ?s 2")
  moreover have "passphraseHash ?s = passphraseHash (NewServer (disk ?s) sample_now 0 '''' [WithPassphrase ''secret''])"
  proof -
    have "length (sha256_Sum256 (bytes_of_string ''secret'')) = 32" by simp
    then have "sha256_Sum256 (bytes_of_string ''secret'') \<noteq> []" by (metis list.size(3) zero_neq_numeral)
    then show ?thesis by (simp add: NewServer_def WithPassphrase_def Let_def)
  qed
  ultimately show ?thesis using authenticateClient_iff [of 2 ?s sample_env r s'] by simp
qed

theorem log_not_forgeable_witness:
  "\<exists>msg. log_lines (logInvalidConnectionID sample_env (sample_server []) 1 (''a'' @ [newline] @ ''b'')) \<lparr>dir = ''logs''\<rparr> =
     [''['' @ Format_time (wall (sample_server [])) @ ''] [ROUTING] [WARN]'' @ [CHR 0x09] @ msg, []]"
proof -
  have "log_works (sample_server []) \<lparr>dir = ''logs''\<rparr>"
    by (simp add: log_works_def sample_server_def NewServer_def WithPassphrase_def WithLogger_def Let_def)
  moreover have "log_lines (sample_server []) \<lparr>dir = ''logs''\<rparr> = [] @ [[]]"
    by (simp add: log_lines_def sample_server_def NewServer_def WithPassphrase_def WithLogger_def Let_def content_def lines_def)
  moreover have "one_line (RemoteAddr (hub (sample_server [])) 1)"
    by (simp add: RemoteAddr_def sample_client_def)
  ultimately show ?thesis
    using log_not_forgeable [of "sample_server []" "\<lparr>dir = ''logs''\<rparr>" "[]" 1 sample_env "''a'' @ [newline] @ ''b''" "[]"] by simp
qed

end
