(* ===== verification/Tunnel_Common.thy ===== *)
theory Tunnel_Common
  imports Protocol_Handshake Go_Net "HOL-Library.AList"
begin

text \<open>
  What \<^verbatim>\<open>pkg/tunnel/listener.go\<close> and \<^verbatim>\<open>pkg/tunnel/connector.go\<close> share: the envelopes,
  reading from a local connection, the pump from a local connection to the broker, and the contract of a table
  of streams that incoming messages are distributed to.
\<close>

definition chunkSize :: nat where "chunkSize = 32 * 1024"
definition DialTimeout :: int where "DialTimeout = 10 * 10 ^ 9"
definition OpenStreamAckTimeout :: int where "OpenStreamAckTimeout = 15 * 10 ^ 9"

text \<open>What the tunnel calls and does not define: the codec, the curve, and the text of an error of the
  network (\<^verbatim>\<open>err.Error()\<close> contains addresses and a message of the operating system).\<close>

record tunnel_env =
  te_codec :: codec
  te_curve :: curve
  te_Error :: "error \<Rightarrow> string"

text \<open>\<^verbatim>\<open>net.DialTimeout("tcp", address, DialTimeout)\<close>, as it turns out at the time of the call.\<close>

type_synonym dialer = "string \<Rightarrow> net_conn result"

abbreviation data_env :: "u32 \<Rightarrow> bytes \<Rightarrow> Envelope" where
  "data_env i d \<equiv> env (Envelope_Data \<lparr>Data_StreamId = i, Data_Payload = d\<rparr>)"

abbreviation close_env :: "u32 \<Rightarrow> Envelope" where
  "close_env i \<equiv> env (Envelope_CloseStream \<lparr>CloseStream_StreamId = i\<rparr>)"

abbreviation beat_env :: Envelope where
  "beat_env \<equiv> env (Envelope_Heartbeat Heartbeat)"

abbreviation open_env :: "u32 \<Rightarrow> Envelope" where
  "open_env i \<equiv> env (Envelope_OpenStream \<lparr>OpenStream_StreamId = i\<rparr>)"

abbreviation open_ack_env :: "u32 \<Rightarrow> bool \<Rightarrow> string \<Rightarrow> Envelope" where
  "open_ack_env i b m \<equiv> env (Envelope_OpenStreamAck
     \<lparr>OpenStreamAck_StreamId = i, OpenStreamAck_Success = b, OpenStreamAck_Message = m\<rparr>)"

abbreviation bye_env :: "string \<Rightarrow> Envelope" where
  "bye_env m \<equiv> env (Envelope_Disconnect \<lparr>Disconnect_Reason = m\<rparr>)"

definition auth_env :: "string \<Rightarrow> Envelope" where
  "auth_env passphrase =
     env (Envelope_Authenticate \<lparr>Authenticate_PassphraseHash = sha256_Sum256 (bytes_of_string passphrase)\<rparr>)"

text \<open>
  \<^verbatim>\<open>conn.Read(buf)\<close> with a buffer of \<open>limit\<close> bytes: at least one byte of what has arrived,
  and \<open>k\<close> bytes if that is possible; how many is up to the operating system.
\<close>

definition conn_Read :: "net_conn \<Rightarrow> nat \<Rightarrow> nat \<Rightarrow> bytes \<times> error option \<times> net_conn" where
  "conn_Read c limit k =
     (if conn_closed c then ([], Some ErrClosed, c)
      else if rx c = [] then ([], Some (rx_end c), c)
      else let n = max 1 (min k limit) in (take n (rx c), None, c\<lparr>rx := drop n (rx c)\<rparr>))"

subsection \<open>The local connections\<close>

text \<open>A \<^verbatim>\<open>net.Conn\<close> to a local program is an index into the list of all local connections
  the program has had.\<close>

definition local_Write :: "net_conn list \<Rightarrow> nat \<Rightarrow> bytes \<Rightarrow> error option \<times> net_conn list" where
  "local_Write cs k bs = (case conn_Write (cs ! k) bs of (r, c) \<Rightarrow> (r, cs[k := c]))"

definition local_Close :: "nat \<Rightarrow> net_conn list \<Rightarrow> net_conn list" where
  "local_Close k cs = cs[k := conn_Close (cs ! k)]"

definition close_all :: "nat list \<Rightarrow> net_conn list \<Rightarrow> net_conn list" where
  "close_all ks cs = fold local_Close ks cs"

lemma length_local [simp]:
  "length (local_Close k cs) = length cs" "length (close_all ks cs) = length cs"
proof -
  show "length (close_all ks cs) = length cs"
    by (induction ks arbitrary: cs) (simp_all add: close_all_def local_Close_def)
qed (simp add: local_Close_def)

lemma length_local_Write: "local_Write cs k bs = (r, cs') \<Longrightarrow> length cs' = length cs"
  by (auto simp: local_Write_def split: prod.splits)

lemma local_Write_other: "local_Write cs k bs = (r, cs') \<Longrightarrow> j \<noteq> k \<Longrightarrow> cs' ! j = cs ! j"
  by (auto simp: local_Write_def split: prod.splits)

lemma local_Write_healthy:
  assumes "k < length cs" "healthy (cs ! k)"
  shows "local_Write cs k bs = (None, cs[k := (cs ! k)\<lparr>tx := tx (cs ! k) @ bs\<rparr>])"
  using assms by (simp add: local_Write_def)

lemma conn_Close_idem [simp]: "conn_Close (conn_Close c) = conn_Close c"
  by (simp add: conn_Close_def)

lemma nth_local_Close:
  "j < length cs \<Longrightarrow> local_Close k cs ! j = (if j = k then conn_Close (cs ! j) else cs ! j)"
  by (auto simp: local_Close_def nth_list_update)

lemma nth_close_all:
  "j < length cs \<Longrightarrow> close_all ks cs ! j = (if j \<in> set ks then conn_Close (cs ! j) else cs ! j)"
  by (induction ks arbitrary: cs) (auto simp: close_all_def nth_local_Close)

subsection \<open>The pump\<close>

text \<open>
  One round of \<^verbatim>\<open>pumpLocalToRemote\<close> (the two files have the same loop) on the session and
  the local connection. \<open>PumpStop\<close>: the tunnel is closed; \<open>PumpSendErr\<close>: the data could not be
  sent, the caller closes the stream; \<open>PumpEnd\<close>: the local side ended and the peer has been
  told, the caller removes the stream.
\<close>

datatype pump_result = PumpStop | PumpGo | PumpSendErr | PumpEnd

definition pump_round ::
  "codec \<Rightarrow> bool \<Rightarrow> nat \<Rightarrow> u32 \<Rightarrow> session \<Rightarrow> net_conn \<Rightarrow> pump_result \<times> session \<times> net_conn" where
  "pump_round cd closed k i s lc =
     (if closed then (PumpStop, s, lc)
      else case conn_Read lc chunkSize k of (buf, err, lc1) \<Rightarrow>
        (case (if buf \<noteq> [] then Send cd s (data_env i buf) else (None, s)) of
           (Some _, s1) \<Rightarrow> (PumpSendErr, s1, lc1)
         | (None, s1) \<Rightarrow>
             (case err of
                Some _ \<Rightarrow> (PumpEnd, snd (Send cd s1 (close_env i)), lc1)
              | None \<Rightarrow> (PumpGo, s1, lc1))))"

lemma conn_Read_cases:
  assumes "conn_Read c limit k = (buf, err, c')"
  obtains (failed) e where "buf = []" "err = Some e" "c' = c" "conn_closed c \<or> rx c = []"
  | (some) "buf \<noteq> []" "err = None" "\<not> conn_closed c" "rx c = buf @ rx c'" "c' = c\<lparr>rx := rx c'\<rparr>" "length buf \<le> max 1 limit"
proof (cases "conn_closed c \<or> rx c = []")
  case True
  then show ?thesis using assms failed by (auto simp: conn_Read_def split: if_splits)
next
  case False
  then show ?thesis using assms some by (auto simp: conn_Read_def Let_def split: if_splits)
qed

lemma pump_round_progress:
  assumes "pump_round cd closed k i s lc = (PumpGo, s', lc')"
  shows "length (rx lc') < length (rx lc)"
proof -
  obtain buf err lc1 where r: "conn_Read lc chunkSize k = (buf, err, lc1)" by (cases "conn_Read lc chunkSize k")
  from r show ?thesis
  proof (cases rule: conn_Read_cases)
    case (failed e)
    then show ?thesis using assms r by (auto simp: pump_round_def split: if_splits)
  next
    case some
    then have "lc' = lc1" using assms r by (auto simp: pump_round_def split: if_splits prod.splits option.splits)
    then show ?thesis using some by simp
  qed
qed

text \<open>The loop, run without interruption; \<open>ks\<close> chooses the size of each read. A round that goes on
  has consumed local data, so the loop ends.\<close>

function pump ::
  "codec \<Rightarrow> bool \<Rightarrow> (bytes \<Rightarrow> nat) \<Rightarrow> u32 \<Rightarrow> session \<Rightarrow> net_conn \<Rightarrow> pump_result \<times> session \<times> net_conn" where
  "pump cd closed ks i s lc =
     (case pump_round cd closed (ks (rx lc)) i s lc of
        (PumpGo, s1, lc1) \<Rightarrow> pump cd closed ks i s1 lc1
      | (r, s1, lc1) \<Rightarrow> (r, s1, lc1))"
  by pat_completeness auto
termination
  by (relation "measure (\<lambda>(cd, closed, ks, i, s, lc). length (rx lc))") (auto intro!: pump_round_progress dest: sym)

declare pump.simps [simp del]

text \<open>The chunks a pump cuts the local data into.\<close>

function cut :: "(bytes \<Rightarrow> nat) \<Rightarrow> bytes \<Rightarrow> bytes list" where
  "cut ks bs =
     (if bs = [] then []
      else let n = max 1 (min (ks bs) chunkSize) in take n bs # cut ks (drop n bs))"
  by auto
termination
  by (relation "measure (\<lambda>(ks, bs). length bs)") auto

declare cut.simps [simp del]

lemma concat_cut: "concat (cut ks bs) = bs"
  by (induction ks bs rule: cut.induct) (subst cut.simps, simp add: Let_def)

lemma cut_bounds: "d \<in> set (cut ks bs) \<Longrightarrow> d \<noteq> [] \<and> length d \<le> chunkSize"
proof (induction ks bs rule: cut.induct)
  case (1 ks bs)
  then show ?case
    by (subst (asm) (2) cut.simps) (auto simp: Let_def chunkSize_def split: if_splits)
qed

definition pump_envs :: "(bytes \<Rightarrow> nat) \<Rightarrow> u32 \<Rightarrow> bytes \<Rightarrow> Envelope list" where
  "pump_envs ks i bs = map (data_env i) (cut ks bs) @ [close_env i]"

subsection \<open>What the pump sends\<close>

lemma pump_stopped: "pump cd True ks i s lc = (PumpStop, s, lc)"
  by (simp add: pump.simps pump_round_def)

text \<open>Sending a list of envelopes; only the last outcome matters to a caller that stops at an error.\<close>

fun Send_all :: "codec \<Rightarrow> session \<Rightarrow> Envelope list \<Rightarrow> error option \<times> session" where
  "Send_all cd s [] = (None, s)"
| "Send_all cd s (e # es) =
     (case Send cd s e of (Some err, s1) \<Rightarrow> (Some err, s1) | (None, s1) \<Rightarrow> Send_all cd s1 es)"

lemma Send_all_append:
  "Send_all cd s (es @ fs) =
     (case Send_all cd s es of (Some err, s1) \<Rightarrow> (Some err, s1) | (None, s1) \<Rightarrow> Send_all cd s1 fs)"
  by (induction es arbitrary: s) (auto split: prod.splits option.splits)

text \<open>A pump that is not interrupted sends the local data in chunks; then, unless a send failed, the
  notice that the stream is closed.\<close>

lemma pump_spec:
  assumes "\<not> conn_closed lc"
  shows "\<exists>rest. pump cd False ks i s lc =
    (case Send_all cd s (map (data_env i) (cut ks (rx lc))) of
       (Some _, s1) \<Rightarrow> (PumpSendErr, s1, lc\<lparr>rx := rest\<rparr>)
     | (None, s1) \<Rightarrow> (PumpEnd, snd (Send cd s1 (close_env i)), lc\<lparr>rx := []\<rparr>))"
  using assms
proof (induction "length (rx lc)" arbitrary: s lc rule: less_induct)
  case less
  show ?case
  proof (cases "rx lc = []")
    case True
    moreover from this have "lc\<lparr>rx := []\<rparr> = lc" by simp
    ultimately show ?thesis
      using less.prems by (simp add: pump.simps [of cd False ks i s lc] pump_round_def conn_Read_def cut.simps)
  next
    case False
    define n where "n = max 1 (min (ks (rx lc)) chunkSize)"
    define lc1 where "lc1 = lc\<lparr>rx := drop n (rx lc)\<rparr>"
    obtain r s1 where s1: "Send cd s (data_env i (take n (rx lc))) = (r, s1)" by fastforce
    have n: "0 < n" by (simp add: n_def)
    have round: "pump_round cd False (ks (rx lc)) i s lc = (if r = None then (PumpGo, s1, lc1) else (PumpSendErr, s1, lc1))"
      using False less.prems n s1
      by (auto simp: pump_round_def conn_Read_def Let_def lc1_def n_def min.commute max.commute split: option.splits)
    have cut: "cut ks (rx lc) = take n (rx lc) # cut ks (rx lc1)"
      using False by (simp add: cut.simps [of ks "rx lc"] Let_def n_def lc1_def)
    have "length (rx lc1) < length (rx lc)" "\<not> conn_closed lc1"
      using False n less.prems by (simp_all add: lc1_def)
    note IH = less.hyps [OF this]
    have all: "lc1\<lparr>rx := q\<rparr> = lc\<lparr>rx := q\<rparr>" for q by (simp add: lc1_def)
    show ?thesis
    proof (cases r)
      case None
      then have "pump cd False ks i s lc = pump cd False ks i s1 lc1"
        by (simp add: pump.simps [of cd False ks i s lc] round)
      moreover have "Send_all cd s (map (data_env i) (cut ks (rx lc))) = Send_all cd s1 (map (data_env i) (cut ks (rx lc1)))"
        by (simp add: cut s1 None)
      ultimately show ?thesis using IH by (simp only: all)
    next
      case (Some err)
      then have "pump cd False ks i s lc = (PumpSendErr, s1, lc1)"
        by (simp add: pump.simps [of cd False ks i s lc] round)
      then show ?thesis using Some by (simp add: cut s1 lc1_def) blast
    qed
  qed
qed

subsection \<open>The broker session\<close>

definition close_broker :: "session \<Rightarrow> session" where
  "close_broker s = s\<lparr>conn := conn_Close (conn s)\<rparr>"

text \<open>A session that has \<open>es\<close> to read from the other end \<open>a\<close>.\<close>

definition pending :: "codec \<Rightarrow> session \<Rightarrow> session \<Rightarrow> Envelope list \<Rightarrow> bool" where
  "pending cd a s es \<longleftrightarrow> in_sync (cd, a, s) \<and> in_flight (cd, a, s) = es"

lemma pending_Receive:
  assumes "pending cd a s (e # es)"
  obtains s' where "Receive cd s = (Inr e, s')" "pending cd a s' es"
proof -
  from sess.pull_flight [of "(cd, a, s)" e es] assms obtain w' where
    w': "link_pull (cd, a, s) = Some (e, w')" "in_flight w' = es" "in_sync w'" by (auto simp: pending_def)
  then obtain s' where "Receive cd s = (Inr e, s')" "w' = (cd, a, s')"
    by (auto simp: link_pull_def split: prod.splits sum.splits)
  with w' show thesis by (intro that) (simp_all add: pending_def)
qed

lemma pending_empty:
  assumes "pending cd a s []"
  obtains err s' where "Receive cd s = (Inl err, s')"
  using sess.pull_empty [of "(cd, a, s)"] assms
  by (auto simp: pending_def link_pull_def split: prod.splits sum.splits)

subsection \<open>Streams and connections\<close>

text \<open>Which stream uses which of \<open>n\<close> local connections: no connection is used by two streams.\<close>

definition uses_ok :: "(u32 \<times> nat) set \<Rightarrow> nat \<Rightarrow> bool" where
  "uses_ok U n \<longleftrightarrow> (\<forall>i k. (i, k) \<in> U \<longrightarrow> k < n) \<and> (\<forall>i j k. (i, k) \<in> U \<longrightarrow> (j, k) \<in> U \<longrightarrow> i = j)"

lemma uses_ok_sub: "uses_ok U n \<Longrightarrow> U' \<subseteq> U \<Longrightarrow> n \<le> n' \<Longrightarrow> uses_ok U' n'"
  unfolding uses_ok_def by (meson order_less_le_trans subsetD)

lemma uses_ok_fresh:
  assumes "uses_ok U n" "U' \<subseteq> insert (i, n) U" "n < n'"
  shows "uses_ok U' n'"
proof -
  have old: "k < n" if "(j, k) \<in> U" for j k using assms(1) that by (simp add: uses_ok_def)
  have new: "(j, k) \<in> U \<or> (j = i \<and> k = n)" if "(j, k) \<in> U'" for j k using assms(2) that by auto
  have "k < n'" if "(j, k) \<in> U'" for j k using new [OF that] old [of j k] assms(3) by auto
  moreover have "j = j'" if "(j, k) \<in> U'" "(j', k) \<in> U'" for j j' k
    using new [OF that(1)] new [OF that(2)] old [of _ k] assms(1) unfolding uses_ok_def by blast
  ultimately show ?thesis unfolding uses_ok_def by blast
qed

subsection \<open>The table of streams\<close>

text \<open>
  What listener and connector promise about their streams: data for an open stream is added to what the
  local program gets on that stream and touches no other; a closed or unknown stream takes nothing.
\<close>

datatype stream_event = Ev_Data u32 bytes | Ev_Close u32

fun event_stream :: "stream_event \<Rightarrow> u32" where
  "event_stream (Ev_Data i d) = i"
| "event_stream (Ev_Close i) = i"

fun event_env :: "stream_event \<Rightarrow> Envelope" where
  "event_env (Ev_Data i d) = data_env i d"
| "event_env (Ev_Close i) = close_env i"

fun stream_bytes :: "u32 \<Rightarrow> stream_event list \<Rightarrow> bytes" where
  "stream_bytes i [] = []"
| "stream_bytes i (Ev_Data j d # es) = (if i = j then d @ stream_bytes i es else stream_bytes i es)"
| "stream_bytes i (Ev_Close j # es) = (if i = j then [] else stream_bytes i es)"

locale stream_demux =
  fixes put :: "'s \<Rightarrow> u32 \<Rightarrow> bytes \<Rightarrow> 's"
    and shut :: "'s \<Rightarrow> u32 \<Rightarrow> 's"
    and tracked :: "'s \<Rightarrow> u32 \<Rightarrow> bool"
    and accepts :: "'s \<Rightarrow> u32 \<Rightarrow> bool"
    and got :: "'s \<Rightarrow> u32 \<Rightarrow> bytes"
    and ok :: "'s \<Rightarrow> bool"
    and event :: "stream_event \<Rightarrow> 's \<Rightarrow> 's"
  assumes event_Data: "event (Ev_Data i d) s = put s i d"
    and event_Close: "event (Ev_Close i) s = shut s i"
    and put_ok: "ok s \<Longrightarrow> ok (put s i d)"
    and shut_ok: "ok s \<Longrightarrow> ok (shut s i)"
    and accepts_tracked: "accepts s i \<Longrightarrow> tracked s i"
    and put_got: "ok s \<Longrightarrow> accepts s i \<Longrightarrow> got (put s i d) i = got s i @ d"
    and put_accepts: "ok s \<Longrightarrow> accepts s i \<Longrightarrow> accepts (put s i d) i"
    and put_unknown: "\<not> tracked s i \<Longrightarrow> put s i d = s"
    and put_other: "ok s \<Longrightarrow> j \<noteq> i \<Longrightarrow> got (put s i d) j = got s j \<and>
          tracked (put s i d) j = tracked s j \<and> accepts (put s i d) j = accepts s j"
    and shut_tracked: "ok s \<Longrightarrow> \<not> tracked (shut s i) i"
    and shut_unknown: "\<not> tracked s i \<Longrightarrow> shut s i = s"
    and shut_other: "ok s \<Longrightarrow> j \<noteq> i \<Longrightarrow> got (shut s i) j = got s j \<and>
          tracked (shut s i) j = tracked s j \<and> accepts (shut s i) j = accepts s j"
begin

lemma event_ok: "ok s \<Longrightarrow> ok (event e s)"
  by (cases e) (simp_all add: event_Data event_Close put_ok shut_ok)

lemma event_other:
  assumes "ok s" "event_stream e \<noteq> i"
  shows "got (event e s) i = got s i" "tracked (event e s) i = tracked s i"
    "accepts (event e s) i = accepts s i"
  using assms by (cases e; simp add: event_Data event_Close put_other shut_other)+

lemma event_unknown: "\<not> tracked s (event_stream e) \<Longrightarrow> event e s = s"
  by (cases e) (simp_all add: event_Data event_Close put_unknown shut_unknown)

text \<open>A stream that is never closed: its output grows by exactly its own payloads, in order, whatever
  is interleaved for other streams.\<close>

lemma fold_got:
  assumes "ok s" "accepts s i" "Ev_Close i \<notin> set es"
  shows "got (fold event es s) i = got s i @ stream_bytes i es \<and> accepts (fold event es s) i \<and> ok (fold event es s)"
  using assms
proof (induction es arbitrary: s)
  case Nil
  then show ?case by simp
next
  case (Cons e es)
  have "Ev_Close i \<notin> set es" and o: "ok (event e s)" using Cons.prems by (simp_all add: event_ok)
  show ?case
  proof (cases "event_stream e = i")
    case True
    then obtain d where "e = Ev_Data i d" using Cons.prems(3) by (cases e) auto
    then show ?thesis
      using Cons.IH [OF o] Cons.prems by (simp add: event_Data put_got put_accepts)
  next
    case False
    then have "stream_bytes i (e # es) = stream_bytes i es" by (cases e) auto
    then show ?thesis using Cons.IH [OF o] Cons.prems False by (simp add: event_other)
  qed
qed

text \<open>An untracked stream stays untracked, and the events for it can be left out.\<close>

lemma fold_untracked: "ok s \<Longrightarrow> \<not> tracked s i \<Longrightarrow> \<not> tracked (fold event es s) i"
proof (induction es arbitrary: s)
  case (Cons e es)
  then show ?case
    by (cases "event_stream e = i") (simp_all add: event_unknown event_other event_ok)
qed simp

lemma fold_skip: "ok s \<Longrightarrow> \<not> tracked s i \<Longrightarrow> fold event es s = fold event (filter (\<lambda>e. event_stream e \<noteq> i) es) s"
proof (induction es arbitrary: s)
  case (Cons e es)
  then show ?case
    by (cases "event_stream e = i") (simp_all add: event_unknown event_other event_ok)
qed simp

end

subsection \<open>A concrete set-up\<close>

definition sample_tenv :: tunnel_env where
  "sample_tenv = \<lparr>te_codec = proto_codec, te_curve = sample_curve, te_Error = (\<lambda>e. ''connection refused'')\<rparr>"

lemma sample_tenv_sel [simp]: "te_codec sample_tenv = proto_codec" "te_curve sample_tenv = sample_curve"
  by (simp_all add: sample_tenv_def)

text \<open>A broker connection on which the handshake succeeds and after which the encoded messages \<open>ps\<close> are waiting.\<close>

lemma sample_handshake:
  "\<exists>cn s rk sk. PerformHandshake proto_codec sample_curve (Inr (replicate 32 1)) True cn = (Inr s, conn s) \<and>
     healthy (conn s) \<and> gcm (sendEnc s) = aes_NewGCM sk \<and> gcm (recvEnc s) = aes_NewGCM rk \<and>
     rx (conn s) = wire (aes_NewGCM rk) (counter (recvEnc s)) ps"
proof -
  let ?A = "\<lparr>PrivateKey = replicate 32 1, PublicKey = replicate 32 1 :: bytes\<rparr>"
  obtain ks where ks: "DeriveDirectionalKeys sample_curve ?A (replicate 32 2) = Inr ks"
    using DeriveDirectionalKeys_eq [of "replicate 32 2" sample_curve ?A "replicate 32 3"] by (auto simp: sample_curve_def zip_replicate)
  define rest where "rest = wire (aes_NewGCM (RecvKey ks)) 0 ps"
  define cn where "cn = sample_conn\<lparr>rx := frame_bytes (sample_hello 2) @ rest\<rparr>"
  define s where "s = \<lparr>conn = cn\<lparr>rx := rest, tx := tx cn @ frame_bytes (sample_hello 1)\<rparr>,
          sendEnc = \<lparr>gcm = aes_NewGCM (SendKey ks), counter = 0\<rparr>,
          recvEnc = \<lparr>gcm = aes_NewGCM (RecvKey ks), counter = 0\<rparr>\<rparr>"
  have "PerformHandshake proto_codec sample_curve (Inr (replicate 32 1)) True cn =
    (Inr s, cn\<lparr>rx := rest, tx := tx cn @ frame_bytes (sample_hello 1)\<rparr>)"
    unfolding s_def
    by (rule PerformHandshake_ok [where rd = "sample_hello 2" and rpub = "replicate 32 2" and pub = "replicate 32 1"])
      (use ks in \<open>simp_all add: cn_def sample_conn_def healthy_def sample_curve_def handshake_env_def PublicKeyBytes_def sample_hello\<close>)
  moreover have "conn s = cn\<lparr>rx := rest, tx := tx cn @ frame_bytes (sample_hello 1)\<rparr>" "healthy (conn s)"
      "gcm (sendEnc s) = aes_NewGCM (SendKey ks)" "gcm (recvEnc s) = aes_NewGCM (RecvKey ks)"
      "rx (conn s) = wire (aes_NewGCM (RecvKey ks)) (counter (recvEnc s)) ps"
    by (simp_all add: s_def cn_def sample_conn_def healthy_def rest_def)
  ultimately show ?thesis by metis
qed

text \<open>The two messages a client sends first, and the answer it gets.\<close>

lemma sample_greeting:
  assumes "healthy (conn s)" "gcm (sendEnc s) = aes_NewGCM sk" "gcm (recvEnc s) = aes_NewGCM rk"
    and "rx (conn s) = wire (aes_NewGCM rk) (counter (recvEnc s)) (proto_payload ack # ps)"
    and "sendable m1" "sendable m2"
      "sendable ack"
  shows "\<exists>s1 s2 s3. Send proto_codec s (env m1) = (None, s1) \<and> Send proto_codec s1 (env m2) = (None, s2) \<and>
    Receive proto_codec s2 = (Inr (env ack), s3) \<and> healthy (conn s3) \<and> gcm (sendEnc s3) = aes_NewGCM sk \<and> gcm (recvEnc s3) = aes_NewGCM rk \<and>
    rx (conn s3) = wire (aes_NewGCM rk) (counter (recvEnc s3)) ps"
proof -
  define s1 where "s1 = snd (Send proto_codec s (env m1))"
  define s2 where "s2 = snd (Send proto_codec s1 (env m2))"
  have s1: "Send proto_codec s (env m1) = (None, s1)" "healthy (conn s1)" "gcm (sendEnc s1) = aes_NewGCM sk" "recvEnc s1 = recvEnc s"
      "rx (conn s1) = rx (conn s)"
    using Send_healthy [OF assms(1) sendable_Marshal [OF assms(5)] sendable_fits [OF assms(5)] assms(2)] assms(1,2) by (simp_all add: s1_def)
  have s2: "Send proto_codec s1 (env m2) = (None, s2)" "healthy (conn s2)" "gcm (sendEnc s2) = aes_NewGCM sk" "recvEnc s2 = recvEnc s"
      "rx (conn s2) = rx (conn s)"
    using Send_healthy [OF s1(2) sendable_Marshal [OF assms(6)] sendable_fits [OF assms(6)] s1(3)] s1 by (simp_all add: s2_def)
  define s3 where "s3 = s2\<lparr>conn := (conn s2)\<lparr>rx := wire (aes_NewGCM rk) (counter (recvEnc s2) + 1) ps @ []\<rparr>,
       recvEnc := (recvEnc s2)\<lparr>counter := counter (recvEnc s2) + 1\<rparr>\<rparr>"
  have "Receive proto_codec s2 = (Inr (env ack), s3)" unfolding s3_def
    by (rule Receive_wire [OF _ _ _ sendable_fits [OF assms(7)] sendable_Unmarshal [OF assms(7)]]) (use assms(3,4) s2 in simp_all)
  moreover have "healthy (conn s3)" "gcm (sendEnc s3) = aes_NewGCM sk" "gcm (recvEnc s3) = aes_NewGCM rk"
      "rx (conn s3) = wire (aes_NewGCM rk) (counter (recvEnc s3)) ps"
    using s2 assms(3) by (simp_all add: s3_def)
  ultimately show ?thesis using s1(1) s2(1) by blast
qed

end
