(* ===== verification/Tunnel_Listener.thy ===== *)
theory Tunnel_Listener
  imports Tunnel_Common
begin

text \<open>
  \<^verbatim>\<open>pkg/tunnel/listener.go\<close>: the side of the tunnel that registers with the broker and dials the local
  service for every stream the connector opens. \<open>l_session\<close> holds the broker connection too (the source keeps
  two references to the same object). \<open>l_closed\<close> stands for the closed \<^verbatim>\<open>closeCh\<close> together with the
  used-up \<^verbatim>\<open>closeOnce\<close>. The streams are an association list, because \<^verbatim>\<open>Close\<close> visits them all;
  \<open>l_tasks\<close> are the goroutines that \<^verbatim>\<open>go\<close> has started and that have not ended.
\<close>

record stream_state =
  st_conn :: "nat option"
  st_buf :: "bytes list"
  st_ready :: bool

text \<open>A goroutine, by what it does next.\<close>

datatype l_task =
    T_handleMessages
  | T_dispatch Envelope
  | T_write u32 nat bytes
  | T_handleOpenStream u32
  | T_drain u32 nat "bytes list"
  | T_pump u32 nat
  | T_Close
  | T_close_streams

record listener =
  l_localPort :: string
  l_brokerAddr :: string
  l_session :: "session option"
  l_connectionID :: string
  l_passphrase :: string
  l_streams :: "(u32 \<times> stream_state) list"
  l_closed :: bool
  l_conns :: "net_conn list"
  l_tasks :: "l_task list"
  l_log :: "string list"

definition NewListener :: "string \<Rightarrow> string \<Rightarrow> string \<Rightarrow> string \<Rightarrow> listener" where
  "NewListener localPort brokerAddr connID pass =
     \<lparr>l_localPort = localPort, l_brokerAddr = brokerAddr, l_session = None, l_connectionID = connID,
      l_passphrase = pass, l_streams = [], l_closed = False, l_conns = [], l_tasks = [], l_log = []\<rparr>"

definition l_go :: "l_task \<Rightarrow> listener \<Rightarrow> listener" where
  "l_go t l = l\<lparr>l_tasks := l_tasks l @ [t]\<rparr>"

definition l_logf :: "string \<Rightarrow> listener \<Rightarrow> listener" where
  "l_logf m l = l\<lparr>l_log := l_log l @ [m]\<rparr>"

text \<open>\<^verbatim>\<open>l.session.Send\<close>; the handlers only run once \<^verbatim>\<open>Start\<close> has set the session.\<close>

definition l_Send :: "tunnel_env \<Rightarrow> Envelope \<Rightarrow> listener \<Rightarrow> error option \<times> listener" where
  "l_Send E e l =
     (case l_session l of
        None \<Rightarrow> (Some ErrClosed, l)
      | Some s \<Rightarrow> (case Send (te_codec E) s e of (r, s') \<Rightarrow> (r, l\<lparr>l_session := Some s'\<rparr>)))"

subsection \<open>Start\<close>

text \<open>The outcome, the connection that was dialled as it is left behind, and the listener.\<close>

definition Listener_Start ::
  "tunnel_env \<Rightarrow> dialer \<Rightarrow> bytes result \<Rightarrow> bool \<Rightarrow> listener \<Rightarrow> error option \<times> net_conn option \<times> listener" where
  "Listener_Start E dial rand sent l =
     (case dial (l_brokerAddr l) of
        Inl err \<Rightarrow> (Some (Wrapf (''listener: failed to dial broker at '' @ l_brokerAddr l) err), None, l)
      | Inr cn \<Rightarrow>
     (case PerformHandshake (te_codec E) (te_curve E) rand sent cn of
        (Inl err, cn1) \<Rightarrow> (Some (Wrapf ''listener: handshake failed'' err), Some (conn_Close cn1), l)
      | (Inr s, _) \<Rightarrow>
     let failed = (\<lambda>err s'. (Some err, Some (conn_Close (conn s')), l\<lparr>l_session := Some (close_broker s')\<rparr>))
     in
     (case Send (te_codec E) s (auth_env (l_passphrase l)) of
        (Some err, s1) \<Rightarrow> failed (Wrapf ''listener: failed to send authenticate'' err) s1
      | (None, s1) \<Rightarrow>
     (case Send (te_codec E) s1 (env (Envelope_Register \<lparr>Register_ConnectionId = l_connectionID l\<rparr>)) of
        (Some err, s2) \<Rightarrow> failed (Wrapf ''listener: failed to send register'' err) s2
      | (None, s2) \<Rightarrow>
     (case Receive (te_codec E) s2 of
        (Inl err, s3) \<Rightarrow> failed (Wrapf ''listener: failed to receive register ack'' err) s3
      | (Inr e, s3) \<Rightarrow>
     (case GetRegisterAck e of
        None \<Rightarrow> failed (Errorf (''listener: expected RegisterAck, got '' @ payload_type e)) s3
      | Some ack \<Rightarrow>
          if \<not> RegisterAck_GetSuccess (Some ack)
          then failed (Errorf (''listener: registration rejected: '' @ RegisterAck_GetMessage (Some ack))) s3
          else (None, Some (conn s3), l_go T_handleMessages (l\<lparr>l_session := Some s3\<rparr>))))))))"

subsection \<open>Streams\<close>

definition Listener_closeStream :: "u32 \<Rightarrow> listener \<Rightarrow> listener" where
  "Listener_closeStream i l =
     (case map_of (l_streams l) i of
        None \<Rightarrow> l
      | Some st \<Rightarrow>
          let l1 = l\<lparr>l_streams := AList.delete i (l_streams l)\<rparr>
          in case st_conn st of None \<Rightarrow> l1 | Some k \<Rightarrow> l1\<lparr>l_conns := local_Close k (l_conns l1)\<rparr>)"

definition Listener_removeStream :: "u32 \<Rightarrow> listener \<Rightarrow> listener" where
  "Listener_removeStream i l = l\<lparr>l_streams := AList.delete i (l_streams l)\<rparr>"

text \<open>\<^verbatim>\<open>handleData\<close> up to the end of its critical section, and the write after it.\<close>

definition Listener_lookup :: "Data \<Rightarrow> listener \<Rightarrow> nat option \<times> listener" where
  "Listener_lookup d l =
     (let i = Data_GetStreamId (Some d) in
      case map_of (l_streams l) i of
        None \<Rightarrow> (None, l)
      | Some st \<Rightarrow>
          (case st_conn st of
             None \<Rightarrow> (None, l\<lparr>l_streams := AList.update i (st\<lparr>st_buf := st_buf st @ [Data_GetPayload (Some d)]\<rparr>) (l_streams l)\<rparr>)
           | Some k \<Rightarrow> (Some k, l)))"

definition Listener_write :: "u32 \<Rightarrow> nat \<Rightarrow> bytes \<Rightarrow> listener \<Rightarrow> bool \<times> listener" where
  "Listener_write i k bs l =
     (case local_Write (l_conns l) k bs of
        (None, cs) \<Rightarrow> (True, l\<lparr>l_conns := cs\<rparr>)
      | (Some _, cs) \<Rightarrow> (False, Listener_closeStream i (l\<lparr>l_conns := cs\<rparr>)))"

definition Listener_handleData :: "Data \<Rightarrow> listener \<Rightarrow> listener" where
  "Listener_handleData d l =
     (case Listener_lookup d l of
        (None, l1) \<Rightarrow> l1
      | (Some k, l1) \<Rightarrow> snd (Listener_write (Data_GetStreamId (Some d)) k (Data_GetPayload (Some d)) l1))"

subsection \<open>Opening a stream\<close>

text \<open>\<^verbatim>\<open>handleOpenStream\<close> in the pieces between which other goroutines can run: the dial with the
  critical section after it, the writes of the buffered data, and the acknowledgement.\<close>

definition open_dial :: "tunnel_env \<Rightarrow> dialer \<Rightarrow> u32 \<Rightarrow> listener \<Rightarrow> (nat \<times> bytes list) option \<times> listener" where
  "open_dial E dial i l =
     (case dial (JoinHostPort ''127.0.0.1'' (l_localPort l)) of
        Inl err \<Rightarrow>
          let l1 = l_logf (''listener: failed to dial local port '' @ l_localPort l @ '' for stream '' @
                           dec (unat i) @ '': '' @ te_Error E err) l;
              l2 = Listener_removeStream i l1
          in (None, snd (l_Send E (open_ack_env i False (''failed to connect to local port: '' @ te_Error E err)) l2))
      | Inr cn \<Rightarrow>
          (case map_of (l_streams l) i of
             None \<Rightarrow> (None, l\<lparr>l_conns := l_conns l @ [conn_Close cn]\<rparr>)
           | Some st \<Rightarrow>
               let k = length (l_conns l)
               in (Some (k, st_buf st),
                   l\<lparr>l_conns := l_conns l @ [cn],
                     l_streams := AList.update i \<lparr>st_conn = Some k, st_buf = [], st_ready = True\<rparr> (l_streams l)\<rparr>)))"

fun open_drain :: "u32 \<Rightarrow> nat \<Rightarrow> bytes list \<Rightarrow> listener \<Rightarrow> bool \<times> listener" where
  "open_drain i k [] l = (True, l)"
| "open_drain i k (d # ds) l =
     (case Listener_write i k d l of (True, l1) \<Rightarrow> open_drain i k ds l1 | (False, l1) \<Rightarrow> (False, l1))"

definition open_ack :: "tunnel_env \<Rightarrow> u32 \<Rightarrow> nat \<Rightarrow> listener \<Rightarrow> listener" where
  "open_ack E i k l = l_go (T_pump i k) (snd (l_Send E (open_ack_env i True ''stream opened'') l))"

definition Listener_handleOpenStream :: "tunnel_env \<Rightarrow> dialer \<Rightarrow> u32 \<Rightarrow> listener \<Rightarrow> listener" where
  "Listener_handleOpenStream E dial i l =
     (case open_dial E dial i l of
        (None, l1) \<Rightarrow> l1
      | (Some (k, buffered), l1) \<Rightarrow>
          (case open_drain i k buffered l1 of
             (False, l2) \<Rightarrow> l2
           | (True, l2) \<Rightarrow> open_ack E i k l2))"

subsection \<open>The pump\<close>

definition l_pump_end :: "u32 \<Rightarrow> pump_result \<Rightarrow> listener \<Rightarrow> listener" where
  "l_pump_end i r l =
     (case r of
        PumpSendErr \<Rightarrow> Listener_closeStream i l
      | PumpEnd \<Rightarrow> Listener_removeStream i l
      | _ \<Rightarrow> l)"

definition Listener_pump_round :: "tunnel_env \<Rightarrow> nat \<Rightarrow> u32 \<Rightarrow> nat \<Rightarrow> listener \<Rightarrow> pump_result \<times> listener" where
  "Listener_pump_round E n i k l =
     (case l_session l of
        None \<Rightarrow> (PumpStop, l)
      | Some s \<Rightarrow>
          (case pump_round (te_codec E) (l_closed l) n i s (l_conns l ! k) of
             (r, s1, lc1) \<Rightarrow> (r, l_pump_end i r (l\<lparr>l_session := Some s1, l_conns := (l_conns l)[k := lc1]\<rparr>))))"

definition Listener_pumpLocalToRemote :: "tunnel_env \<Rightarrow> (bytes \<Rightarrow> nat) \<Rightarrow> u32 \<Rightarrow> nat \<Rightarrow> listener \<Rightarrow> listener" where
  "Listener_pumpLocalToRemote E ks i k l =
     (case l_session l of
        None \<Rightarrow> l
      | Some s \<Rightarrow>
          (case pump (te_codec E) (l_closed l) ks i s (l_conns l ! k) of
             (r, s1, lc1) \<Rightarrow> l_pump_end i r (l\<lparr>l_session := Some s1, l_conns := (l_conns l)[k := lc1]\<rparr>)))"

subsection \<open>Close and the message loop\<close>

definition l_stream_conns :: "listener \<Rightarrow> nat list" where
  "l_stream_conns l = List.map_filter (\<lambda>(i, st). st_conn st) (l_streams l)"

text \<open>The once-body of \<^verbatim>\<open>Close\<close> up to the closing of the broker connection, and the closing of the streams
  under their lock.\<close>

definition close_signal :: "tunnel_env \<Rightarrow> listener \<Rightarrow> listener" where
  "close_signal E l =
     (let l1 = l\<lparr>l_closed := True\<rparr>;
          l2 = snd (l_Send E (bye_env ''listener shutting down'') l1)
      in l2\<lparr>l_session := map_option close_broker (l_session l2)\<rparr>)"

definition close_streams :: "listener \<Rightarrow> listener" where
  "close_streams l = l\<lparr>l_conns := close_all (l_stream_conns l) (l_conns l), l_streams := []\<rparr>"

definition Listener_Close :: "tunnel_env \<Rightarrow> listener \<Rightarrow> listener" where
  "Listener_Close E l = (if l_closed l then l else close_streams (close_signal E l))"

definition Listener_Done :: "listener \<Rightarrow> bool" where
  "Listener_Done l = l_closed l"

datatype l_action = LStop | LNext | LData Data

definition Listener_dispatch :: "tunnel_env \<Rightarrow> Envelope \<Rightarrow> listener \<Rightarrow> l_action \<times> listener" where
  "Listener_dispatch E e l =
     (if GetOpenStream e \<noteq> None then
        let i = OpenStream_GetStreamId (GetOpenStream e);
            l1 = l\<lparr>l_streams := AList.update i \<lparr>st_conn = None, st_buf = [], st_ready = False\<rparr> (l_streams l)\<rparr>
        in (LNext, l_go (T_handleOpenStream i) l1)
      else case GetData e of
        Some d \<Rightarrow> (LData d, l)
      | None \<Rightarrow>
      if GetCloseStream e \<noteq> None then
        (LNext, Listener_closeStream (CloseStream_GetStreamId (GetCloseStream e)) l)
      else if GetHeartbeat e \<noteq> None then (LNext, snd (l_Send E beat_env l))
      else if GetDisconnect e \<noteq> None then (LStop, l)
      else (LNext, l_logf (''listener: unexpected message type: '' @ payload_type e) l))"

text \<open>The top of the loop of \<^verbatim>\<open>handleMessages\<close> (\<^term>\<open>None\<close>: the function returns), and a whole round.\<close>

definition Listener_receive :: "tunnel_env \<Rightarrow> listener \<Rightarrow> Envelope option \<times> listener" where
  "Listener_receive E l =
     (if l_closed l then (None, l)
      else case l_session l of
        None \<Rightarrow> (None, l)
      | Some s \<Rightarrow>
          (case Receive (te_codec E) s of
             (Inl err, s1) \<Rightarrow> (None, l\<lparr>l_session := Some s1\<rparr>)
           | (Inr e, s1) \<Rightarrow> (Some e, l\<lparr>l_session := Some s1\<rparr>)))"

definition Listener_round :: "tunnel_env \<Rightarrow> listener \<Rightarrow> bool \<times> listener" where
  "Listener_round E l =
     (case Listener_receive E l of
        (None, l1) \<Rightarrow> (False, l1)
      | (Some e, l1) \<Rightarrow>
          (case Listener_dispatch E e l1 of
             (LStop, l2) \<Rightarrow> (False, l2)
           | (LNext, l2) \<Rightarrow> (True, l2)
           | (LData d, l2) \<Rightarrow> (True, Listener_handleData d l2)))"

text \<open>What is left to read on the broker connection.\<close>

definition l_unread :: "listener \<Rightarrow> nat" where
  "l_unread l = (case l_session l of None \<Rightarrow> 0 | Some s \<Rightarrow> length (rx (conn s)))"

lemma l_Send_frame:
  assumes "l_Send E e l = (r, l')"
  shows "l_unread l' = l_unread l" "l' = l\<lparr>l_session := l_session l'\<rparr>" "l_session l' = None \<longleftrightarrow> l_session l = None"
  using assms by (auto simp: l_Send_def l_unread_def Send_conn split: option.splits prod.splits)

lemma l_unread_simps [simp]:
  "l_unread (Listener_closeStream i l) = l_unread l"
  "l_unread (l\<lparr>l_conns := cs\<rparr>) = l_unread l" "l_unread (l\<lparr>l_streams := ss\<rparr>) = l_unread l"
  "l_unread (l_go t l) = l_unread l" "l_unread (l_logf m l) = l_unread l"
  by (simp_all add: Listener_closeStream_def l_go_def l_logf_def l_unread_def Let_def split: option.split)

lemma l_unread_Send [simp]: "l_unread (snd (l_Send E e l)) = l_unread l"
  using l_Send_frame(1) [of E e l] by (cases "l_Send E e l") simp

lemma l_unread_handleData [simp]: "l_unread (Listener_handleData d l) = l_unread l"
  by (simp add: Listener_handleData_def Listener_lookup_def Listener_write_def Let_def
      split: option.split prod.split)

lemma Listener_dispatch_unread: "l_unread (snd (Listener_dispatch E e l)) = l_unread l"
  by (simp add: Listener_dispatch_def Let_def split: option.split)

lemma Listener_round_progress:
  assumes "Listener_round E l = (True, l')"
  shows "l_unread l' < l_unread l"
proof -
  from assms obtain s e s1 where s: "l_session l = Some s" "Receive (te_codec E) s = (Inr e, s1)"
    by (auto simp: Listener_round_def Listener_receive_def split: if_splits option.splits prod.splits sum.splits)
  have "\<not> l_closed l" using assms by (auto simp: Listener_round_def Listener_receive_def split: if_splits)
  then have "l_unread l' = l_unread (l\<lparr>l_session := Some s1\<rparr>)"
    using assms s Listener_dispatch_unread [of E e "l\<lparr>l_session := Some s1\<rparr>"]
    by (auto simp: Listener_round_def Listener_receive_def split: prod.splits l_action.splits)
  also have "\<dots> < l_unread l" using Receive_conn(5) [OF s(2)] by (simp add: l_unread_def s(1))
  finally show ?thesis .
qed

text \<open>The loop, run without interruption, with the deferred \<^verbatim>\<open>Close\<close>. What the broker connection holds always ends, with the end of the
  stream or an error: a read that waits on an idle connection is not a case of its own.\<close>

function Listener_handleMessages :: "tunnel_env \<Rightarrow> listener \<Rightarrow> listener" where
  "Listener_handleMessages E l =
     (case Listener_round E l of
        (True, l1) \<Rightarrow> Listener_handleMessages E l1
      | (False, l1) \<Rightarrow> Listener_Close E l1)"
  by pat_completeness auto
termination
  by (relation "measure (\<lambda>(E, l). l_unread l)") (auto dest: sym intro!: Listener_round_progress)

declare Listener_handleMessages.simps [simp del]

subsection \<open>The invariant of the streams\<close>

text \<open>A stream is ready when it has a connection, and then nothing is buffered; the connections are among the
  \<open>n\<close> local ones, and no two streams share one.\<close>

definition streams_ok :: "(u32 \<rightharpoonup> stream_state) \<Rightarrow> nat \<Rightarrow> bool" where
  "streams_ok m n \<longleftrightarrow>
     (\<forall>i st. m i = Some st \<longrightarrow> (st_ready st \<longleftrightarrow> st_conn st \<noteq> None) \<and> (st_ready st \<longrightarrow> st_buf st = []) \<and>
        (\<forall>k. st_conn st = Some k \<longrightarrow> k < n)) \<and>
     (\<forall>i j st st' k. m i = Some st \<longrightarrow> m j = Some st' \<longrightarrow> st_conn st = Some k \<longrightarrow> st_conn st' = Some k \<longrightarrow> i = j)"

definition listener_inv :: "listener \<Rightarrow> bool" where
  "listener_inv l \<longleftrightarrow> distinct (map fst (l_streams l)) \<and> streams_ok (map_of (l_streams l)) (length (l_conns l))"

lemma streams_okD:
  assumes "streams_ok m n" "m i = Some st"
  shows "st_ready st \<longleftrightarrow> st_conn st \<noteq> None" "st_conn st = Some k \<Longrightarrow> st_buf st = []"
    "st_conn st = Some k \<Longrightarrow> k < n"
  using assms unfolding streams_ok_def by fastforce+

lemma streams_ok_inj:
  "streams_ok m n \<Longrightarrow> m i = Some st \<Longrightarrow> m j = Some st' \<Longrightarrow> st_conn st = Some k \<Longrightarrow> st_conn st' = Some k \<Longrightarrow> i = j"
  unfolding streams_ok_def by blast

lemma streams_ok_mono: "streams_ok m n \<Longrightarrow> n \<le> n' \<Longrightarrow> streams_ok m n'"
  unfolding streams_ok_def using order_less_le_trans by blast

lemma streams_ok_delete: "streams_ok m n \<Longrightarrow> streams_ok (m(i := None)) n"
proof -
  have sub: "m j = Some st" if "(m(i := None)) j = Some st" for j st
    using that by (simp split: if_splits)
  assume "streams_ok m n"
  then show ?thesis unfolding streams_ok_def using sub by blast
qed

lemma streams_ok_update:
  assumes "streams_ok m n" "n \<le> n'" "st_ready st \<longleftrightarrow> st_conn st \<noteq> None" "st_ready st \<longrightarrow> st_buf st = []"
    and "\<forall>k. st_conn st = Some k \<longrightarrow> n \<le> k \<and> k < n'"
  shows "streams_ok (m(i \<mapsto> st)) n'"
proof -
  have a: "(st_ready st' \<longleftrightarrow> st_conn st' \<noteq> None) \<and> (st_ready st' \<longrightarrow> st_buf st' = []) \<and>
        (\<forall>k. st_conn st' = Some k \<longrightarrow> k < n')" if "(m(i \<mapsto> st)) j = Some st'" for j st'
    using that assms streams_okD [OF streams_ok_mono [OF assms(1,2)], of j st'] by (cases "j = i") auto
  have new: "st_conn st' \<noteq> Some k" if "m j = Some st'" "st_conn st = Some k" for j st' k
    using that streams_okD(3) [OF assms(1) that(1), of k] assms(5) by auto
  have "j = j'" if "(m(i \<mapsto> st)) j = Some st1" "(m(i \<mapsto> st)) j' = Some st2" "st_conn st1 = Some k" "st_conn st2 = Some k"
    for j j' st1 st2 k
    using that new [of _ _ k] streams_ok_inj [OF assms(1), of j st1 j' st2 k] by (cases "j = i"; cases "j' = i") auto
  with a show ?thesis unfolding streams_ok_def by blast
qed

lemma listener_inv_frame:
  "listener_inv l \<Longrightarrow> l_streams l' = l_streams l \<Longrightarrow> length (l_conns l) \<le> length (l_conns l') \<Longrightarrow> listener_inv l'"
  by (auto simp: listener_inv_def intro: streams_ok_mono)

lemma listener_inv_delete:
  "listener_inv l \<Longrightarrow> l_streams l' = AList.delete i (l_streams l) \<Longrightarrow> length (l_conns l) \<le> length (l_conns l') \<Longrightarrow>
    listener_inv l'"
  by (auto simp: listener_inv_def delete_conv' intro: streams_ok_mono streams_ok_delete distinct_delete)

lemma listener_inv_update:
  assumes "listener_inv l" "l_streams l' = AList.update i st (l_streams l)" "length (l_conns l) \<le> length (l_conns l')"
    "st_ready st \<longleftrightarrow> st_conn st \<noteq> None" "st_ready st \<longrightarrow> st_buf st = []"
    "\<forall>k. st_conn st = Some k \<longrightarrow> length (l_conns l) \<le> k \<and> k < length (l_conns l')"
  shows "listener_inv l'"
  using assms streams_ok_update [OF _ assms(3-6)] by (simp add: listener_inv_def update_conv' distinct_update)

lemma listener_inv_new: "listener_inv (NewListener p a i w)"
  by (simp add: listener_inv_def NewListener_def streams_ok_def)

lemma inv_closeStream [inv_intros]: "listener_inv l \<Longrightarrow> listener_inv (Listener_closeStream i l)"
  by (auto simp: Listener_closeStream_def Let_def split: option.split intro: listener_inv_delete)

lemma inv_removeStream [inv_intros]: "listener_inv l \<Longrightarrow> listener_inv (Listener_removeStream i l)"
  by (erule listener_inv_delete) (simp_all add: Listener_removeStream_def)

lemma inv_write [inv_intros]: "listener_inv l \<Longrightarrow> listener_inv (snd (Listener_write i k bs l))"
  by (auto simp: Listener_write_def split: prod.split option.split dest!: length_local_Write
      intro!: inv_closeStream elim!: listener_inv_frame)

lemma inv_lookup [inv_intros]: "listener_inv l \<Longrightarrow> listener_inv (snd (Listener_lookup d l))"
proof -
  assume inv: "listener_inv l"
  let ?i = "Data_GetStreamId (Some d)"
  show ?thesis
  proof (cases "map_of (l_streams l) ?i")
    case None
    then show ?thesis using inv by (simp add: Listener_lookup_def Let_def)
  next
    case (Some st)
    have r: "st_ready st \<longleftrightarrow> st_conn st \<noteq> None"
      using inv Some streams_okD(1) unfolding listener_inv_def by blast
    show ?thesis
    proof (cases "st_conn st")
      case None
      then show ?thesis using inv Some r
        by (simp add: Listener_lookup_def Let_def) (erule listener_inv_update, auto)
    next
      case (Some k)
      with \<open>map_of (l_streams l) ?i = Some st\<close> inv show ?thesis by (simp add: Listener_lookup_def Let_def)
    qed
  qed
qed

lemma inv_handleData [inv_intros]: "listener_inv l \<Longrightarrow> listener_inv (Listener_handleData d l)"
  using inv_lookup [of l d] inv_write
  by (auto simp: Listener_handleData_def split: prod.split option.split)

lemma l_Send_streams [simp]:
  "l_streams (snd (l_Send E e l)) = l_streams l" "l_conns (snd (l_Send E e l)) = l_conns l"
  "l_tasks (snd (l_Send E e l)) = l_tasks l" "l_closed (snd (l_Send E e l)) = l_closed l"
  by (simp_all add: l_Send_def split: option.split prod.split)

lemma inv_Send [inv_intros]: "listener_inv l \<Longrightarrow> listener_inv (snd (l_Send E e l))"
  by (erule listener_inv_frame) simp_all

lemma inv_misc [inv_intros]:
  "listener_inv l \<Longrightarrow> listener_inv (l_go t l)" "listener_inv l \<Longrightarrow> listener_inv (l_logf m l)"
  "listener_inv l \<Longrightarrow> listener_inv (l\<lparr>l_session := s\<rparr>)"
  by (erule listener_inv_frame; simp add: l_go_def l_logf_def)+

lemma inv_open_dial [inv_intros]: "listener_inv l \<Longrightarrow> listener_inv (snd (open_dial E dial i l))"
proof (cases "dial (JoinHostPort ''127.0.0.1'' (l_localPort l))")
  case (Inl err)
  assume "listener_inv l"
  then show ?thesis by (simp add: open_dial_def Inl Let_def) (intro inv_intros)
next
  case (Inr cn)
  assume inv: "listener_inv l"
  show ?thesis
  proof (cases "map_of (l_streams l) i")
    case None
    then show ?thesis using inv by (simp add: open_dial_def Inr) (erule listener_inv_frame, simp_all)
  next
    case (Some st)
    then show ?thesis using inv by (simp add: open_dial_def Inr Let_def) (erule listener_inv_update, simp, simp_all)
  qed
qed

lemma inv_open_drain [inv_intros]: "listener_inv l \<Longrightarrow> listener_inv (snd (open_drain i k ds l))"
proof (induction ds arbitrary: l)
  case (Cons d ds)
  then show ?case using inv_write [of l i k d]
    by (cases "Listener_write i k d l") (auto split: bool.split)
qed simp

lemma inv_handleOpenStream [inv_intros]:
  assumes "listener_inv l"
  shows "listener_inv (Listener_handleOpenStream E dial i l)"
proof -
  have "listener_inv (open_ack E i k l1)" if "listener_inv l1" for k l1
    using that unfolding open_ack_def by (intro inv_intros)
  then show ?thesis
    using inv_open_dial [OF assms, of E dial i] inv_open_drain
    unfolding Listener_handleOpenStream_def
    by (auto split: prod.split option.split bool.split) (metis snd_conv)+
qed

lemma inv_pump_end: "listener_inv l \<Longrightarrow> listener_inv (l_pump_end i r l)"
  by (auto simp: l_pump_end_def split: pump_result.split intro: inv_intros)

lemma inv_pump_round [inv_intros]: "listener_inv l \<Longrightarrow> listener_inv (snd (Listener_pump_round E n i k l))"
  by (auto simp: Listener_pump_round_def split: option.split prod.split intro!: inv_pump_end elim!: listener_inv_frame)

lemma inv_pump [inv_intros]: "listener_inv l \<Longrightarrow> listener_inv (Listener_pumpLocalToRemote E ks i k l)"
  by (auto simp: Listener_pumpLocalToRemote_def split: option.split prod.split intro!: inv_pump_end elim!: listener_inv_frame)

lemma inv_Close [inv_intros]: "listener_inv l \<Longrightarrow> listener_inv (Listener_Close E l)"
  by (simp add: Listener_Close_def close_streams_def listener_inv_def streams_ok_def)

lemma inv_dispatch [inv_intros]: "listener_inv l \<Longrightarrow> listener_inv (snd (Listener_dispatch E e l))"
  by (auto simp: Listener_dispatch_def Let_def split: option.split intro!: inv_intros elim!: listener_inv_update)

lemma inv_receive [inv_intros]: "listener_inv l \<Longrightarrow> listener_inv (snd (Listener_receive E l))"
  by (auto simp: Listener_receive_def split: option.split prod.split sum.split intro: inv_intros)

lemma inv_round [inv_intros]: "listener_inv l \<Longrightarrow> listener_inv (snd (Listener_round E l))"
  using inv_receive [of l E] inv_dispatch inv_handleData
  by (auto simp: Listener_round_def split: prod.split option.split l_action.split) (metis snd_conv)+

lemma inv_handleMessages [inv_intros]: "listener_inv l \<Longrightarrow> listener_inv (Listener_handleMessages E l)"
proof (induction E l rule: Listener_handleMessages.induct)
  case (1 E l)
  show ?case
    using "1.IH" inv_round [OF "1.prems", of E] inv_Close
    by (subst Listener_handleMessages.simps) (auto split: prod.split bool.split)
qed

subsection \<open>The listener distributes data to its streams\<close>

abbreviation l_stream :: "listener \<Rightarrow> u32 \<Rightarrow> stream_state option" where
  "l_stream l \<equiv> map_of (l_streams l)"

text \<open>What the local service has been sent on a stream, together with what is still buffered for it.\<close>

definition listener_got :: "listener \<Rightarrow> u32 \<Rightarrow> bytes" where
  "listener_got l i =
     (case l_stream l i of
        None \<Rightarrow> []
      | Some st \<Rightarrow> (case st_conn st of None \<Rightarrow> [] | Some k \<Rightarrow> tx (l_conns l ! k)) @ concat (st_buf st))"

text \<open>The stream is known, and its connection, if it has one already, works.\<close>

definition listener_accepts :: "listener \<Rightarrow> u32 \<Rightarrow> bool" where
  "listener_accepts l i =
     (case l_stream l i of
        None \<Rightarrow> False
      | Some st \<Rightarrow> (case st_conn st of None \<Rightarrow> True | Some k \<Rightarrow> healthy (l_conns l ! k)))"

definition listener_tracked :: "listener \<Rightarrow> u32 \<Rightarrow> bool" where
  "listener_tracked l i \<longleftrightarrow> l_stream l i \<noteq> None"

lemma closeStream_stream: "l_stream (Listener_closeStream i l) = (l_stream l)(i := None)"
  by (auto simp: Listener_closeStream_def Let_def delete_conv' split: option.split)

lemma closeStream_conns:
  "l_conns (Listener_closeStream i l) =
     (case l_stream l i of
        Some st \<Rightarrow> (case st_conn st of Some k \<Rightarrow> local_Close k (l_conns l) | None \<Rightarrow> l_conns l)
      | None \<Rightarrow> l_conns l)"
  by (simp add: Listener_closeStream_def Let_def split: option.split)

text \<open>An update of the connection of one stream does not show on another.\<close>

lemma listener_view_other:
  assumes "listener_inv l" "j \<noteq> i" "l_stream l' j = l_stream l j"
    and "\<And>k. (\<forall>st. l_stream l i = Some st \<longrightarrow> st_conn st \<noteq> Some k) \<Longrightarrow> k < length (l_conns l) \<Longrightarrow> l_conns l' ! k = l_conns l ! k"
  shows "listener_got l' j = listener_got l j" "listener_accepts l' j = listener_accepts l j"
    "listener_tracked l' j = listener_tracked l j"
proof -
  have same: "l_conns l' ! k = l_conns l ! k" if st: "l_stream l j = Some st" "st_conn st = Some k" for st k
  proof (rule assms(4))
    show "k < length (l_conns l)" using assms(1) st streams_okD(3) unfolding listener_inv_def by blast
    show "\<forall>st. l_stream l i = Some st \<longrightarrow> st_conn st \<noteq> Some k"
      using assms(1,2) st streams_ok_inj unfolding listener_inv_def by blast
  qed
  show "listener_got l' j = listener_got l j" "listener_accepts l' j = listener_accepts l j"
    "listener_tracked l' j = listener_tracked l j"
    using same by (auto simp: listener_got_def listener_accepts_def listener_tracked_def assms(3) split: option.split)
qed

lemma closeStream_other:
  assumes "listener_inv l" "j \<noteq> i"
  shows "listener_got (Listener_closeStream i l) j = listener_got l j"
    "listener_accepts (Listener_closeStream i l) j = listener_accepts l j"
    "listener_tracked (Listener_closeStream i l) j = listener_tracked l j"
proof -
  have "l_conns (Listener_closeStream i l) ! k = l_conns l ! k"
    if "\<forall>st. l_stream l i = Some st \<longrightarrow> st_conn st \<noteq> Some k" "k < length (l_conns l)" for k
    using that by (auto simp: closeStream_conns nth_local_Close split: option.split)
  then show "listener_got (Listener_closeStream i l) j = listener_got l j"
    "listener_accepts (Listener_closeStream i l) j = listener_accepts l j"
    "listener_tracked (Listener_closeStream i l) j = listener_tracked l j"
    using listener_view_other [OF assms, of "Listener_closeStream i l"] assms(2) by (simp_all add: closeStream_stream)
qed

abbreviation l_put :: "listener \<Rightarrow> u32 \<Rightarrow> bytes \<Rightarrow> listener" where
  "l_put l i d \<equiv> Listener_handleData \<lparr>Data_StreamId = i, Data_Payload = d\<rparr> l"

lemma l_put_cases:
  "l_put l i d =
     (case l_stream l i of
        None \<Rightarrow> l
      | Some st \<Rightarrow>
          (case st_conn st of
             None \<Rightarrow> l\<lparr>l_streams := AList.update i (st\<lparr>st_buf := st_buf st @ [d]\<rparr>) (l_streams l)\<rparr>
           | Some k \<Rightarrow> snd (Listener_write i k d l)))"
  by (simp add: Listener_handleData_def Listener_lookup_def Let_def Data_GetStreamId_def Data_GetPayload_def
      split: option.split)

lemma Listener_write_other:
  assumes "listener_inv l" "j \<noteq> i" "l_stream l i = Some st" "st_conn st = Some k"
  shows "listener_got (snd (Listener_write i k d l)) j = listener_got l j"
    "listener_accepts (snd (Listener_write i k d l)) j = listener_accepts l j"
    "listener_tracked (snd (Listener_write i k d l)) j = listener_tracked l j"
proof -
  obtain r cs where w: "local_Write (l_conns l) k d = (r, cs)" by fastforce
  define l1 where "l1 = l\<lparr>l_conns := cs\<rparr>"
  have inv1: "listener_inv l1" using assms(1) length_local_Write [OF w] by (auto simp: l1_def elim!: listener_inv_frame)
  have "l_conns l1 ! k' = l_conns l ! k'" if "\<forall>st. l_stream l i = Some st \<longrightarrow> st_conn st \<noteq> Some k'" for k'
    using that assms(3,4) local_Write_other [OF w, of k'] by (auto simp: l1_def)
  then have same: "listener_got l1 j = listener_got l j" "listener_accepts l1 j = listener_accepts l j"
      "listener_tracked l1 j = listener_tracked l j"
    using listener_view_other [OF assms(1,2), of l1] by (simp_all add: l1_def)
  have res: "snd (Listener_write i k d l) = (if r = None then l1 else Listener_closeStream i l1)"
    by (simp add: Listener_write_def w l1_def split: option.split)
  show "listener_got (snd (Listener_write i k d l)) j = listener_got l j"
    "listener_accepts (snd (Listener_write i k d l)) j = listener_accepts l j"
    "listener_tracked (snd (Listener_write i k d l)) j = listener_tracked l j"
    unfolding res using closeStream_other [OF inv1 assms(2)] same by simp_all
qed

lemma l_put_accepted:
  assumes "listener_inv l" "listener_accepts l i"
  shows "listener_got (l_put l i d) i = listener_got l i @ d" "listener_accepts (l_put l i d) i"
proof -
  from assms(2) obtain st where st: "l_stream l i = Some st" by (auto simp: listener_accepts_def split: option.splits)
  have "listener_got (l_put l i d) i = listener_got l i @ d \<and> listener_accepts (l_put l i d) i"
  proof (cases "st_conn st")
    case None
    then show ?thesis by (simp add: l_put_cases st listener_got_def listener_accepts_def update_conv')
  next
    case (Some k)
    have "st_buf st = []" "k < length (l_conns l)"
      using assms(1) st Some streams_okD(2,3) unfolding listener_inv_def by blast+
    moreover have "healthy (l_conns l ! k)" using assms(2) st Some by (simp add: listener_accepts_def)
    ultimately show ?thesis
      by (simp add: l_put_cases st Some Listener_write_def local_Write_healthy listener_got_def listener_accepts_def)
  qed
  then show "listener_got (l_put l i d) i = listener_got l i @ d" "listener_accepts (l_put l i d) i" by auto
qed

lemma l_put_other:
  assumes "listener_inv l" "j \<noteq> i"
  shows "listener_got (l_put l i d) j = listener_got l j \<and> listener_tracked (l_put l i d) j = listener_tracked l j \<and>
    listener_accepts (l_put l i d) j = listener_accepts l j"
proof (cases "l_stream l i")
  case (Some st)
  show ?thesis
  proof (cases "st_conn st")
    case None
    then show ?thesis using Some assms(2)
      by (simp add: l_put_cases listener_got_def listener_accepts_def listener_tracked_def update_conv' split: option.split)
  next
    case k: (Some k)
    then show ?thesis using Some Listener_write_other [OF assms Some k] by (simp add: l_put_cases)
  qed
qed (simp add: l_put_cases)

fun Listener_event :: "stream_event \<Rightarrow> listener \<Rightarrow> listener" where
  "Listener_event (Ev_Data i d) l = Listener_handleData \<lparr>Data_StreamId = i, Data_Payload = d\<rparr> l"
| "Listener_event (Ev_Close i) l = Listener_closeStream i l"

interpretation ld: stream_demux l_put "\<lambda>l i. Listener_closeStream i l"
  listener_tracked listener_accepts listener_got listener_inv Listener_event
proof
  fix l and i :: u32 and d
  show "Listener_event (Ev_Data i d) l = l_put l i d" "Listener_event (Ev_Close i) l = Listener_closeStream i l" by simp_all
next
  fix l and i :: u32 and d assume inv: "listener_inv l"
  show "listener_inv (l_put l i d)" using inv by (rule inv_handleData)
  show "listener_inv (Listener_closeStream i l)" using inv by (rule inv_closeStream)
  show "\<not> listener_tracked (Listener_closeStream i l) i" by (simp add: listener_tracked_def closeStream_stream)
  assume "listener_accepts l i"
  with inv show "listener_got (l_put l i d) i = listener_got l i @ d" "listener_accepts (l_put l i d) i"
    using l_put_accepted by blast+
next
  fix l and i :: u32 assume "listener_accepts l i"
  then show "listener_tracked l i" by (auto simp: listener_accepts_def listener_tracked_def split: option.splits)
next
  fix l and i :: u32 and d assume n: "\<not> listener_tracked l i"
  then show "l_put l i d = l" by (simp add: listener_tracked_def l_put_cases)
  from n show "Listener_closeStream i l = l" by (simp add: listener_tracked_def Listener_closeStream_def)
next
  fix l and j i :: u32 and d assume a: "listener_inv l" "j \<noteq> i"
  show "listener_got (l_put l i d) j = listener_got l j \<and> listener_tracked (l_put l i d) j = listener_tracked l j \<and>
      listener_accepts (l_put l i d) j = listener_accepts l j" using a by (rule l_put_other)
  show "listener_got (Listener_closeStream i l) j = listener_got l j \<and>
      listener_tracked (Listener_closeStream i l) j = listener_tracked l j \<and>
      listener_accepts (Listener_closeStream i l) j = listener_accepts l j"
    using closeStream_other [OF a] by blast
qed

subsection \<open>The message loop feeds the streams\<close>

lemma l_put_session: "l_put (l\<lparr>l_session := x\<rparr>) i d = (l_put l i d)\<lparr>l_session := x\<rparr>"
  by (simp add: l_put_cases Listener_write_def Listener_closeStream_def Let_def split: option.split prod.split)

lemma closeStream_session: "Listener_closeStream i (l\<lparr>l_session := x\<rparr>) = (Listener_closeStream i l)\<lparr>l_session := x\<rparr>"
  by (simp add: Listener_closeStream_def Let_def split: option.split)

lemma handle_session: "Listener_event ev (l\<lparr>l_session := x\<rparr>) = (Listener_event ev l)\<lparr>l_session := x\<rparr>"
  by (cases ev) (simp_all add: l_put_session closeStream_session)

lemma handle_frame [simp]: "l_closed (Listener_event ev l) = l_closed l" "l_session (Listener_event ev l) = l_session l"
  by (cases ev; simp add: l_put_cases Listener_write_def Listener_closeStream_def Let_def split: option.split prod.split)+

lemma feed_frame [simp]: "l_closed (fold Listener_event evs l) = l_closed l" "l_session (fold Listener_event evs l) = l_session l"
  by (induction evs arbitrary: l) simp_all

lemma feed_session: "fold Listener_event evs (l\<lparr>l_session := x\<rparr>) = (fold Listener_event evs l)\<lparr>l_session := x\<rparr>"
  by (induction evs arbitrary: l) (simp_all add: handle_session)

lemma Listener_round_event:
  assumes "l_session l = Some s" "\<not> l_closed l" "pending (te_codec E) a s (event_env ev # es)"
  obtains s' where "Listener_round E l = (True, (Listener_event ev l)\<lparr>l_session := Some s'\<rparr>)"
    "pending (te_codec E) a s' es"
proof -
  obtain s' where s': "Receive (te_codec E) s = (Inr (event_env ev), s')" "pending (te_codec E) a s' es"
    using pending_Receive [OF assms(3)] .
  have "Listener_round E l = (True, Listener_event ev (l\<lparr>l_session := Some s'\<rparr>))"
    using assms(1,2) s'(1)
    by (cases ev) (simp_all add: Listener_round_def Listener_receive_def Listener_dispatch_def getter_defs
        CloseStream_GetStreamId_def)
  then show thesis using that s'(2) by (simp add: handle_session)
qed

lemma Listener_handleMessages_feed:
  assumes "l_session l = Some s" "\<not> l_closed l" "pending (te_codec E) a s (map event_env evs @ es)"
  shows "\<exists>s'. pending (te_codec E) a s' es \<and>
    Listener_handleMessages E l = Listener_handleMessages E ((fold Listener_event evs l)\<lparr>l_session := Some s'\<rparr>)"
  using assms
proof (induction evs arbitrary: l s)
  case Nil
  have "l\<lparr>l_session := Some s\<rparr> = l" using Nil.prems(1) by (cases l) simp
  with Nil.prems(3) show ?case by (metis append_Nil fold_simps(1) list.map(1))
next
  case (Cons ev evs)
  then obtain s' where s': "Listener_round E l = (True, (Listener_event ev l)\<lparr>l_session := Some s'\<rparr>)"
    "pending (te_codec E) a s' (map event_env evs @ es)"
    using Listener_round_event [OF Cons.prems(1,2)] by (metis append_Cons list.map(2))
  have "Listener_handleMessages E l = Listener_handleMessages E ((Listener_event ev l)\<lparr>l_session := Some s'\<rparr>)"
    by (subst Listener_handleMessages.simps) (simp add: s'(1))
  with Cons.IH [OF _ _ s'(2), of "(Listener_event ev l)\<lparr>l_session := Some s'\<rparr>"] Cons.prems(2)
  show ?case by (simp add: feed_session)
qed

subsection \<open>Opening\<close>

lemma open_drain_healthy:
  assumes "k < length (l_conns l)" "healthy (l_conns l ! k)"
  shows "open_drain i k ds l =
    (True, l\<lparr>l_conns := (l_conns l)[k := (l_conns l ! k)\<lparr>tx := tx (l_conns l ! k) @ concat ds\<rparr>]\<rparr>)"
  using assms
proof (induction ds arbitrary: l)
  case (Cons d ds)
  then show ?case by (simp add: Listener_write_def local_Write_healthy)
qed simp

text \<open>With a working dial, opening writes what was buffered, acknowledges and starts the pump.\<close>

lemma Listener_handleOpenStream_ok:
  assumes "dial (JoinHostPort ''127.0.0.1'' (l_localPort l)) = Inr cn" "healthy cn" "l_stream l i = Some st"
  shows "Listener_handleOpenStream E dial i l =
    open_ack E i (length (l_conns l))
      (l\<lparr>l_streams := AList.update i \<lparr>st_conn = Some (length (l_conns l)), st_buf = [], st_ready = True\<rparr> (l_streams l),
         l_conns := l_conns l @ [cn\<lparr>tx := tx cn @ concat (st_buf st)\<rparr>]\<rparr>)"
  using assms by (simp add: Listener_handleOpenStream_def open_dial_def Let_def open_drain_healthy)

lemma Listener_handleOpenStream_got:
  assumes "dial (JoinHostPort ''127.0.0.1'' (l_localPort l)) = Inr cn" "healthy cn" "tx cn = []"
    and "l_stream l i = Some st" "st_conn st = None"
  shows "listener_got (Listener_handleOpenStream E dial i l) i = listener_got l i"
    "listener_accepts (Listener_handleOpenStream E dial i l) i"
    "l_stream (Listener_handleOpenStream E dial i l) i = Some \<lparr>st_conn = Some (length (l_conns l)), st_buf = [], st_ready = True\<rparr>"
    "T_pump i (length (l_conns l)) \<in> set (l_tasks (Listener_handleOpenStream E dial i l))"
  unfolding Listener_handleOpenStream_ok [of dial l, OF assms(1,2,4)] using assms(2,3,5)
  by (simp_all add: open_ack_def l_go_def listener_got_def listener_accepts_def update_conv' assms(4))

lemma handleOpenStream_inv_port:
  "l_localPort (Listener_event ev l) = l_localPort l" "l_localPort (fold Listener_event evs l) = l_localPort l"
proof -
  show h: "l_localPort (Listener_event ev l) = l_localPort l" for ev l
    by (cases ev) (simp_all add: l_put_cases Listener_write_def Listener_closeStream_def Let_def split: option.split prod.split)
  show "l_localPort (fold Listener_event evs l) = l_localPort l" by (induction evs arbitrary: l) (simp_all add: h)
qed

text \<open>Events do not set or change the connection of a stream that stays open.\<close>

lemma handle_conn:
  assumes "listener_inv l" "listener_accepts l i" "ev \<noteq> Ev_Close i" "l_stream l i = Some st"
  shows "\<exists>st'. l_stream (Listener_event ev l) i = Some st' \<and> st_conn st' = st_conn st"
proof (cases ev)
  case (Ev_Close j)
  then show ?thesis using assms(3,4) by (simp add: closeStream_stream)
next
  case (Ev_Data j d)
  have k: "k < length (l_conns l)" "healthy (l_conns l ! k)" if "st_conn st = Some k" for k
    using that assms streams_okD(3) [of "l_stream l"] by (auto simp: listener_inv_def listener_accepts_def)
  have w: "l_stream (snd (Listener_write j k' d l)) i = l_stream l i" if "j \<noteq> i" for k'
    using that by (simp add: Listener_write_def closeStream_stream split: prod.split option.split)
  show ?thesis
    using Ev_Data assms(4) k w
    by (cases "j = i") (auto simp: l_put_cases update_conv' Listener_write_def local_Write_healthy split: option.split)
qed

lemma feed_conn:
  assumes "listener_inv l" "listener_accepts l i" "Ev_Close i \<notin> set evs" "l_stream l i = Some st"
  shows "\<exists>st'. l_stream (fold Listener_event evs l) i = Some st' \<and> st_conn st' = st_conn st"
  using assms
proof (induction evs arbitrary: l st)
  case (Cons ev evs)
  obtain st' where st': "l_stream (Listener_event ev l) i = Some st'" "st_conn st' = st_conn st"
    using handle_conn [OF Cons.prems(1,2) _ Cons.prems(4), of ev] Cons.prems(3) by auto
  have "listener_accepts (Listener_event ev l) i"
    using ld.fold_got [OF Cons.prems(1,2), of "[ev]"] Cons.prems(3) by simp
  with Cons.IH [OF ld.event_ok [OF Cons.prems(1)] _ _ st'(1)] Cons.prems(3) st'(2) show ?case by simp
qed simp

text \<open>C27: data that arrives while the local service is being dialled is not lost and not reordered. For
  every stream the listener knows and has not dialled yet, whatever messages come before the dial
  succeeds and after it (for this and for other streams), as long as the opening itself is not
  interrupted, the service gets on the new connection exactly the payloads of this stream in the order of
  their arrival.\<close>

theorem listener_buffers_until_open:
  assumes "listener_inv l" "map_of (l_streams l) i = Some \<lparr>st_conn = None, st_buf = [], st_ready = False\<rparr>"
    and "dial (JoinHostPort ''127.0.0.1'' (l_localPort l)) = Inr cn" "healthy cn" "tx cn = []"
    and "Ev_Close i \<notin> set (early @ late)"
    and "l2 = fold Listener_event late (Listener_handleOpenStream E dial i (fold Listener_event early l))"
  shows "\<exists>k. map_of (l_streams l2) i = Some \<lparr>st_conn = Some k, st_buf = [], st_ready = True\<rparr> \<and>
    tx (l_conns l2 ! k) = stream_bytes i early @ stream_bytes i late"
proof -
  define l1 where "l1 = fold Listener_event early l"
  have acc: "listener_accepts l i" "listener_got l i = []" using assms(2) by (simp_all add: listener_accepts_def listener_got_def)
  have cl: "Ev_Close i \<notin> set early" "Ev_Close i \<notin> set late" using assms(6) by auto
  note f1 = ld.fold_got [OF assms(1) acc(1) cl(1), folded l1_def]
  obtain st1 where st1: "l_stream l1 i = Some st1" "st_conn st1 = None"
    using feed_conn [OF assms(1) acc(1) cl(1) assms(2), folded l1_def] by auto
  have "dial (JoinHostPort ''127.0.0.1'' (l_localPort l1)) = Inr cn"
    using assms(3) by (simp add: l1_def handleOpenStream_inv_port)
  note op = Listener_handleOpenStream_got [of dial l1, OF this assms(4,5) st1, of E]
  define l1' where "l1' = Listener_handleOpenStream E dial i l1"
  have inv1: "listener_inv l1'" unfolding l1'_def using f1 by (intro inv_handleOpenStream) simp
  have l2: "l2 = fold Listener_event late l1'" by (simp add: assms(7) l1'_def l1_def)
  note f2 = ld.fold_got [OF inv1 op(2) [folded l1'_def] cl(2), folded l2]
  obtain st2 where st2: "l_stream l2 i = Some st2" "st_conn st2 = Some (length (l_conns l1))"
    using feed_conn [OF inv1 op(2) [folded l1'_def] cl(2) op(3) [folded l1'_def], folded l2] by auto
  have "st_ready st2" "st_buf st2 = []"
    using f2 st2 streams_okD(1,2) unfolding listener_inv_def by fastforce+
  with st2(2) have "st2 = \<lparr>st_conn = Some (length (l_conns l1)), st_buf = [], st_ready = True\<rparr>" by (cases st2) simp
  moreover have "tx (l_conns l2 ! length (l_conns l1)) = listener_got l2 i"
    using st2 \<open>st_buf st2 = []\<close> by (simp add: listener_got_def)
  ultimately show ?thesis using st2(1) f1 f2 op(1) acc(2) by (simp add: l1'_def)
qed

subsection \<open>Shutting down\<close>

lemma set_map_filter_conns:
  "k \<in> set (l_stream_conns l) \<longleftrightarrow> (\<exists>i st. (i, st) \<in> set (l_streams l) \<and> st_conn st = Some k)"
  by (force simp: l_stream_conns_def List.map_filter_def)

text \<open>The session of a listener with its connection closed and nothing received in between.\<close>

definition broker_closed :: "listener \<Rightarrow> bool" where
  "broker_closed l \<longleftrightarrow> (\<forall>s. l_session l = Some s \<longrightarrow> conn_closed (conn s))"

lemma close_signal_frame [simp]:
  "l_conns (close_signal E l) = l_conns l" "l_streams (close_signal E l) = l_streams l" "l_closed (close_signal E l)"
  by (auto simp: close_signal_def Let_def)

lemma Listener_Close_conns:
  assumes "listener_inv l" "\<not> l_closed l" "k < length (l_conns l)"
  shows "l_conns (Listener_Close E l) ! k =
    (if \<exists>i st. map_of (l_streams l) i = Some st \<and> st_conn st = Some k then conn_Close (l_conns l ! k) else l_conns l ! k)"
proof -
  have "k \<in> set (l_stream_conns (close_signal E l)) \<longleftrightarrow> (\<exists>i st. map_of (l_streams l) i = Some st \<and> st_conn st = Some k)"
    using assms(1) map_of_eq_Some_iff [of "l_streams l"]
    by (auto simp: set_map_filter_conns listener_inv_def)
  then show ?thesis using assms(2,3) by (simp add: Listener_Close_def close_streams_def nth_close_all)
qed

text \<open>\<^verbatim>\<open>Close\<close> releases everything. It marks the listener closed, closes the broker connection
  after sending the Disconnect notice over it, closes the local connection of every stream and no other,
  and empties the table; a second call does nothing.\<close>

lemma Listener_Close_releases:
  assumes "listener_inv l" "\<not> l_closed l" "l_session l = Some s" "l' = Listener_Close E l"
  shows "Listener_Done l' \<and> l_streams l' = [] \<and>
    l_session l' = Some (close_broker (snd (Send (te_codec E) s (bye_env ''listener shutting down'')))) \<and>
    (\<forall>k < length (l_conns l). l_conns l' ! k =
       (if \<exists>i st. map_of (l_streams l) i = Some st \<and> st_conn st = Some k then conn_Close (l_conns l ! k) else l_conns l ! k)) \<and>
    Listener_Close E l' = l'"
proof -
  have "l_session (close_signal E l) = Some (close_broker (snd (Send (te_codec E) s (bye_env ''listener shutting down''))))"
    by (auto simp: close_signal_def Let_def l_Send_def assms(3) split: prod.split)
  then have "l_session l' = Some (close_broker (snd (Send (te_codec E) s (bye_env ''listener shutting down''))))"
    "l_streams l' = []" "l_closed l'"
    using assms(2,4) by (simp_all add: Listener_Close_def close_streams_def)
  then show ?thesis
    using Listener_Close_conns [OF assms(1,2)] assms(4) by (simp add: Listener_Done_def) (simp add: Listener_Close_def)
qed

lemma Listener_round_closed: "l_closed (snd (Listener_round E l)) = l_closed l"
proof -
  have c: "l_closed (Listener_closeStream i l) = l_closed l" for i l
    by (simp add: Listener_closeStream_def Let_def split: option.split)
  have h: "l_closed (Listener_handleData d l) = l_closed l" for d l
    by (simp add: Listener_handleData_def Listener_lookup_def Listener_write_def Let_def c split: option.split prod.split)
  have d: "l_closed (snd (Listener_dispatch E e l)) = l_closed l" for e l
    by (simp add: Listener_dispatch_def Let_def c l_go_def l_logf_def split: option.split)
  have r: "l_closed (snd (Listener_receive E l)) = l_closed l"
    by (simp add: Listener_receive_def split: option.split prod.split sum.split)
  show ?thesis using r d [of _ "snd (Listener_receive E l)"] h
    by (auto simp: Listener_round_def split: prod.split option.split l_action.split) (metis snd_conv)+
qed

lemma Listener_Close_done:
  "l_closed (Listener_Close E l) \<and> (\<not> l_closed l \<longrightarrow> l_streams (Listener_Close E l) = [] \<and> broker_closed (Listener_Close E l))"
  by (auto simp: Listener_Close_def close_streams_def close_signal_def Let_def broker_closed_def close_broker_def conn_Close_def)

lemma handleMessages_runs:
  "\<not> l_closed l \<Longrightarrow> listener_inv l \<Longrightarrow>
    \<exists>n \<le> l_unread l. \<exists>l1. (\<forall>m<n. fst (Listener_round E (((\<lambda>l. snd (Listener_round E l)) ^^ m) l))) \<and>
      Listener_round E (((\<lambda>l. snd (Listener_round E l)) ^^ n) l) = (False, l1) \<and> \<not> l_closed l1 \<and> listener_inv l1 \<and>
      Listener_handleMessages E l = Listener_Close E l1"
proof (induction E l rule: Listener_handleMessages.induct)
  case (1 E l)
  obtain b l1 where r: "Listener_round E l = (b, l1)" by fastforce
  have c: "\<not> l_closed l1" "listener_inv l1"
    using Listener_round_closed [of E l] inv_round [OF "1.prems"(2), of E] "1.prems"(1) r by simp_all
  let ?it = "\<lambda>n. (\<lambda>l. snd (Listener_round E l)) ^^ n"
  show ?case
  proof (cases b)
    case True
    then obtain n l2 where n: "n \<le> l_unread l1" "\<forall>m<n. fst (Listener_round E (?it m l1))"
        "Listener_round E (?it n l1) = (False, l2)" "\<not> l_closed l2" "listener_inv l2"
        "Listener_handleMessages E l1 = Listener_Close E l2" using "1.IH" [of b l1] r c by auto
    have s: "?it (Suc m) l = ?it m l1" for m using r by (simp add: funpow_Suc_right del: funpow.simps(2))
    have "l_unread l1 < l_unread l" using Listener_round_progress [of E l l1] r True by simp
    moreover have "fst (Listener_round E (?it m l))" if "m < Suc n" for m
      using n(2) s r True that by (cases m) (simp_all del: funpow.simps(2))
    moreover have "Listener_handleMessages E l = Listener_Close E l2"
      using n(6) r True by (simp add: Listener_handleMessages.simps [of E l])
    ultimately show ?thesis using n(1,3-5) s [of n] by (intro exI [of _ "Suc n"] exI [of _ l2]) (simp del: funpow.simps(2))
  next
    case False
    then show ?thesis using r c by (intro exI [of _ 0] exI [of _ l1]) (simp add: Listener_handleMessages.simps [of E l])
  qed
qed

text \<open>C32: the message loop always ends, and it ends closed. On an open listener \<^verbatim>\<open>handleMessages\<close> returns after at most
  one round for each byte the broker connection holds and one more, whatever that content is. It sends the broker a Disconnect
  message, closes the broker connection and the local connection of every stream that is in the table when the loop is left,
  and leaves the listener closed with an empty table.\<close>

theorem handleMessages_ends_closed:
  assumes "listener_inv l" "\<not> l_closed l" "l' = Listener_handleMessages E l"
  shows "\<exists>n l1. n \<le> l_unread l \<and>
    (\<forall>m<n. fst (Listener_round E (((\<lambda>l. snd (Listener_round E l)) ^^ m) l))) \<and>
    Listener_round E (((\<lambda>l. snd (Listener_round E l)) ^^ n) l) = (False, l1) \<and>
    Listener_Done l' \<and> l_streams l' = [] \<and>
    l_session l' = map_option (\<lambda>s. close_broker (snd (Send (te_codec E) s (bye_env ''listener shutting down'')))) (l_session l1) \<and>
    (\<forall>i st k. map_of (l_streams l1) i = Some st \<and> st_conn st = Some k \<longrightarrow> conn_closed (l_conns l' ! k))"
proof -
  obtain n l1 where n: "n \<le> l_unread l" "\<forall>m<n. fst (Listener_round E (((\<lambda>l. snd (Listener_round E l)) ^^ m) l))"
      "Listener_round E (((\<lambda>l. snd (Listener_round E l)) ^^ n) l) = (False, l1)" "\<not> l_closed l1" "listener_inv l1"
      "l' = Listener_Close E l1" using handleMessages_runs [OF assms(2,1), of E] assms(3) by blast
  have "conn_closed (l_conns l' ! k)" if "map_of (l_streams l1) i = Some st" "st_conn st = Some k" for i st k
  proof -
    have "k < length (l_conns l1)" using n(5) that streams_okD(3) by (fastforce simp: listener_inv_def)
    then show ?thesis using Listener_Close_conns [OF n(5,4)] that unfolding n(6) by (auto simp: conn_Close_def)
  qed
  moreover have "Listener_Done l'" "l_streams l' = []"
    using Listener_Close_done [of E l1] n(4) unfolding n(6) Listener_Done_def by simp_all
  moreover have "l_session l' = map_option (\<lambda>s. close_broker (snd (Send (te_codec E) s (bye_env ''listener shutting down'')))) (l_session l1)"
    unfolding n(6) using n(4) by (cases "l_session l1")
      (auto simp: Listener_Close_def close_streams_def close_signal_def Let_def l_Send_def split: prod.split)
  ultimately show ?thesis using n(1-3) by blast
qed

text \<open>When the local service ends a stream, the other side is told but the local connection is not
  released. A pump that reads the end of the stream on an open connection forgets the stream without closing
  the connection, and a later \<^verbatim>\<open>Close\<close> no longer knows it.\<close>

lemma pump_end_leaves_connection:
  assumes "listener_inv l" "\<not> l_closed l" "l_session l = Some s"
    and "map_of (l_streams l) i = Some \<lparr>st_conn = Some k, st_buf = [], st_ready = True\<rparr>"
    and "rx (l_conns l ! k) = []" "\<not> conn_closed (l_conns l ! k)"
    and "l' = Listener_pumpLocalToRemote E ks i k l"
  shows "map_of (l_streams l') i = None \<and> l_session l' = Some (snd (Send (te_codec E) s (close_env i))) \<and>
    \<not> conn_closed (l_conns l' ! k) \<and> \<not> conn_closed (l_conns (Listener_Close E l') ! k)"
proof -
  have k: "k < length (l_conns l)" using assms(1,4) streams_okD(3) by (fastforce simp: listener_inv_def)
  have "pump (te_codec E) False ks i s (l_conns l ! k) = (PumpEnd, snd (Send (te_codec E) s (close_env i)), l_conns l ! k)"
    using assms(5,6) by (simp add: pump.simps pump_round_def conn_Read_def)
  then have l': "l' = Listener_removeStream i (l\<lparr>l_session := Some (snd (Send (te_codec E) s (close_env i)))\<rparr>)"
    using assms(2,3,7) by (simp add: Listener_pumpLocalToRemote_def l_pump_end_def)
  have inv': "listener_inv l'" unfolding assms(7) using assms(1) by (rule inv_pump)
  have m: "map_of (l_streams l') = (map_of (l_streams l))(i := None)"
    by (simp add: l' Listener_removeStream_def delete_conv')
  have c: "l_conns l' = l_conns l" "\<not> l_closed l'" by (simp_all add: l' Listener_removeStream_def assms(2))
  have only: "\<not> (\<exists>j st. map_of (l_streams l') j = Some st \<and> st_conn st = Some k)"
    using assms(1,4) streams_ok_inj by (fastforce simp: m listener_inv_def split: if_splits)
  have "\<not> conn_closed (l_conns (Listener_Close E l') ! k)"
    using Listener_Close_conns [OF inv' c(2), of k E] k only assms(6) by (simp add: c)
  then show ?thesis using assms(6) by (simp add: m c) (simp add: l' Listener_removeStream_def)
qed

text \<open>An OpenStream for a stream that is already open replaces its state without closing its connection, and a later
  \<^verbatim>\<open>Close\<close> does not know it.\<close>

lemma reopened_stream_leaks:
  assumes "listener_inv l" "\<not> l_closed l" "map_of (l_streams l) i = Some st" "st_conn st = Some k"
    and "GetOpenStream e = Some m" "OpenStream_GetStreamId (Some m) = i" "l' = snd (Listener_dispatch E e l)"
  shows "l_conns l' ! k = l_conns l ! k \<and> l_conns (Listener_Close E l') ! k = l_conns l ! k"
proof -
  have l': "l_conns l' = l_conns l" "l_streams l' = AList.update i \<lparr>st_conn = None, st_buf = [], st_ready = False\<rparr> (l_streams l)"
    "\<not> l_closed l'" using assms(2,5,6,7) by (simp_all add: Listener_dispatch_def Let_def l_go_def)
  have inv: "listener_inv l'" unfolding assms(7) by (rule inv_dispatch [OF assms(1)])
  have "k < length (l_conns l')" using assms(1,3,4) streams_okD(3) l'(1) by (fastforce simp: listener_inv_def)
  moreover have "\<not> (\<exists>j s. map_of (l_streams l') j = Some s \<and> st_conn s = Some k)"
    using assms(1,3,4) streams_ok_inj by (fastforce simp: l'(2) update_conv' listener_inv_def split: if_splits)
  ultimately have "l_conns (Listener_Close E l') ! k = l_conns l' ! k" using Listener_Close_conns [OF inv l'(3), of k E] by auto
  with l'(1) show ?thesis by simp
qed

subsection \<open>A concrete instance\<close>

definition sample_listener :: listener where
  "sample_listener = (NewListener ''80'' ''broker:1781'' ''web'' ''pw'')
     \<lparr>l_session := Some sample_session, l_streams := [(7, \<lparr>st_conn = None, st_buf = [], st_ready = False\<rparr>)]\<rparr>"

lemma sample_listener_inv: "listener_inv sample_listener"
  by (simp add: listener_inv_def streams_ok_def sample_listener_def NewListener_def)

theorem listener_buffers_until_open_witness:
  "\<exists>k. tx (l_conns (fold Listener_event [Ev_Data 7 [3], Ev_Close 9]
        (Listener_handleOpenStream sample_tenv (\<lambda>_. Inr sample_conn) 7
           (fold Listener_event [Ev_Data 7 [1], Ev_Data 8 [9], Ev_Data 7 [2]] sample_listener))) ! k) = [1, 2, 3]"
proof -
  have "map_of (l_streams sample_listener) 7 = Some \<lparr>st_conn = None, st_buf = [], st_ready = False\<rparr>"
    by (simp add: sample_listener_def NewListener_def)
  from listener_buffers_until_open [OF sample_listener_inv this, of "\<lambda>_. Inr sample_conn" sample_conn
      "[Ev_Data 7 [1], Ev_Data 8 [9], Ev_Data 7 [2]]" "[Ev_Data 7 [3], Ev_Close 9]", OF refl _ _ _ refl, of sample_tenv]
  show ?thesis by (auto simp: healthy_def sample_conn_def)
qed

theorem handleMessages_ends_closed_witness:
  "\<exists>l'. l' = Listener_handleMessages sample_tenv
       (sample_listener\<lparr>l_streams := [(7, \<lparr>st_conn = Some 0, st_buf = [], st_ready = True\<rparr>)], l_conns := [sample_conn]\<rparr>) \<and>
     Listener_Done l' \<and> l_streams l' = [] \<and> conn_closed (l_conns l' ! 0) \<and>
     (\<exists>s'. l_session l' = Some s' \<and> conn_closed (conn s'))"
proof -
  let ?l = "sample_listener\<lparr>l_streams := [(7, \<lparr>st_conn = Some 0, st_buf = [], st_ready = True\<rparr>)], l_conns := [sample_conn]\<rparr>"
  have inv: "listener_inv ?l" by (simp add: listener_inv_def streams_ok_def)
  have l: "\<not> l_closed ?l" "l_session ?l = Some sample_session" by (simp_all add: sample_listener_def NewListener_def)
  obtain n l1 where t: "n \<le> l_unread ?l"
      "Listener_round sample_tenv (((\<lambda>l. snd (Listener_round sample_tenv l)) ^^ n) ?l) = (False, l1)"
      "Listener_Done (Listener_handleMessages sample_tenv ?l)" "l_streams (Listener_handleMessages sample_tenv ?l) = []"
      "l_session (Listener_handleMessages sample_tenv ?l) =
        map_option (\<lambda>s. close_broker (snd (Send (te_codec sample_tenv) s (bye_env ''listener shutting down'')))) (l_session l1)"
      "\<forall>i st k. map_of (l_streams l1) i = Some st \<and> st_conn st = Some k \<longrightarrow>
         conn_closed (l_conns (Listener_handleMessages sample_tenv ?l) ! k)"
    using handleMessages_ends_closed [OF inv l(1) refl, of sample_tenv] by blast
  have "l_unread ?l = 0" using l(2) by (simp add: l_unread_def sample_session_def sample_conn_def)
  then have r: "Listener_round sample_tenv ?l = (False, l1)" using t(1,2) by simp
  obtain err s1 where "Receive proto_codec sample_session = (Inl err, s1)"
    using Receive_conn(5) [of proto_codec sample_session] by (cases "Receive proto_codec sample_session"; cases "fst (Receive proto_codec sample_session)")
      (auto simp: sample_session_def sample_conn_def)
  then have "l1 = ?l\<lparr>l_session := Some s1\<rparr>" using r l by (simp add: Listener_round_def Listener_receive_def)
  then have s1: "map_of (l_streams l1) 7 = Some \<lparr>st_conn = Some 0, st_buf = [], st_ready = True\<rparr>" "l_session l1 = Some s1"
    by simp_all
  have "conn_closed (l_conns (Listener_handleMessages sample_tenv ?l) ! 0)"
    by (rule t(6) [rule_format, OF conjI [OF s1(1)]]) simp
  then show ?thesis using s1(2) t(3-5) by (auto simp: close_broker_def conn_Close_def)
qed

lemma pump_end_leaves_connection_witness:
  "\<not> conn_closed (l_conns (Listener_Close sample_tenv (Listener_pumpLocalToRemote sample_tenv (\<lambda>_. 1) 7 0
     (sample_listener\<lparr>l_streams := [(7, \<lparr>st_conn = Some 0, st_buf = [], st_ready = True\<rparr>)], l_conns := [sample_conn]\<rparr>))) ! 0)"
proof -
  let ?l = "sample_listener\<lparr>l_streams := [(7, \<lparr>st_conn = Some 0, st_buf = [], st_ready = True\<rparr>)], l_conns := [sample_conn]\<rparr>"
  have "listener_inv ?l" by (simp add: listener_inv_def streams_ok_def)
  from pump_end_leaves_connection [OF this _ _ _ _ _ refl, of sample_session 7 0 sample_tenv "\<lambda>_. 1"]
  show ?thesis by (simp add: sample_listener_def NewListener_def sample_conn_def)
qed

subsection \<open>A concrete start\<close>

lemma sample_Listener_Start:
  assumes "sendable (Envelope_Register \<lparr>Register_ConnectionId = i\<rparr>)"
  shows "\<exists>cn s. Listener_Start sample_tenv (\<lambda>_. Inr cn) (Inr (replicate 32 1)) True (NewListener port broker i pw) =
    (None, Some (conn s), l_go T_handleMessages ((NewListener port broker i pw)\<lparr>l_session := Some s\<rparr>))"
proof -
  let ?ack = "Envelope_RegisterAck \<lparr>RegisterAck_Success = True, RegisterAck_Message = ''ok''\<rparr>"
  obtain cn s rk sk where s: "PerformHandshake proto_codec sample_curve (Inr (replicate 32 1)) True cn = (Inr s, conn s)"
      "healthy (conn s)" "gcm (sendEnc s) = aes_NewGCM sk" "gcm (recvEnc s) = aes_NewGCM rk"
      "rx (conn s) = wire (aes_NewGCM rk) (counter (recvEnc s)) [proto_payload ?ack]"
    using sample_handshake [of "[proto_payload ?ack]"] by blast
  have l: "sendable (Envelope_Authenticate \<lparr>Authenticate_PassphraseHash = sha256_Sum256 (bytes_of_string pw)\<rparr>)"
    "sendable ?ack"
    by (simp_all add: sendable_simps)
  from sample_greeting [OF s(2-5) l(1) assms l(2)] obtain s1 s2 s3 where
    g: "Send proto_codec s (auth_env pw) = (None, s1)"
       "Send proto_codec s1 (env (Envelope_Register \<lparr>Register_ConnectionId = i\<rparr>)) = (None, s2)"
       "Receive proto_codec s2 = (Inr (env ?ack), s3)" by (auto simp: auth_env_def)
  have "Listener_Start sample_tenv (\<lambda>_. Inr cn) (Inr (replicate 32 1)) True (NewListener port broker i pw) =
    (None, Some (conn s3), l_go T_handleMessages ((NewListener port broker i pw)\<lparr>l_session := Some s3\<rparr>))"
    using s(1) g by (simp add: Listener_Start_def NewListener_def Let_def getter_defs RegisterAck_GetSuccess_def)
  then show ?thesis by blast
qed

end
