(* ===== verification/Step_System.thy ===== *)
theory Step_System
  imports Main
begin

text \<open>
  The contract between a concurrent program, given as a step relation, and what is proved about its runs: an invariant that the
  initial states have and every step keeps holds in every reachable state; and a property that no initial state has, and
  that only a certain kind of step brings about, has such a step in the very run that led to it. The broker, the listener and
  the connector are interpretations.
\<close>

locale step_system =
  fixes step :: "'s \<Rightarrow> 's \<Rightarrow> bool"
    and init :: "'s \<Rightarrow> bool"
    and keeps :: "'s \<Rightarrow> bool"
  assumes init_keeps: "init s \<Longrightarrow> keeps s"
    and step_keeps: "keeps s \<Longrightarrow> step s s' \<Longrightarrow> keeps s'"
begin

lemma run_keeps: "step\<^sup>*\<^sup>* s s' \<Longrightarrow> keeps s \<Longrightarrow> keeps s'"
  by (induction rule: rtranclp_induct) (auto intro: step_keeps)

lemma reachable_keeps: "init s \<Longrightarrow> step\<^sup>*\<^sup>* s s' \<Longrightarrow> keeps s'"
  using run_keeps init_keeps by blast

end

locale caused_system = step_system step init keeps
  for step :: "'s \<Rightarrow> 's \<Rightarrow> bool" and init :: "'s \<Rightarrow> bool" and keeps :: "'s \<Rightarrow> bool" +
  fixes shows_up :: "'s \<Rightarrow> bool"
    and cause :: "'s \<Rightarrow> 's \<Rightarrow> bool"
  assumes init_clean: "init s \<Longrightarrow> \<not> shows_up s"
    and step_caused: "keeps s \<Longrightarrow> step s s' \<Longrightarrow> shows_up s' \<Longrightarrow> shows_up s \<or> cause s s'"
begin

lemma trace_keeps: "successively step ss \<Longrightarrow> ss \<noteq> [] \<Longrightarrow> init (hd ss) \<Longrightarrow> keeps (last ss)"
proof (induction ss rule: rev_induct)
  case (snoc s ss)
  then show ?case by (cases "ss = []") (auto simp: successively_append_iff intro: init_keeps step_keeps)
qed simp

lemma has_cause:
  "successively step ss \<Longrightarrow> ss \<noteq> [] \<Longrightarrow> init (hd ss) \<Longrightarrow> shows_up (last ss) \<Longrightarrow>
    \<exists>before s1 s2 behind. ss = before @ s1 # s2 # behind \<and> cause s1 s2"
proof (induction ss rule: rev_induct)
  case (snoc s ss)
  show ?case
  proof (cases "ss = []")
    case True
    then show ?thesis using snoc.prems init_clean by simp
  next
    case False
    with snoc.prems have run: "successively step ss" "step (last ss) s" "init (hd ss)"
      by (auto simp: successively_append_iff)
    from step_caused [OF trace_keeps [OF run(1) False run(3)] run(2)] snoc.prems(4)
    consider "shows_up (last ss)" | "cause (last ss) s" by auto
    then show ?thesis
    proof cases
      case 1
      then obtain before s1 s2 behind where "ss = before @ s1 # s2 # behind" "cause s1 s2"
        using snoc.IH [OF run(1) False run(3)] by blast
      then have "ss @ [s] = before @ s1 # s2 # (behind @ [s])" "cause s1 s2" by simp_all
      then show ?thesis by blast
    next
      case 2
      have "ss @ [s] = butlast ss @ last ss # s # []" using False by simp
      with 2 show ?thesis by blast
    qed
  qed
qed simp

end

text \<open>A run given as a closure, as the list of its states.\<close>

lemma successively_of_rtranclp:
  assumes "r\<^sup>*\<^sup>* x y"
  obtains zs where "successively r zs" "zs \<noteq> []" "hd zs = x" "last zs = y"
  using assms
proof (induction arbitrary: thesis rule: rtranclp_induct)
  case base
  show ?case by (rule base [of "[x]"]) simp_all
next
  case (step y z)
  obtain zs where "successively r zs" "zs \<noteq> []" "hd zs = x" "last zs = y" by (rule step.IH)
  then show ?case using step.hyps(2) by (intro step.prems [of "zs @ [z]"]) (simp_all add: successively_append_iff)
qed

end
