(* ===== verification/Listener_Concurrent.thy ===== *)
theory Listener_Concurrent
  imports Tunnel_Listener Step_System
begin

text \<open>
  The goroutines of a listener, interleaved. A step takes one goroutine from \<open>l_tasks\<close> and runs it to the next
  point where another can come in between: a lock that is released, a blocking call, a \<^verbatim>\<open>go\<close> statement. The
  program that owns the listener may call \<^verbatim>\<open>Close\<close> at any time.
\<close>

fun run_task :: "tunnel_env \<Rightarrow> dialer \<Rightarrow> nat \<Rightarrow> l_task \<Rightarrow> listener \<Rightarrow> listener" where
  "run_task E dial n T_handleMessages l =
     (case Listener_receive E l of
        (None, l1) \<Rightarrow> l_go T_Close l1
      | (Some e, l1) \<Rightarrow> l_go (T_dispatch e) l1)"
| "run_task E dial n (T_dispatch e) l =
     (case Listener_dispatch E e l of
        (LStop, l1) \<Rightarrow> l_go T_Close l1
      | (LNext, l1) \<Rightarrow> l_go T_handleMessages l1
      | (LData d, l1) \<Rightarrow>
          (case Listener_lookup d l1 of
             (None, l2) \<Rightarrow> l_go T_handleMessages l2
           | (Some k, l2) \<Rightarrow> l_go (T_write (Data_GetStreamId (Some d)) k (Data_GetPayload (Some d))) l2))"
| "run_task E dial n (T_write i k bs) l = l_go T_handleMessages (snd (Listener_write i k bs l))"
| "run_task E dial n (T_handleOpenStream i) l =
     (case open_dial E dial i l of
        (None, l1) \<Rightarrow> l1
      | (Some (k, buffered), l1) \<Rightarrow> l_go (T_drain i k buffered) l1)"
| "run_task E dial n (T_drain i k []) l = open_ack E i k l"
| "run_task E dial n (T_drain i k (d # ds)) l =
     (case Listener_write i k d l of
        (True, l1) \<Rightarrow> l_go (T_drain i k ds) l1
      | (False, l1) \<Rightarrow> l1)"
| "run_task E dial n (T_pump i k) l =
     (case Listener_pump_round E n i k l of
        (PumpGo, l1) \<Rightarrow> l_go (T_pump i k) l1
      | (_, l1) \<Rightarrow> l1)"
| "run_task E dial n T_Close l = (if l_closed l then l else l_go T_close_streams (close_signal E l))"
| "run_task E dial n T_close_streams l = close_streams l"

inductive listener_step :: "tunnel_env \<Rightarrow> listener \<Rightarrow> listener \<Rightarrow> bool" for E where
  task: "l_tasks l = before @ t # behind \<Longrightarrow> listener_step E l (run_task E dial n t (l\<lparr>l_tasks := before @ behind\<rparr>))"
| owner_Close: "listener_step E l (l_go T_Close l)"

inductive listener_run :: "tunnel_env \<Rightarrow> listener \<Rightarrow> listener \<Rightarrow> bool" for E where
  none: "listener_run E l l"
| more: "listener_run E l l1 \<Longrightarrow> listener_step E l1 l2 \<Longrightarrow> listener_run E l l2"

text \<open>The listener as \<^verbatim>\<open>Start\<close> leaves it, and everything that can happen after.\<close>

definition started :: "tunnel_env \<Rightarrow> listener \<Rightarrow> bool" where
  "started E l \<longleftrightarrow> (\<exists>dial rand sent port addr connID pass cn.
     Listener_Start E dial rand sent (NewListener port addr connID pass) = (None, Some cn, l))"

lemma Listener_Start_outcome:
  "case Listener_Start E dial rand sent l of
     (None, cn, l') \<Rightarrow> \<exists>s. cn = Some (conn s) \<and> l' = l_go T_handleMessages (l\<lparr>l_session := Some s\<rparr>)
   | (Some err, cn, l') \<Rightarrow> (\<forall>c. cn = Some c \<longrightarrow> conn_closed c) \<and> l_tasks l' = l_tasks l \<and> l_streams l' = l_streams l \<and>
       (l_session l' = l_session l \<or> (\<exists>s. l_session l' = Some s \<and> conn_closed (conn s)))"
  by (simp add: Listener_Start_def Let_def conn_Close_def close_broker_def split: sum.split prod.split option.split) blast

subsection \<open>Isolation under every interleaving\<close>

text \<open>Which stream uses which local connection: in the table, and in the goroutines that hold one.\<close>

fun task_uses :: "l_task \<Rightarrow> (u32 \<times> nat) set" where
  "task_uses (T_write i k bs) = {(i, k)}"
| "task_uses (T_drain i k ds) = {(i, k)}"
| "task_uses (T_pump i k) = {(i, k)}"
| "task_uses t = {}"

definition stream_uses :: "listener \<Rightarrow> (u32 \<times> nat) set" where
  "stream_uses l = {(i, k). \<exists>st. l_stream l i = Some st \<and> st_conn st = Some k}"

definition uses :: "listener \<Rightarrow> (u32 \<times> nat) set" where
  "uses l = stream_uses l \<union> (\<Union>t\<in>set (l_tasks l). task_uses t)"

fun is_reader :: "l_task \<Rightarrow> bool" where
  "is_reader T_handleMessages = True"
| "is_reader (T_dispatch e) = True"
| "is_reader (T_write i k bs) = True"
| "is_reader t = False"

text \<open>No local connection is used by two streams, and at most one goroutine reads from the broker.\<close>

definition system_inv :: "listener \<Rightarrow> bool" where
  "system_inv l \<longleftrightarrow> listener_inv l \<and> uses_ok (uses l) (length (l_conns l)) \<and>
     length (filter is_reader (l_tasks l)) \<le> 1 \<and> l_session l \<noteq> None"

text \<open>An operation that gives no stream a connection it did not have, and starts no goroutine.\<close>

definition l_quiet :: "listener \<Rightarrow> listener \<Rightarrow> bool" where
  "l_quiet l l' \<longleftrightarrow> stream_uses l' \<subseteq> stream_uses l \<and> l_tasks l' = l_tasks l \<and>
     length (l_conns l) \<le> length (l_conns l') \<and> (l_session l \<noteq> None \<longrightarrow> l_session l' \<noteq> None)"

named_theorems l_quiet_intros

lemma l_quiet_refl [l_quiet_intros]: "l_quiet l l"
  by (simp add: l_quiet_def)

lemma l_quiet_trans: "l_quiet l l1 \<Longrightarrow> l_quiet l1 l2 \<Longrightarrow> l_quiet l l2"
  unfolding l_quiet_def by auto

lemma l_quiet_closeStream [l_quiet_intros]: "l_quiet l (Listener_closeStream i l)"
  by (auto simp: l_quiet_def stream_uses_def closeStream_stream closeStream_conns Listener_closeStream_def Let_def
      delete_conv' split: option.splits if_splits)

lemma l_quiet_removeStream [l_quiet_intros]: "l_quiet l (Listener_removeStream i l)"
  by (auto simp: l_quiet_def stream_uses_def Listener_removeStream_def delete_conv' split: if_splits)

lemma l_quiet_Send [l_quiet_intros]: "l_quiet l (snd (l_Send E e l))"
proof -
  have "l_session l \<noteq> None \<longrightarrow> l_session (snd (l_Send E e l)) \<noteq> None"
    using l_Send_frame(3) [of E e l] by (cases "l_Send E e l") simp
  then show ?thesis by (simp add: l_quiet_def stream_uses_def)
qed

lemma l_quiet_logf [l_quiet_intros]: "l_quiet l (l_logf m l)"
  by (simp add: l_quiet_def stream_uses_def l_logf_def)

lemma l_quiet_conns: "length (l_conns l) \<le> length cs \<Longrightarrow> l_quiet l (l\<lparr>l_conns := cs\<rparr>)"
  by (simp add: l_quiet_def stream_uses_def)

lemma l_quiet_session [l_quiet_intros]: "l_quiet l (l\<lparr>l_session := Some s\<rparr>)"
  by (simp add: l_quiet_def stream_uses_def)

lemma l_quiet_unconnected: "st_conn st = None \<Longrightarrow> l_quiet l (l\<lparr>l_streams := AList.update i st (l_streams l)\<rparr>)"
  by (auto simp: l_quiet_def stream_uses_def update_conv' split: if_splits)

lemma l_quiet_write [l_quiet_intros]: "l_quiet l (snd (Listener_write i k bs l))"
proof -
  obtain r cs where w: "local_Write (l_conns l) k bs = (r, cs)" by fastforce
  then have "l_quiet l (l\<lparr>l_conns := cs\<rparr>)" by (simp add: l_quiet_conns length_local_Write)
  with w l_quiet_closeStream l_quiet_trans show ?thesis
    by (auto simp: Listener_write_def split: option.split)
qed

lemma l_quiet_lookup [l_quiet_intros]: "l_quiet l (snd (Listener_lookup d l))"
  by (auto simp: Listener_lookup_def Let_def split: option.split intro: l_quiet_refl l_quiet_unconnected)

lemma l_quiet_pump_round [l_quiet_intros]: "l_quiet l (snd (Listener_pump_round E n i k l))"
proof (cases "l_session l")
  case (Some s)
  obtain r s1 lc1 where p: "pump_round (te_codec E) (l_closed l) n i s (l_conns l ! k) = (r, s1, lc1)" by (cases "pump_round (te_codec E) (l_closed l) n i s (l_conns l ! k)")
  let ?l = "l\<lparr>l_session := Some s1, l_conns := (l_conns l)[k := lc1]\<rparr>"
  have "l_quiet l ?l" by (simp add: l_quiet_def stream_uses_def)
  moreover have "l_quiet ?l (l_pump_end i r ?l)"
    by (auto simp: l_pump_end_def split: pump_result.split intro: l_quiet_intros)
  ultimately show ?thesis using Some p l_quiet_trans by (auto simp: Listener_pump_round_def)
qed (simp add: Listener_pump_round_def l_quiet_refl)

lemma l_quiet_receive [l_quiet_intros]: "l_quiet l (snd (Listener_receive E l))"
  by (auto simp: Listener_receive_def split: option.split prod.split sum.split intro: l_quiet_intros)

lemma l_quiet_close_streams [l_quiet_intros]: "l_quiet l (close_streams l)"
  by (simp add: l_quiet_def stream_uses_def close_streams_def)

lemma l_quiet_close_signal [l_quiet_intros]: "l_quiet l (close_signal E l)"
proof -
  have "l_quiet (l\<lparr>l_closed := True\<rparr>) (snd (l_Send E e (l\<lparr>l_closed := True\<rparr>)))" for e by (rule l_quiet_Send)
  then show ?thesis by (auto simp: close_signal_def Let_def l_quiet_def stream_uses_def)
qed


lemma uses_go: "uses (l_go t l) = uses l \<union> task_uses t"
  by (auto simp: uses_def l_go_def stream_uses_def)

lemma l_quiet_uses: "l_quiet l l' \<Longrightarrow> uses l' \<subseteq> uses l"
  by (auto simp: l_quiet_def uses_def)

text \<open>A goroutine that is taken out, works quietly, and goes on as \<open>t'\<close>.\<close>

lemma system_inv_taken:
  assumes "system_inv l" "l_tasks l = before @ t # behind"
  shows "system_inv (l\<lparr>l_tasks := before @ behind\<rparr>)"
    "uses (l\<lparr>l_tasks := before @ behind\<rparr>) \<union> task_uses t = uses l"
    "is_reader t \<Longrightarrow> filter is_reader (before @ behind) = []"
proof -
  show u: "uses (l\<lparr>l_tasks := before @ behind\<rparr>) \<union> task_uses t = uses l"
    using assms(2) by (auto simp: uses_def stream_uses_def)
  have n: "length (filter is_reader (before @ t # behind)) \<le> 1" using assms by (simp add: system_inv_def)
  then show "is_reader t \<Longrightarrow> filter is_reader (before @ behind) = []" by simp
  have "uses_ok (uses (l\<lparr>l_tasks := before @ behind\<rparr>)) (length (l_conns l))"
    by (rule uses_ok_sub [of "uses l" "length (l_conns l)"]) (use assms(1) u in \<open>auto simp: system_inv_def\<close>)
  moreover have "listener_inv (l\<lparr>l_tasks := before @ behind\<rparr>)"
    using assms(1) by (auto simp: system_inv_def elim!: listener_inv_frame)
  moreover have "length (filter is_reader (before @ behind)) \<le> 1" using n by (simp split: if_splits)
  ultimately show "system_inv (l\<lparr>l_tasks := before @ behind\<rparr>)" using assms(1) by (simp add: system_inv_def)
qed

lemma system_inv_quiet:
  assumes "system_inv l" "l_quiet l l1" "listener_inv l1"
  shows "system_inv l1"
  using assms uses_ok_sub [OF _ l_quiet_uses [OF assms(2)]] by (auto simp: system_inv_def l_quiet_def)

text \<open>The goroutine goes on as \<open>t'\<close>: it holds no more than before, and only the reader goes on as the reader.\<close>

lemma system_inv_go:
  assumes "system_inv l" "l_tasks l = before @ t # behind" "l_quiet (l\<lparr>l_tasks := before @ behind\<rparr>) l1" "listener_inv l1"
    and "task_uses t' \<subseteq> uses l" "is_reader t' \<longrightarrow> is_reader t"
  shows "system_inv (l_go t' l1)"
proof -
  note tk = system_inv_taken [OF assms(1,2)]
  have q: "system_inv l1" using system_inv_quiet [OF tk(1) assms(3,4)] .
  have "uses (l_go t' l1) \<subseteq> uses l"
    using l_quiet_uses [OF assms(3)] tk(2) assms(5) by (auto simp: uses_go)
  moreover have "length (l_conns l) \<le> length (l_conns l1)" using assms(3) by (simp add: l_quiet_def)
  ultimately have "uses_ok (uses (l_go t' l1)) (length (l_conns l1))"
    using assms(1) uses_ok_sub by (auto simp: system_inv_def)
  moreover have "length (filter is_reader (l_tasks l1 @ [t'])) \<le> 1"
    using q tk(3) assms(3,6) by (auto simp: l_quiet_def system_inv_def)
  ultimately show ?thesis using q inv_misc(1) by (simp add: system_inv_def l_go_def)
qed

lemma lookup_uses:
  assumes "Listener_lookup d l = (Some k, l1)"
  shows "(Data_GetStreamId (Some d), k) \<in> stream_uses l" "l1 = l"
  using assms by (auto simp: Listener_lookup_def Let_def stream_uses_def split: option.splits)

lemma open_dial_quiet:
  assumes "open_dial E dial i l = (None, l1)"
  shows "l_quiet l l1"
proof (cases "dial (JoinHostPort ''127.0.0.1'' (l_localPort l))")
  case (Inl err)
  have "l_quiet l (snd (l_Send E e (Listener_removeStream i (l_logf m l))))" for e m
    by (rule l_quiet_trans [OF l_quiet_trans [OF l_quiet_logf l_quiet_removeStream] l_quiet_Send])
  then show ?thesis using assms Inl by (auto simp: open_dial_def Let_def)
next
  case (Inr cn)
  then show ?thesis using assms by (auto simp: open_dial_def Let_def split: option.splits intro: l_quiet_conns)
qed

lemma open_dial_fresh:
  assumes "open_dial E dial i l = (Some (k, ds), l1)"
  shows "k = length (l_conns l)" "stream_uses l1 \<subseteq> insert (i, k) (stream_uses l)" "l_tasks l1 = l_tasks l"
    "length (l_conns l1) = Suc (length (l_conns l))" "l_session l1 = l_session l"
  using assms by (auto simp: open_dial_def Let_def stream_uses_def update_conv' split: sum.splits option.splits if_splits)

lemma system_inv_open:
  assumes "system_inv l" "open_dial E dial i l = (Some (k, ds), l1)"
  shows "system_inv (l_go (T_drain i k ds) l1)"
proof -
  note f = open_dial_fresh [OF assms(2)]
  have inv1: "listener_inv (l_go (T_drain i k ds) l1)"
    using inv_open_dial [of l E dial i] assms by (auto simp: system_inv_def intro: inv_misc)
  have u: "uses (l_go (T_drain i k ds) l1) \<subseteq> insert (i, length (l_conns l)) (uses l)"
  proof -
    have "uses l1 \<subseteq> insert (i, k) (uses l)" using f(2,3) by (auto simp: uses_def)
    then show ?thesis using f(1) by (auto simp: uses_go)
  qed
  have "uses_ok (uses l) (length (l_conns l))" using assms(1) by (simp add: system_inv_def)
  from uses_ok_fresh [OF this u, of "length (l_conns l1)"] f(4)
  have "uses_ok (uses (l_go (T_drain i k ds) l1)) (length (l_conns l1))" by simp
  with inv1 f assms(1) show ?thesis by (simp add: system_inv_def l_go_def)
qed


lemma dispatch_quiet:
  assumes "Listener_dispatch E e l = (a, l1)" "GetOpenStream e = None"
  shows "l_quiet l l1"
  using assms by (auto simp: Listener_dispatch_def split: option.splits if_splits intro: l_quiet_intros)

lemma dispatch_open:
  assumes "GetOpenStream e = Some m"
  shows "Listener_dispatch E e l =
    (LNext, l_go (T_handleOpenStream (OpenStream_StreamId m))
       (l\<lparr>l_streams := AList.update (OpenStream_StreamId m) \<lparr>st_conn = None, st_buf = [], st_ready = False\<rparr> (l_streams l)\<rparr>))"
  using assms by (simp add: Listener_dispatch_def OpenStream_GetStreamId_def Let_def)

text \<open>Every goroutine keeps the invariant.\<close>

lemma system_inv_add:
  assumes "system_inv l" "task_uses t \<subseteq> uses l" "is_reader t \<longrightarrow> filter is_reader (l_tasks l) = []"
  shows "system_inv (l_go t l)"
proof -
  have "uses (l_go t l) = uses l" using assms(2) by (auto simp: uses_go)
  moreover have "listener_inv (l_go t l)" using assms(1) by (simp add: system_inv_def inv_misc)
  ultimately show ?thesis using assms(1,3) by (simp add: system_inv_def) (simp add: l_go_def)
qed

lemma inv_task_dispatch:
  assumes "system_inv l" "l_tasks l = before @ T_dispatch e # behind"
  shows "system_inv (run_task E dial n (T_dispatch e) (l\<lparr>l_tasks := before @ behind\<rparr>))"
proof -
  let ?l = "l\<lparr>l_tasks := before @ behind\<rparr>"
  note tk = system_inv_taken [OF assms]
  have inv: "listener_inv ?l" using tk(1) by (simp add: system_inv_def)
  obtain a l1 where d: "Listener_dispatch E e ?l = (a, l1)" by fastforce
  have inv1: "listener_inv l1" using inv_dispatch [OF inv, of E e] d by simp
  show ?thesis
  proof (cases "GetOpenStream e")
    case None
    note q = dispatch_quiet [OF d None]
    have go: "system_inv (l_go t' l2)" if "l_quiet l1 l2" "listener_inv l2" "task_uses t' \<subseteq> uses l" for t' l2
      using that by (intro system_inv_go [OF assms l_quiet_trans [OF q]]) simp_all
    show ?thesis
    proof (cases a)
      case (LData m)
      obtain ko l2 where k: "Listener_lookup m l1 = (ko, l2)" by fastforce
      have l2: "l_quiet l1 l2" "listener_inv l2" using l_quiet_lookup [of l1 m] inv_lookup [OF inv1, of m] k by simp_all
      show ?thesis
      proof (cases ko)
        case None
        then show ?thesis using d LData k go [OF l2, of T_handleMessages] by simp
      next
        case (Some k')
        have "(Data_GetStreamId (Some m), k') \<in> uses l1"
          using lookup_uses(1) k Some by (auto simp: uses_def)
        then have "(Data_GetStreamId (Some m), k') \<in> uses l" using l_quiet_uses [OF q] tk(2) by blast
        then show ?thesis using d LData k Some go [OF l2] by simp
      qed
    qed (use d go [OF l_quiet_refl inv1] in simp_all)
  next
    case (Some m)
    let ?i = "OpenStream_StreamId m"
    let ?l1 = "?l\<lparr>l_streams := AList.update ?i \<lparr>st_conn = None, st_buf = [], st_ready = False\<rparr> (l_streams ?l)\<rparr>"
    have "listener_inv ?l1"
      by (rule listener_inv_update [OF inv, of _ ?i "\<lparr>st_conn = None, st_buf = [], st_ready = False\<rparr>"]) simp_all
    then have "system_inv ?l1" by (intro system_inv_quiet [OF tk(1) l_quiet_unconnected]) simp_all
    then have "system_inv (l_go (T_handleOpenStream ?i) ?l1)" by (rule system_inv_add) simp_all
    then have "system_inv (l_go T_handleMessages (l_go (T_handleOpenStream ?i) ?l1))"
      by (rule system_inv_add) (use tk(3) in \<open>simp_all add: l_go_def\<close>)
    then show ?thesis by (simp add: dispatch_open [OF Some])
  qed
qed

lemma inv_task_drain:
  assumes "system_inv l" "l_tasks l = before @ T_drain i k ds # behind"
  shows "system_inv (run_task E dial n (T_drain i k ds) (l\<lparr>l_tasks := before @ behind\<rparr>))"
proof -
  let ?l = "l\<lparr>l_tasks := before @ behind\<rparr>"
  note tk = system_inv_taken [OF assms]
  have inv: "listener_inv ?l" using tk(1) by (simp add: system_inv_def)
  have used: "(i, k) \<in> uses l" using tk(2) by auto
  show ?thesis
  proof (cases ds)
    case Nil
    then show ?thesis
      using system_inv_go [OF assms l_quiet_Send inv_Send [OF inv], of "T_pump i k"] used by (simp add: open_ack_def)
  next
    case (Cons d ds')
    then show ?thesis
      using l_quiet_write [of ?l i k d] inv_write [OF inv, of i k d] used
        system_inv_go [OF assms, of "snd (Listener_write i k d ?l)" "T_drain i k ds'"] system_inv_quiet [OF tk(1)]
      by (auto split: prod.split bool.split)
  qed
qed

lemma run_task_inv:
  assumes "system_inv l" "l_tasks l = before @ t # behind"
  shows "system_inv (run_task E dial n t (l\<lparr>l_tasks := before @ behind\<rparr>))"
proof -
  let ?l = "l\<lparr>l_tasks := before @ behind\<rparr>"
  note tk = system_inv_taken [OF assms]
  have inv: "listener_inv ?l" using tk(1) by (simp add: system_inv_def)
  have used: "task_uses t \<subseteq> uses l" using tk(2) by blast
  have go: "system_inv (l_go t' l1)"
    if "l_quiet ?l l1" "listener_inv l1" "task_uses t' \<subseteq> uses l" "is_reader t' \<longrightarrow> is_reader t" for t' l1
    using system_inv_go [OF assms that] .
  have over: "system_inv l1" if "l_quiet ?l l1" "listener_inv l1" for l1
    using system_inv_quiet [OF tk(1) that] .
  show ?thesis
  proof (cases t)
    case T_handleMessages
    then show ?thesis using l_quiet_receive [of ?l E] inv_receive [OF inv, of E] go
      by (auto split: prod.split option.split)
  next
    case (T_dispatch e)
    then show ?thesis using inv_task_dispatch assms by simp
  next
    case (T_write i k bs)
    then show ?thesis using go [OF l_quiet_write inv_write [OF inv]] by simp
  next
    case (T_handleOpenStream i)
    then show ?thesis
      using open_dial_quiet [of E dial i ?l] inv_open_dial [OF inv, of E dial i] over system_inv_open [OF tk(1), of E dial i]
      by (auto split: prod.split option.split)
  next
    case (T_drain i k ds)
    then show ?thesis using inv_task_drain assms by simp
  next
    case (T_pump i k)
    then show ?thesis
      using l_quiet_pump_round [of ?l E n i k] inv_pump_round [OF inv, of E n i k] go over used
      by (auto split: prod.split pump_result.split)
  next
    case T_Close
    have "listener_inv (close_signal E ?l)"
      using inv_Send [of "?l\<lparr>l_closed := True\<rparr>"] inv by (auto simp: close_signal_def Let_def elim!: listener_inv_frame)
    then show ?thesis using T_Close go [OF l_quiet_close_signal] tk(1) by simp
  next
    case T_close_streams
    have "listener_inv (close_streams ?l)" by (simp add: close_streams_def listener_inv_def streams_ok_def)
    then show ?thesis using T_close_streams over [OF l_quiet_close_streams] by simp
  qed
qed

lemma started_inv: "started E l \<Longrightarrow> system_inv l"
proof -
  assume "started E l"
  then obtain dial rand sent port addr connID pass cn where
    st: "Listener_Start E dial rand sent (NewListener port addr connID pass) = (None, Some cn, l)"
    by (auto simp: started_def)
  from Listener_Start_outcome [where E = E and dial = dial and rand = rand and sent = sent and
      l = "NewListener port addr connID pass"] st
  obtain s where "l = l_go T_handleMessages ((NewListener port addr connID pass)\<lparr>l_session := Some s\<rparr>)" by auto
  then show ?thesis
    by (simp add: l_go_def system_inv_def listener_inv_def NewListener_def
        streams_ok_def uses_def stream_uses_def uses_ok_def)
qed

inductive_cases listener_stepE: "listener_step E l l'"

lemma listener_run_steps: "listener_run E l l' \<longleftrightarrow> (listener_step E)\<^sup>*\<^sup>* l l'"
proof
  show "listener_run E l l' \<Longrightarrow> (listener_step E)\<^sup>*\<^sup>* l l'"
    by (induction rule: listener_run.induct) auto
  show "(listener_step E)\<^sup>*\<^sup>* l l' \<Longrightarrow> listener_run E l l'"
    by (induction rule: rtranclp_induct) (auto intro: listener_run.intros)
qed

interpretation listener_sys: step_system "listener_step E" "started E" system_inv for E
  by unfold_locales (auto elim!: listener_stepE intro: started_inv run_task_inv system_inv_add)

text \<open>C28: streams never mix, however the goroutines of a listener interleave. After any sequence of steps from
  a successful \<^verbatim>\<open>Start\<close>, a local connection that the table of streams, a pending write, the
  draining of a buffer or a pump refers to belongs to one stream only; a stream that is ready has a
  connection and an empty buffer; and at most one goroutine reads from the broker.\<close>

theorem listener_isolation:
  assumes "started E l0" "listener_run E l0 l"
  shows "listener_inv l \<and> length (filter is_reader (l_tasks l)) \<le> 1 \<and>
    (\<forall>i j k. (i, k) \<in> uses l \<longrightarrow> (j, k) \<in> uses l \<longrightarrow> i = j)"
  using listener_sys.reachable_keeps [OF assms(1)] assms(2) by (simp add: listener_run_steps system_inv_def uses_ok_def)


subsection \<open>Races\<close>

text \<open>A listener in the middle of its work.\<close>

definition at :: "listener \<Rightarrow> session \<Rightarrow> (u32 \<times> stream_state) list \<Rightarrow> net_conn list \<Rightarrow> l_task list \<Rightarrow> listener" where
  "at l s ss cs ts = l\<lparr>l_session := Some s, l_streams := ss, l_conns := cs, l_tasks := ts\<rparr>"

lemma at_sel [simp]:
  "l_session (at l s ss cs ts) = Some s" "l_streams (at l s ss cs ts) = ss" "l_conns (at l s ss cs ts) = cs"
  "l_tasks (at l s ss cs ts) = ts" "l_closed (at l s ss cs ts) = l_closed l" "l_localPort (at l s ss cs ts) = l_localPort l"
  "(at l s ss cs ts)\<lparr>l_session := Some s'\<rparr> = at l s' ss cs ts"
  "(at l s ss cs ts)\<lparr>l_streams := ss'\<rparr> = at l s ss' cs ts"
  "(at l s ss cs ts)\<lparr>l_conns := cs'\<rparr> = at l s ss cs' ts"
  "(at l s ss cs ts)\<lparr>l_tasks := ts'\<rparr> = at l s ss cs ts'"
  "l_go t (at l s ss cs ts) = at l s ss cs (ts @ [t])"
  by (simp_all add: at_def l_go_def)

lemma close_signal_at:
  "close_signal E (at l s ss cs ts) =
     at (l\<lparr>l_closed := True\<rparr>) (close_broker (snd (Send (te_codec E) s (bye_env ''listener shutting down'')))) ss cs ts"
  by (simp add: close_signal_def Let_def l_Send_def at_def split: prod.split)

lemma run_step: "listener_run E l l1 \<Longrightarrow> listener_step E l1 l2 \<Longrightarrow> listener_run E l l2"
  by (rule listener_run.more)

lemma step_at:
  "at l s' ss' cs' ts' = run_task E dial n t (at l s ss cs (before @ behind)) \<Longrightarrow>
    listener_step E (at l s ss cs (before @ t # behind)) (at l s' ss' cs' ts')"
  using listener_step.task [of "at l s ss cs (before @ t # behind)" before t behind E dial n] by simp

abbreviation fresh_state :: stream_state where
  "fresh_state \<equiv> \<lparr>st_conn = None, st_buf = [], st_ready = False\<rparr>"

abbreviation ready_state :: "nat \<Rightarrow> stream_state" where
  "ready_state k \<equiv> \<lparr>st_conn = Some k, st_buf = [], st_ready = True\<rparr>"

text \<open>C33: the buffering of early data does not keep the order when the opening is interrupted. A listener
  with nothing else to do, to which the peer sends an \<^verbatim>\<open>OpenStream\<close> and two \<^verbatim>\<open>Data\<close> messages, has
  a run in which the local service gets the second payload before the first: the connection is published
  before the buffer has been written.\<close>

theorem drain_race_reorders:
  assumes "l_session l = Some s" "\<not> l_closed l" "l_tasks l = [T_handleMessages]" "l_streams l = []"
    and "in_sync (te_codec E, a, s)" "in_flight (te_codec E, a, s) = [open_env i, data_env i d1, data_env i d2]"
  shows "\<exists>l' k. listener_run E l l' \<and> map_of (l_streams l') i = Some \<lparr>st_conn = Some k, st_buf = [], st_ready = True\<rparr> \<and>
    tx (l_conns l' ! k) = d2 @ d1"
proof -
  have "pending (te_codec E) a s [open_env i, data_env i d1, data_env i d2]" using assms(5,6) by (simp add: pending_def)
  then obtain s1 where s1: "Receive (te_codec E) s = (Inr (open_env i), s1)" "pending (te_codec E) a s1 [data_env i d1, data_env i d2]"
    by (rule pending_Receive)
  from s1(2) obtain s2 where s2: "Receive (te_codec E) s1 = (Inr (data_env i d1), s2)" "pending (te_codec E) a s2 [data_env i d2]"
    by (rule pending_Receive)
  from s2(2) obtain s3 where s3: "Receive (te_codec E) s2 = (Inr (data_env i d2), s3)" by (rule pending_Receive)
  define k where "k = length (l_conns l)"
  define cn where "cn = \<lparr>rx = [], rx_end = EOF, tx = [], tx_room = None, conn_closed = False\<rparr>"
  define dial :: dialer where "dial = (\<lambda>_. Inr cn)"
  have cn: "healthy cn" "tx cn = []" by (simp_all add: cn_def healthy_def)
  let ?S = "at l" and ?cs = "l_conns l" and ?buf = "\<lparr>st_conn = None, st_buf = [d1], st_ready = False\<rparr>"
  note ds = Listener_receive_def Listener_dispatch_def getter_defs Listener_lookup_def OpenStream_GetStreamId_def
    Data_GetStreamId_def Data_GetPayload_def Listener_write_def open_dial_def Let_def assms(2)
  have l: "l = ?S s [] ?cs ([] @ T_handleMessages # [])" using assms(1,3,4) by (cases l) (simp add: at_def)
  have "listener_run E l l" by (rule listener_run.none)
  then have "listener_run E l (?S s [] ?cs ([] @ T_handleMessages # []))" using l by simp
  then have "listener_run E l (?S s1 [] ?cs ([] @ T_dispatch (open_env i) # []))"
    by (rule run_step) (rule step_at, simp add: ds s1)
  then have "listener_run E l (?S s1 [(i, fresh_state)] ?cs ([T_handleOpenStream i] @ T_handleMessages # []))"
    by (rule run_step) (rule step_at, simp add: ds)
  then have "listener_run E l (?S s2 [(i, fresh_state)] ?cs ([T_handleOpenStream i] @ T_dispatch (data_env i d1) # []))"
    by (rule run_step) (rule step_at, simp add: ds s2)
  then have "listener_run E l (?S s2 [(i, ?buf)] ?cs ([T_handleOpenStream i] @ T_handleMessages # []))"
    by (rule run_step) (rule step_at, simp add: ds)
  then have "listener_run E l (?S s3 [(i, ?buf)] ?cs ([] @ T_handleOpenStream i # [T_dispatch (data_env i d2)]))"
    by (rule run_step) (rule step_at, simp add: ds s3)
  then have "listener_run E l (?S s3 [(i, ready_state k)] (?cs @ [cn]) ([] @ T_dispatch (data_env i d2) # [T_drain i k [d1]]))"
    by (rule run_step) (rule step_at [where dial = dial], simp add: ds dial_def k_def)
  then have "listener_run E l (?S s3 [(i, ready_state k)] (?cs @ [cn]) ([T_drain i k [d1]] @ T_write i k d2 # []))"
    by (rule run_step) (rule step_at, simp add: ds)
  then have "listener_run E l (?S s3 [(i, ready_state k)] (?cs @ [cn\<lparr>tx := d2\<rparr>]) ([] @ T_drain i k [d1] # [T_handleMessages]))"
    by (rule run_step) (rule step_at, simp add: ds local_Write_healthy cn k_def)
  then have "listener_run E l (?S s3 [(i, ready_state k)] (?cs @ [cn\<lparr>tx := d2 @ d1\<rparr>]) [T_handleMessages, T_drain i k []])"
    by (rule run_step) (rule step_at, simp add: ds local_Write_healthy cn k_def)
  then show ?thesis
    by (intro exI [of _ "?S s3 [(i, ready_state k)] (?cs @ [cn\<lparr>tx := d2 @ d1\<rparr>]) [T_handleMessages, T_drain i k []]"] exI [of _ k])
      (simp add: k_def)
qed


text \<open>A connection can outlive \<^verbatim>\<open>Close\<close>. When \<^verbatim>\<open>Close\<close> runs between the receipt of an
  \<^verbatim>\<open>OpenStream\<close> and its registration, the listener is closed for good, every goroutine ends, and
  the connection that was dialled for the stream is still open.\<close>

lemma open_during_close_leaks:
  assumes "l_session l = Some s" "\<not> l_closed l" "l_tasks l = [T_handleMessages]" "l_streams l = []"
    and "in_sync (te_codec E, a, s)" "in_flight (te_codec E, a, s) = [open_env i]"
  shows "\<exists>l' k. listener_run E l l' \<and> l_closed l' \<and> l_tasks l' = [] \<and> k < length (l_conns l') \<and>
    length (l_conns l) \<le> k \<and> \<not> conn_closed (l_conns l' ! k)"
proof -
  have "pending (te_codec E) a s [open_env i]" using assms(5,6) by (simp add: pending_def)
  then obtain s1 where s1: "Receive (te_codec E) s = (Inr (open_env i), s1)" by (rule pending_Receive)
  define k where "k = length (l_conns l)"
  define cn where "cn = \<lparr>rx = [], rx_end = EOF, tx = [], tx_room = None, conn_closed = False\<rparr>"
  define dial :: dialer where "dial = (\<lambda>_. Inr cn)"
  define s2 where "s2 = close_broker (snd (Send (te_codec E) s1 (bye_env ''listener shutting down'')))"
  define s3 where "s3 = snd (Send (te_codec E) s2 (open_ack_env i True ''stream opened''))"
  let ?S = "at l" and ?C = "at (l\<lparr>l_closed := True\<rparr>)" and ?cs = "l_conns l"
  note ds = Listener_receive_def Listener_dispatch_def getter_defs OpenStream_GetStreamId_def open_dial_def Let_def assms(2)
  have l: "l = ?S s [] ?cs ([] @ T_handleMessages # [])" using assms(1,3,4) by (cases l) (simp add: at_def)
  have "listener_run E l l" by (rule listener_run.none)
  then have "listener_run E l (?S s [] ?cs ([] @ T_handleMessages # []))" using l by simp
  then have "listener_run E l (?S s1 [] ?cs ([] @ T_dispatch (open_env i) # []))"
    by (rule run_step) (rule step_at, simp add: ds s1)
  from run_step [OF this owner_Close] have "listener_run E l (?S s1 [] ?cs ([T_dispatch (open_env i)] @ T_Close # []))"
    by simp
  from run_step [OF this task [of _ "[T_dispatch (open_env i)]" T_Close "[]"]]
  have "listener_run E l (?C s2 [] ?cs ([T_dispatch (open_env i)] @ T_close_streams # []))"
    by (simp add: close_signal_at assms(2) s2_def)
  then have "listener_run E l (?C s2 [] ?cs ([] @ T_dispatch (open_env i) # []))"
    by (rule run_step) (rule step_at, simp add: close_streams_def l_stream_conns_def map_filter_simps close_all_def)
  then have "listener_run E l (?C s2 [(i, fresh_state)] ?cs ([] @ T_handleOpenStream i # [T_handleMessages]))"
    by (rule run_step) (rule step_at, simp add: ds)
  then have "listener_run E l (?C s2 [(i, ready_state k)] (?cs @ [cn]) ([] @ T_handleMessages # [T_drain i k []]))"
    by (rule run_step) (rule step_at [where dial = dial], simp add: ds dial_def k_def)
  then have "listener_run E l (?C s2 [(i, ready_state k)] (?cs @ [cn]) ([T_drain i k []] @ T_Close # []))"
    by (rule run_step) (rule step_at, simp add: Listener_receive_def)
  then have "listener_run E l (?C s2 [(i, ready_state k)] (?cs @ [cn]) ([] @ T_drain i k [] # []))"
    by (rule run_step) (rule step_at, simp)
  then have "listener_run E l (?C s3 [(i, ready_state k)] (?cs @ [cn]) ([] @ T_pump i k # []))"
    by (rule run_step) (rule step_at, simp add: open_ack_def l_Send_def s3_def split: prod.split)
  then have "listener_run E l (?C s3 [(i, ready_state k)] (?cs @ [cn]) [])"
    by (rule run_step) (rule step_at, simp add: Listener_pump_round_def pump_round_def l_pump_end_def)
  then show ?thesis
    by (intro exI [of _ "?C s3 [(i, ready_state k)] (?cs @ [cn]) []"] exI [of _ k]) (simp add: k_def cn_def)
qed

subsection \<open>A concrete instance\<close>

lemma sample_Listener_started:
  "\<exists>l0 s. started sample_tenv l0 \<and> l0 = l_go T_handleMessages ((NewListener ''80'' ''broker:1781'' ''web'' ''pw'')\<lparr>l_session := Some s\<rparr>)"
  using sample_Listener_Start [of "''web''" "''80''" "''broker:1781''" "''pw''"] unfolding started_def
  by (auto simp: sendable_simps) blast

theorem listener_isolation_witness:
  "\<exists>l0 l. listener_run sample_tenv l0 l \<and> l_tasks l = [T_handleMessages, T_Close] \<and>
     listener_inv l \<and> length (filter is_reader (l_tasks l)) \<le> 1"
proof -
  obtain l0 s where l0: "started sample_tenv l0"
      "l0 = l_go T_handleMessages ((NewListener ''80'' ''broker:1781'' ''web'' ''pw'')\<lparr>l_session := Some s\<rparr>)"
    using sample_Listener_started by blast
  have r: "listener_run sample_tenv l0 (l_go T_Close l0)"
    by (rule listener_run.more [OF listener_run.none owner_Close])
  have "l_tasks (l_go T_Close l0) = [T_handleMessages, T_Close]" by (simp add: l0(2) l_go_def NewListener_def)
  then show ?thesis using listener_isolation [OF l0(1) r] r by blast
qed

theorem drain_race_reorders_witness:
  "\<exists>l k. listener_run sample_tenv
       ((NewListener ''80'' ''broker:1781'' ''web'' ''pw'')\<lparr>l_tasks := [T_handleMessages],
          l_session := Some (sample_incoming [Envelope_OpenStream \<lparr>OpenStream_StreamId = 7\<rparr>,
            Envelope_Data \<lparr>Data_StreamId = 7, Data_Payload = [1]\<rparr>, Envelope_Data \<lparr>Data_StreamId = 7, Data_Payload = [2]\<rparr>])\<rparr>) l \<and>
     tx (l_conns l ! k) = [2, 1]"
proof -
  let ?ps = "[Envelope_OpenStream \<lparr>OpenStream_StreamId = 7\<rparr>,
            Envelope_Data \<lparr>Data_StreamId = 7, Data_Payload = [1]\<rparr>, Envelope_Data \<lparr>Data_StreamId = 7, Data_Payload = [2]\<rparr>]"
  have "\<forall>p\<in>set ?ps. sendable p" by (simp add: sendable_simps)
  note sy = sample_incoming_sync [OF this]
  have "in_sync (te_codec sample_tenv, sample_sender (length ?ps), sample_incoming ?ps)" using sy(1) by simp
  moreover have "in_flight (te_codec sample_tenv, sample_sender (length ?ps), sample_incoming ?ps) =
    [open_env 7, data_env 7 [1], data_env 7 [2]]" using sy(2) by simp
  ultimately show ?thesis
    using drain_race_reorders [of "(NewListener ''80'' ''broker:1781'' ''web'' ''pw'')\<lparr>l_tasks := [T_handleMessages],
          l_session := Some (sample_incoming ?ps)\<rparr>" "sample_incoming ?ps" sample_tenv "sample_sender (length ?ps)" 7 "[1]" "[2]"]
    by (auto simp: NewListener_def)
qed

lemma open_during_close_leaks_witness:
  "\<exists>l k. listener_run sample_tenv
       ((NewListener ''80'' ''broker:1781'' ''web'' ''pw'')\<lparr>l_tasks := [T_handleMessages],
          l_session := Some (sample_incoming [Envelope_OpenStream \<lparr>OpenStream_StreamId = 7\<rparr>])\<rparr>) l \<and>
     l_closed l \<and> l_tasks l = [] \<and> k < length (l_conns l) \<and> \<not> conn_closed (l_conns l ! k)"
proof -
  let ?ps = "[Envelope_OpenStream \<lparr>OpenStream_StreamId = 7\<rparr>]"
  have "\<forall>p\<in>set ?ps. sendable p" by (simp add: sendable_simps)
  note sy = sample_incoming_sync [OF this]
  have "in_sync (te_codec sample_tenv, sample_sender (length ?ps), sample_incoming ?ps)" using sy(1) by simp
  moreover have "in_flight (te_codec sample_tenv, sample_sender (length ?ps), sample_incoming ?ps) = [open_env 7]" using sy(2) by simp
  ultimately show ?thesis
    using open_during_close_leaks [of "(NewListener ''80'' ''broker:1781'' ''web'' ''pw'')\<lparr>l_tasks := [T_handleMessages],
          l_session := Some (sample_incoming ?ps)\<rparr>" "sample_incoming ?ps" sample_tenv "sample_sender (length ?ps)" 7]
    by (auto simp: NewListener_def)
qed

end
