(* ===== verification/Tunnel_Connector.thy ===== *)
theory Tunnel_Connector
  imports Tunnel_Common
begin

text \<open>
  \<^verbatim>\<open>pkg/tunnel/connector.go\<close>: the side of the tunnel that accepts local connections and opens a stream to
  the listener for each. The representation is the one of the listener; in addition there are the channels on
  which a handler waits for the \<^verbatim>\<open>OpenStreamAck\<close> (capacity one: \<^term>\<open>None\<close> is empty) and the local
  listening socket (\<^term>\<open>None\<close> while it is \<^verbatim>\<open>nil\<close>, otherwise whether it is closed).
\<close>

datatype c_task =
    C_handleMessages
  | C_dispatch Envelope
  | C_push nat bool
  | C_write u32 nat bytes
  | C_acceptLoop
  | C_handleLocal nat
  | C_track u32 nat nat
  | C_open u32 nat nat
  | C_wait u32 nat nat
  | C_pump u32 nat
  | C_Close
  | C_close_streams

record connector =
  c_brokerAddr :: string
  c_connectionID :: string
  c_localPort :: string
  c_passphrase :: string
  c_session :: "session option"
  c_nextStreamID :: u32
  c_streams :: "(u32 \<times> nat) list"
  c_pending :: "(u32 \<times> nat) list"
  c_socket :: "bool option"
  c_closed :: bool
  c_conns :: "net_conn list"
  c_chans :: "bool option list"
  c_tasks :: "c_task list"
  c_log :: "string list"

definition NewConnector :: "string \<Rightarrow> string \<Rightarrow> string \<Rightarrow> string \<Rightarrow> connector" where
  "NewConnector brokerAddr connID localPort pass =
     \<lparr>c_brokerAddr = brokerAddr, c_connectionID = connID, c_localPort = localPort, c_passphrase = pass,
      c_session = None, c_nextStreamID = 0, c_streams = [], c_pending = [], c_socket = None, c_closed = False,
      c_conns = [], c_chans = [], c_tasks = [], c_log = []\<rparr>"

definition c_go :: "c_task \<Rightarrow> connector \<Rightarrow> connector" where
  "c_go t c = c\<lparr>c_tasks := c_tasks c @ [t]\<rparr>"

definition c_logf :: "string \<Rightarrow> connector \<Rightarrow> connector" where
  "c_logf m c = c\<lparr>c_log := c_log c @ [m]\<rparr>"

definition c_Send :: "tunnel_env \<Rightarrow> Envelope \<Rightarrow> connector \<Rightarrow> error option \<times> connector" where
  "c_Send E e c =
     (case c_session c of
        None \<Rightarrow> (Some ErrClosed, c)
      | Some s \<Rightarrow> (case Send (te_codec E) s e of (r, s') \<Rightarrow> (r, c\<lparr>c_session := Some s'\<rparr>)))"

subsection \<open>Start\<close>

definition Connector_Start ::
  "tunnel_env \<Rightarrow> dialer \<Rightarrow> (string \<Rightarrow> error option) \<Rightarrow> bytes result \<Rightarrow> bool \<Rightarrow> connector \<Rightarrow>
     error option \<times> net_conn option \<times> connector" where
  "Connector_Start E dial listen rand sent c =
     (case dial (c_brokerAddr c) of
        Inl err \<Rightarrow> (Some (Wrapf (''connector: failed to dial broker at '' @ c_brokerAddr c) err), None, c)
      | Inr cn \<Rightarrow>
     (case PerformHandshake (te_codec E) (te_curve E) rand sent cn of
        (Inl err, cn1) \<Rightarrow> (Some (Wrapf ''connector: handshake failed'' err), Some (conn_Close cn1), c)
      | (Inr s, _) \<Rightarrow>
     let failed = (\<lambda>err s'. (Some err, Some (conn_Close (conn s')), c\<lparr>c_session := Some (close_broker s')\<rparr>))
     in
     (case Send (te_codec E) s (auth_env (c_passphrase c)) of
        (Some err, s1) \<Rightarrow> failed (Wrapf ''connector: failed to send authenticate'' err) s1
      | (None, s1) \<Rightarrow>
     (case Send (te_codec E) s1 (env (Envelope_ConnectRequest \<lparr>ConnectRequest_ConnectionId = c_connectionID c\<rparr>)) of
        (Some err, s2) \<Rightarrow> failed (Wrapf ''connector: failed to send connect request'' err) s2
      | (None, s2) \<Rightarrow>
     (case Receive (te_codec E) s2 of
        (Inl err, s3) \<Rightarrow> failed (Wrapf ''connector: failed to receive connect ack'' err) s3
      | (Inr e, s3) \<Rightarrow>
     (case GetConnectAck e of
        None \<Rightarrow> failed (Errorf (''connector: expected ConnectAck, got '' @ payload_type e)) s3
      | Some ack \<Rightarrow>
          if \<not> ConnectAck_GetSuccess (Some ack)
          then failed (Errorf (''connector: connection rejected: '' @ ConnectAck_GetMessage (Some ack))) s3
          else case listen (JoinHostPort ''127.0.0.1'' (c_localPort c)) of
            Some err \<Rightarrow> failed (Wrapf (''connector: failed to listen on port '' @ c_localPort c) err) s3
          | None \<Rightarrow> (None, Some (conn s3),
              c_go C_acceptLoop (c_go C_handleMessages (c\<lparr>c_session := Some s3, c_socket := Some False\<rparr>)))))))))"

subsection \<open>Streams\<close>

definition Connector_closeStream :: "u32 \<Rightarrow> connector \<Rightarrow> connector" where
  "Connector_closeStream i c =
     (case map_of (c_streams c) i of
        None \<Rightarrow> c
      | Some k \<Rightarrow> c\<lparr>c_streams := AList.delete i (c_streams c), c_conns := local_Close k (c_conns c)\<rparr>)"

definition Connector_removeStream :: "u32 \<Rightarrow> connector \<Rightarrow> connector" where
  "Connector_removeStream i c = c\<lparr>c_streams := AList.delete i (c_streams c)\<rparr>"

definition Connector_removePending :: "u32 \<Rightarrow> connector \<Rightarrow> connector" where
  "Connector_removePending i c = c\<lparr>c_pending := AList.delete i (c_pending c)\<rparr>"

definition Connector_write :: "u32 \<Rightarrow> nat \<Rightarrow> bytes \<Rightarrow> connector \<Rightarrow> connector" where
  "Connector_write i k bs c =
     (case local_Write (c_conns c) k bs of
        (None, cs) \<Rightarrow> c\<lparr>c_conns := cs\<rparr>
      | (Some _, cs) \<Rightarrow> Connector_closeStream i (c\<lparr>c_conns := cs\<rparr>))"

definition Connector_handleData :: "Data \<Rightarrow> connector \<Rightarrow> connector" where
  "Connector_handleData d c =
     (case map_of (c_streams c) (Data_GetStreamId (Some d)) of
        None \<Rightarrow> c
      | Some k \<Rightarrow> Connector_write (Data_GetStreamId (Some d)) k (Data_GetPayload (Some d)) c)"

subsection \<open>Accepting and opening\<close>

text \<open>One round of \<^verbatim>\<open>acceptLoop\<close>, on the outcome of \<^verbatim>\<open>Accept\<close>; the result says whether the loop
  goes on.\<close>

definition Connector_accept :: "net_conn result \<Rightarrow> connector \<Rightarrow> bool \<times> connector" where
  "Connector_accept r c =
     (case r of
        Inl err \<Rightarrow> (\<not> c_closed c, c)
      | Inr cn \<Rightarrow> (True, c_go (C_handleLocal (length (c_conns c))) (c\<lparr>c_conns := c_conns c @ [cn]\<rparr>)))"

text \<open>\<^verbatim>\<open>handleLocalConnection\<close>, by its critical sections: the number and the channel, the stream, the
  request, and the three cases of the \<^verbatim>\<open>select\<close>.\<close>

definition local_register :: "connector \<Rightarrow> u32 \<times> nat \<times> connector" where
  "local_register c =
     (let i = c_nextStreamID c + 1; ch = length (c_chans c)
      in (i, ch, c\<lparr>c_nextStreamID := i, c_chans := c_chans c @ [None], c_pending := AList.update i ch (c_pending c)\<rparr>))"

definition local_track :: "u32 \<Rightarrow> nat \<Rightarrow> connector \<Rightarrow> connector" where
  "local_track i k c = c\<lparr>c_streams := AList.update i k (c_streams c)\<rparr>"

definition local_giveup :: "u32 \<Rightarrow> nat \<Rightarrow> connector \<Rightarrow> connector" where
  "local_giveup i k c =
     Connector_removePending i (Connector_removeStream i (c\<lparr>c_conns := local_Close k (c_conns c)\<rparr>))"

definition local_open :: "tunnel_env \<Rightarrow> u32 \<Rightarrow> nat \<Rightarrow> connector \<Rightarrow> bool \<times> connector" where
  "local_open E i k c =
     (case c_Send E (open_env i) c of
        (Some err, c1) \<Rightarrow> (False, local_giveup i k c1)
      | (None, c1) \<Rightarrow> (True, c1))"

datatype wake = Acked | TimedOut | Shutdown

text \<open>What wakes the handler up must be there: \<^term>\<open>None\<close> means that this case of the \<^verbatim>\<open>select\<close> is not ready.
  The result says whether the pump is started.\<close>

definition local_wait :: "wake \<Rightarrow> u32 \<Rightarrow> nat \<Rightarrow> nat \<Rightarrow> connector \<Rightarrow> (bool \<times> connector) option" where
  "local_wait w i k ch c =
     (case w of
        Acked \<Rightarrow>
          (case c_chans c ! ch of
             None \<Rightarrow> None
           | Some success \<Rightarrow>
               let c1 = c\<lparr>c_chans := (c_chans c)[ch := None]\<rparr>
               in if success then Some (True, c_go (C_pump i k) c1)
                  else Some (False, Connector_removeStream i (c1\<lparr>c_conns := local_Close k (c_conns c1)\<rparr>)))
      | TimedOut \<Rightarrow> Some (False, local_giveup i k c)
      | Shutdown \<Rightarrow> if c_closed c then Some (False, local_giveup i k c) else None)"

subsection \<open>The pump\<close>

definition c_pump_end :: "u32 \<Rightarrow> pump_result \<Rightarrow> connector \<Rightarrow> connector" where
  "c_pump_end i r c =
     (case r of
        PumpSendErr \<Rightarrow> Connector_closeStream i c
      | PumpEnd \<Rightarrow> Connector_removeStream i c
      | _ \<Rightarrow> c)"

definition Connector_pump_round :: "tunnel_env \<Rightarrow> nat \<Rightarrow> u32 \<Rightarrow> nat \<Rightarrow> connector \<Rightarrow> pump_result \<times> connector" where
  "Connector_pump_round E n i k c =
     (case c_session c of
        None \<Rightarrow> (PumpStop, c)
      | Some s \<Rightarrow>
          (case pump_round (te_codec E) (c_closed c) n i s (c_conns c ! k) of
             (r, s1, lc1) \<Rightarrow> (r, c_pump_end i r (c\<lparr>c_session := Some s1, c_conns := (c_conns c)[k := lc1]\<rparr>))))"

definition Connector_pumpLocalToRemote :: "tunnel_env \<Rightarrow> (bytes \<Rightarrow> nat) \<Rightarrow> u32 \<Rightarrow> nat \<Rightarrow> connector \<Rightarrow> connector" where
  "Connector_pumpLocalToRemote E ks i k c =
     (case c_session c of
        None \<Rightarrow> c
      | Some s \<Rightarrow>
          (case pump (te_codec E) (c_closed c) ks i s (c_conns c ! k) of
             (r, s1, lc1) \<Rightarrow> c_pump_end i r (c\<lparr>c_session := Some s1, c_conns := (c_conns c)[k := lc1]\<rparr>)))"

subsection \<open>Close and the message loop\<close>

definition c_close_signal :: "tunnel_env \<Rightarrow> connector \<Rightarrow> connector" where
  "c_close_signal E c =
     (let c1 = c\<lparr>c_closed := True\<rparr>;
          c2 = snd (c_Send E (bye_env ''connector shutting down'') c1)
      in c2\<lparr>c_session := map_option close_broker (c_session c2), c_socket := map_option (\<lambda>_. True) (c_socket c2)\<rparr>)"

definition c_close_streams :: "connector \<Rightarrow> connector" where
  "c_close_streams c = c\<lparr>c_conns := close_all (map snd (c_streams c)) (c_conns c), c_streams := []\<rparr>"

definition Connector_Close :: "tunnel_env \<Rightarrow> connector \<Rightarrow> connector" where
  "Connector_Close E c = (if c_closed c then c else c_close_streams (c_close_signal E c))"

definition Connector_Done :: "connector \<Rightarrow> bool" where
  "Connector_Done c = c_closed c"

datatype c_action = CStop | CNext | CPush nat bool | CData Data

definition Connector_dispatch :: "tunnel_env \<Rightarrow> Envelope \<Rightarrow> connector \<Rightarrow> c_action \<times> connector" where
  "Connector_dispatch E e c =
     (case GetOpenStreamAck e of
        Some ack \<Rightarrow>
          let i = OpenStreamAck_GetStreamId (Some ack) in
          (case map_of (c_pending c) i of
             None \<Rightarrow> (CNext, c)
           | Some ch \<Rightarrow> (CPush ch (OpenStreamAck_GetSuccess (Some ack)), c\<lparr>c_pending := AList.delete i (c_pending c)\<rparr>))
      | None \<Rightarrow>
      (case GetData e of
        Some d \<Rightarrow> (CData d, c)
      | None \<Rightarrow>
      if GetCloseStream e \<noteq> None then
        (CNext, Connector_closeStream (CloseStream_GetStreamId (GetCloseStream e)) c)
      else if GetHeartbeat e \<noteq> None then (CNext, snd (c_Send E beat_env c))
      else if GetDisconnect e \<noteq> None then (CStop, c)
      else (CNext, c_logf (''connector: unexpected message type: '' @ payload_type e) c)))"

definition Connector_receive :: "tunnel_env \<Rightarrow> connector \<Rightarrow> Envelope option \<times> connector" where
  "Connector_receive E c =
     (if c_closed c then (None, c)
      else case c_session c of
        None \<Rightarrow> (None, c)
      | Some s \<Rightarrow>
          (case Receive (te_codec E) s of
             (Inl err, s1) \<Rightarrow> (None, c\<lparr>c_session := Some s1\<rparr>)
           | (Inr e, s1) \<Rightarrow> (Some e, c\<lparr>c_session := Some s1\<rparr>)))"

text \<open>A send into a full channel blocks: \<^term>\<open>None\<close>.\<close>

definition chan_send :: "nat \<Rightarrow> bool \<Rightarrow> connector \<Rightarrow> connector option" where
  "chan_send ch b c =
     (case c_chans c ! ch of
        None \<Rightarrow> Some (c\<lparr>c_chans := (c_chans c)[ch := Some b]\<rparr>)
      | Some _ \<Rightarrow> None)"

text \<open>A round of \<^verbatim>\<open>handleMessages\<close>: stop, go on, or block for ever on a channel.\<close>

datatype c_round = RStop | RNext | RBlocked

definition Connector_round :: "tunnel_env \<Rightarrow> connector \<Rightarrow> c_round \<times> connector" where
  "Connector_round E c =
     (case Connector_receive E c of
        (None, c1) \<Rightarrow> (RStop, c1)
      | (Some e, c1) \<Rightarrow>
          (case Connector_dispatch E e c1 of
             (CStop, c2) \<Rightarrow> (RStop, c2)
           | (CNext, c2) \<Rightarrow> (RNext, c2)
           | (CPush ch b, c2) \<Rightarrow> (case chan_send ch b c2 of None \<Rightarrow> (RBlocked, c2) | Some c3 \<Rightarrow> (RNext, c3))
           | (CData d, c2) \<Rightarrow> (RNext, Connector_handleData d c2)))"

definition c_unread :: "connector \<Rightarrow> nat" where
  "c_unread c = (case c_session c of None \<Rightarrow> 0 | Some s \<Rightarrow> length (rx (conn s)))"

lemma c_Send_frame [simp]:
  "c_streams (snd (c_Send E e c)) = c_streams c" "c_conns (snd (c_Send E e c)) = c_conns c"
  "c_pending (snd (c_Send E e c)) = c_pending c" "c_chans (snd (c_Send E e c)) = c_chans c"
  "c_tasks (snd (c_Send E e c)) = c_tasks c" "c_closed (snd (c_Send E e c)) = c_closed c"
  "c_nextStreamID (snd (c_Send E e c)) = c_nextStreamID c" "c_socket (snd (c_Send E e c)) = c_socket c"
  "c_unread (snd (c_Send E e c)) = c_unread c" "c_session (snd (c_Send E e c)) = None \<longleftrightarrow> c_session c = None"
  by (auto simp: c_Send_def c_unread_def Send_conn split: option.split prod.split)

lemma c_unread_simps [simp]:
  "c_unread (Connector_closeStream i c) = c_unread c"
  "c_unread (c\<lparr>c_conns := cs\<rparr>) = c_unread c" "c_unread (c\<lparr>c_streams := ss\<rparr>) = c_unread c"
  "c_unread (c\<lparr>c_pending := ps\<rparr>) = c_unread c" "c_unread (c\<lparr>c_chans := hs\<rparr>) = c_unread c"
  "c_unread (c_logf m c) = c_unread c"
  by (simp_all add: Connector_closeStream_def c_logf_def c_unread_def split: option.split)

lemma c_unread_handleData [simp]: "c_unread (Connector_handleData d c) = c_unread c"
  by (simp add: Connector_handleData_def Connector_write_def split: option.split prod.split)

lemma Connector_dispatch_unread: "c_unread (snd (Connector_dispatch E e c)) = c_unread c"
  by (simp add: Connector_dispatch_def Let_def split: option.split)

lemma chan_send_unread: "chan_send ch b c = Some c' \<Longrightarrow> c_unread c' = c_unread c"
  by (auto simp: chan_send_def split: option.splits)

lemma Connector_round_progress:
  assumes "Connector_round E c = (RNext, c')"
  shows "c_unread c' < c_unread c"
proof -
  from assms obtain s e s1 where s: "c_session c = Some s" "Receive (te_codec E) s = (Inr e, s1)" "\<not> c_closed c"
    by (auto simp: Connector_round_def Connector_receive_def split: if_splits option.splits prod.splits sum.splits)
  then have "c_unread c' = c_unread (c\<lparr>c_session := Some s1\<rparr>)"
    using assms Connector_dispatch_unread [of E e "c\<lparr>c_session := Some s1\<rparr>"]
    by (auto simp: Connector_round_def Connector_receive_def dest: chan_send_unread
        split: prod.splits c_action.splits option.splits)
  also have "\<dots> < c_unread c" using Receive_conn(5) [OF s(2)] by (simp add: c_unread_def s(1))
  finally show ?thesis .
qed

text \<open>The loop, run without interruption, with the deferred \<^verbatim>\<open>Close\<close>; \<^term>\<open>None\<close> when sending into a
  channel blocks for ever. A read that waits on an idle connection is not a case of its own: what the broker connection holds
  always ends, with the end of the stream or an error.\<close>

function Connector_handleMessages :: "tunnel_env \<Rightarrow> connector \<Rightarrow> connector option" where
  "Connector_handleMessages E c =
     (case Connector_round E c of
        (RNext, c1) \<Rightarrow> Connector_handleMessages E c1
      | (RStop, c1) \<Rightarrow> Some (Connector_Close E c1)
      | (RBlocked, c1) \<Rightarrow> None)"
  by pat_completeness auto
termination
  by (relation "measure (\<lambda>(E, c). c_unread c)") (auto dest: sym intro!: Connector_round_progress)

declare Connector_handleMessages.simps [simp del]

subsection \<open>The invariant of the streams\<close>

abbreviation c_stream :: "connector \<Rightarrow> u32 \<Rightarrow> nat option" where
  "c_stream c \<equiv> map_of (c_streams c)"

definition connector_inv :: "connector \<Rightarrow> bool" where
  "connector_inv c \<longleftrightarrow> distinct (map fst (c_streams c)) \<and>
     (\<forall>i k. c_stream c i = Some k \<longrightarrow> k < length (c_conns c)) \<and>
     (\<forall>i j k. c_stream c i = Some k \<longrightarrow> c_stream c j = Some k \<longrightarrow> i = j)"

lemma connector_invD:
  assumes "connector_inv c" "c_stream c i = Some k"
  shows "k < length (c_conns c)" "c_stream c j = Some k \<Longrightarrow> j = i"
  using assms unfolding connector_inv_def by blast+

lemma connector_inv_frame:
  "connector_inv c \<Longrightarrow> c_streams c' = c_streams c \<Longrightarrow> length (c_conns c) \<le> length (c_conns c') \<Longrightarrow> connector_inv c'"
  unfolding connector_inv_def by (metis order_less_le_trans)

lemma connector_inv_delete:
  assumes "connector_inv c" "c_streams c' = AList.delete i (c_streams c)" "length (c_conns c) \<le> length (c_conns c')"
  shows "connector_inv c'"
proof -
  have sub: "c_stream c j = Some k" if "c_stream c' j = Some k" for j k
    using that by (simp add: assms(2) delete_conv' split: if_splits)
  have "distinct (map fst (c_streams c'))" using assms(1) by (simp add: assms(2) connector_inv_def distinct_delete)
  moreover have "k < length (c_conns c')" if "c_stream c' j = Some k" for j k
    using connector_invD(1) [OF assms(1) sub [OF that]] assms(3) by simp
  moreover have "j = j'" if "c_stream c' j = Some k" "c_stream c' j' = Some k" for j j' k
    using connector_invD(2) [OF assms(1) sub [OF that(2)] sub [OF that(1)]] .
  ultimately show ?thesis unfolding connector_inv_def by blast
qed

lemma cinv_closeStream [inv_intros]: "connector_inv c \<Longrightarrow> connector_inv (Connector_closeStream i c)"
  by (auto simp: Connector_closeStream_def split: option.split elim!: connector_inv_delete)

lemma cinv_write [inv_intros]: "connector_inv c \<Longrightarrow> connector_inv (Connector_write i k bs c)"
  by (auto simp: Connector_write_def split: prod.split option.split dest!: length_local_Write
      intro!: cinv_closeStream elim!: connector_inv_frame)

lemma cinv_handleData [inv_intros]: "connector_inv c \<Longrightarrow> connector_inv (Connector_handleData d c)"
  by (auto simp: Connector_handleData_def split: option.split intro: cinv_write)

subsection \<open>The connector distributes data to its streams\<close>

definition connector_got :: "connector \<Rightarrow> u32 \<Rightarrow> bytes" where
  "connector_got c i = (case c_stream c i of None \<Rightarrow> [] | Some k \<Rightarrow> tx (c_conns c ! k))"

definition connector_accepts :: "connector \<Rightarrow> u32 \<Rightarrow> bool" where
  "connector_accepts c i = (case c_stream c i of None \<Rightarrow> False | Some k \<Rightarrow> healthy (c_conns c ! k))"

definition connector_tracked :: "connector \<Rightarrow> u32 \<Rightarrow> bool" where
  "connector_tracked c i \<longleftrightarrow> c_stream c i \<noteq> None"

lemmas connector_view_defs = connector_got_def connector_accepts_def connector_tracked_def

lemma c_closeStream_stream: "c_stream (Connector_closeStream i c) = (c_stream c)(i := None)"
  by (auto simp: Connector_closeStream_def delete_conv' split: option.split)

lemma c_closeStream_conns:
  "c_conns (Connector_closeStream i c) = (case c_stream c i of Some k \<Rightarrow> local_Close k (c_conns c) | None \<Rightarrow> c_conns c)"
  by (simp add: Connector_closeStream_def split: option.split)

lemma connector_view_other:
  assumes "connector_inv c" "j \<noteq> i" "c_stream c' j = c_stream c j"
    and "\<And>k. c_stream c i \<noteq> Some k \<Longrightarrow> k < length (c_conns c) \<Longrightarrow> c_conns c' ! k = c_conns c ! k"
  shows "connector_got c' j = connector_got c j \<and> connector_tracked c' j = connector_tracked c j \<and>
    connector_accepts c' j = connector_accepts c j"
proof -
  have "c_conns c' ! k = c_conns c ! k" if "c_stream c j = Some k" for k
    using that assms(2) connector_invD [OF assms(1) that] by (intro assms(4)) blast+
  then show ?thesis by (auto simp: connector_view_defs assms(3) split: option.split)
qed

lemma c_closeStream_other:
  assumes "connector_inv c" "j \<noteq> i"
  shows "connector_got (Connector_closeStream i c) j = connector_got c j \<and>
    connector_tracked (Connector_closeStream i c) j = connector_tracked c j \<and>
    connector_accepts (Connector_closeStream i c) j = connector_accepts c j"
  using assms(2)
  by (intro connector_view_other [OF assms])
    (auto simp: c_closeStream_stream c_closeStream_conns nth_local_Close split: option.split)

abbreviation c_put :: "connector \<Rightarrow> u32 \<Rightarrow> bytes \<Rightarrow> connector" where
  "c_put c i d \<equiv> Connector_handleData \<lparr>Data_StreamId = i, Data_Payload = d\<rparr> c"

lemma c_put_cases: "c_put c i d = (case c_stream c i of None \<Rightarrow> c | Some k \<Rightarrow> Connector_write i k d c)"
  by (simp add: Connector_handleData_def Data_GetStreamId_def Data_GetPayload_def split: option.split)

lemma c_put_other:
  assumes "connector_inv c" "j \<noteq> i"
  shows "connector_got (c_put c i d) j = connector_got c j \<and> connector_tracked (c_put c i d) j = connector_tracked c j \<and>
    connector_accepts (c_put c i d) j = connector_accepts c j"
proof (cases "c_stream c i")
  case (Some k)
  obtain r cs where w: "local_Write (c_conns c) k d = (r, cs)" by fastforce
  define c1 where "c1 = c\<lparr>c_conns := cs\<rparr>"
  have inv1: "connector_inv c1" using assms(1) length_local_Write [OF w] by (auto simp: c1_def elim!: connector_inv_frame)
  have same: "connector_got c1 j = connector_got c j \<and> connector_tracked c1 j = connector_tracked c j \<and>
      connector_accepts c1 j = connector_accepts c j"
    using local_Write_other [OF w] Some by (intro connector_view_other [OF assms]) (auto simp: c1_def)
  have "c_put c i d = (if r = None then c1 else Connector_closeStream i c1)"
    by (simp add: c_put_cases Some Connector_write_def w c1_def split: option.split)
  then show ?thesis using same c_closeStream_other [OF inv1 assms(2)] by simp
qed (simp add: c_put_cases)

lemma c_put_accepted:
  assumes "connector_inv c" "connector_accepts c i"
  shows "connector_got (c_put c i d) i = connector_got c i @ d" "connector_accepts (c_put c i d) i"
proof -
  from assms(2) obtain k where k: "c_stream c i = Some k" "healthy (c_conns c ! k)"
    by (auto simp: connector_accepts_def split: option.splits)
  with connector_invD(1) [OF assms(1) k(1)]
  show "connector_got (c_put c i d) i = connector_got c i @ d" "connector_accepts (c_put c i d) i"
    by (simp_all add: c_put_cases Connector_write_def local_Write_healthy connector_view_defs)
qed

fun Connector_event :: "stream_event \<Rightarrow> connector \<Rightarrow> connector" where
  "Connector_event (Ev_Data i d) c = Connector_handleData \<lparr>Data_StreamId = i, Data_Payload = d\<rparr> c"
| "Connector_event (Ev_Close i) c = Connector_closeStream i c"

interpretation cd: stream_demux c_put "\<lambda>c i. Connector_closeStream i c"
  connector_tracked connector_accepts connector_got connector_inv Connector_event
proof
  fix c and i :: u32 and d
  show "Connector_event (Ev_Data i d) c = c_put c i d" "Connector_event (Ev_Close i) c = Connector_closeStream i c" by simp_all
next
  fix c and i :: u32 and d assume inv: "connector_inv c"
  show "connector_inv (c_put c i d)" using inv by (rule cinv_handleData)
  show "connector_inv (Connector_closeStream i c)" using inv by (rule cinv_closeStream)
  show "\<not> connector_tracked (Connector_closeStream i c) i" by (simp add: connector_tracked_def c_closeStream_stream)
  assume "connector_accepts c i"
  with inv show "connector_got (c_put c i d) i = connector_got c i @ d" "connector_accepts (c_put c i d) i"
    using c_put_accepted by blast+
next
  fix c and i :: u32 assume "connector_accepts c i"
  then show "connector_tracked c i" by (auto simp: connector_view_defs split: option.splits)
next
  fix c and i :: u32 and d assume n: "\<not> connector_tracked c i"
  then show "c_put c i d = c" by (simp add: connector_tracked_def c_put_cases)
  from n show "Connector_closeStream i c = c" by (simp add: connector_tracked_def Connector_closeStream_def)
next
  fix c and j i :: u32 and d assume a: "connector_inv c" "j \<noteq> i"
  show "connector_got (c_put c i d) j = connector_got c j \<and> connector_tracked (c_put c i d) j = connector_tracked c j \<and>
      connector_accepts (c_put c i d) j = connector_accepts c j" using a by (rule c_put_other)
  show "connector_got (Connector_closeStream i c) j = connector_got c j \<and>
      connector_tracked (Connector_closeStream i c) j = connector_tracked c j \<and>
      connector_accepts (Connector_closeStream i c) j = connector_accepts c j" using a by (rule c_closeStream_other)
qed

end
