(* ===== verification/Connector_Concurrent.thy ===== *)
theory Connector_Concurrent
  imports Tunnel_Connector Step_System
begin

text \<open>The goroutines of a connector, interleaved.\<close>

fun c_run_task :: "tunnel_env \<Rightarrow> net_conn result \<Rightarrow> wake \<Rightarrow> nat \<Rightarrow> c_task \<Rightarrow> connector \<Rightarrow> connector option" where
  "c_run_task E acc w n C_handleMessages c =
     (case Connector_receive E c of
        (None, c1) \<Rightarrow> Some (c_go C_Close c1)
      | (Some e, c1) \<Rightarrow> Some (c_go (C_dispatch e) c1))"
| "c_run_task E acc w n (C_dispatch e) c =
     (case Connector_dispatch E e c of
        (CStop, c1) \<Rightarrow> Some (c_go C_Close c1)
      | (CNext, c1) \<Rightarrow> Some (c_go C_handleMessages c1)
      | (CPush ch b, c1) \<Rightarrow> Some (c_go (C_push ch b) c1)
      | (CData d, c1) \<Rightarrow>
          (case map_of (c_streams c1) (Data_GetStreamId (Some d)) of
             None \<Rightarrow> Some (c_go C_handleMessages c1)
           | Some k \<Rightarrow> Some (c_go (C_write (Data_GetStreamId (Some d)) k (Data_GetPayload (Some d))) c1)))"
| "c_run_task E acc w n (C_push ch b) c =
     (case chan_send ch b c of None \<Rightarrow> None | Some c1 \<Rightarrow> Some (c_go C_handleMessages c1))"
| "c_run_task E acc w n (C_write i k bs) c = Some (c_go C_handleMessages (Connector_write i k bs c))"
| "c_run_task E acc w n C_acceptLoop c =
     (case Connector_accept acc c of
        (True, c1) \<Rightarrow> Some (c_go C_acceptLoop c1)
      | (False, c1) \<Rightarrow> Some c1)"
| "c_run_task E acc w n (C_handleLocal k) c =
     (case local_register c of (i, ch, c1) \<Rightarrow> Some (c_go (C_track i k ch) c1))"
| "c_run_task E acc w n (C_track i k ch) c = Some (c_go (C_open i k ch) (local_track i k c))"
| "c_run_task E acc w n (C_open i k ch) c =
     (case local_open E i k c of
        (True, c1) \<Rightarrow> Some (c_go (C_wait i k ch) c1)
      | (False, c1) \<Rightarrow> Some c1)"
| "c_run_task E acc w n (C_wait i k ch) c = map_option snd (local_wait w i k ch c)"
| "c_run_task E acc w n (C_pump i k) c =
     (case Connector_pump_round E n i k c of
        (PumpGo, c1) \<Rightarrow> Some (c_go (C_pump i k) c1)
      | (_, c1) \<Rightarrow> Some c1)"
| "c_run_task E acc w n C_Close c =
     (if c_closed c then Some c else Some (c_go C_close_streams (c_close_signal E c)))"
| "c_run_task E acc w n C_close_streams c = Some (c_close_streams c)"

text \<open>A goroutine that blocks (\<^term>\<open>None\<close>) takes no step.\<close>

inductive connector_step :: "tunnel_env \<Rightarrow> connector \<Rightarrow> connector \<Rightarrow> bool" for E where
  c_task: "c_tasks c = before @ t # behind \<Longrightarrow>
     c_run_task E acc w n t (c\<lparr>c_tasks := before @ behind\<rparr>) = Some c' \<Longrightarrow> connector_step E c c'"
| c_owner_Close: "connector_step E c (c_go C_Close c)"

inductive connector_run :: "tunnel_env \<Rightarrow> connector \<Rightarrow> connector \<Rightarrow> bool" for E where
  c_none: "connector_run E c c"
| c_more: "connector_run E c c1 \<Longrightarrow> connector_step E c1 c2 \<Longrightarrow> connector_run E c c2"

definition c_started :: "tunnel_env \<Rightarrow> connector \<Rightarrow> bool" where
  "c_started E c \<longleftrightarrow> (\<exists>dial listen rand sent addr connID port pass cn.
     Connector_Start E dial listen rand sent (NewConnector addr connID port pass) = (None, Some cn, c))"

lemma Connector_Start_outcome:
  "case Connector_Start E dial listen rand sent c of
     (None, cn, c') \<Rightarrow> \<exists>s. cn = Some (conn s) \<and>
        c' = c_go C_acceptLoop (c_go C_handleMessages (c\<lparr>c_session := Some s, c_socket := Some False\<rparr>))
   | (Some err, cn, c') \<Rightarrow> (\<forall>k. cn = Some k \<longrightarrow> conn_closed k) \<and> c_tasks c' = c_tasks c \<and> c_socket c' = c_socket c \<and>
       (c_session c' = c_session c \<or> (\<exists>s. c_session c' = Some s \<and> conn_closed (conn s)))"
  by (simp add: Connector_Start_def Let_def conn_Close_def close_broker_def split: sum.split prod.split option.split) blast

subsection \<open>The invariant of the goroutines\<close>

text \<open>Which stream uses which local connection; the connections that have no number yet; the channels a
  send may still go to; and which channel a handler with a number waits on.\<close>

fun c_task_uses :: "c_task \<Rightarrow> (u32 \<times> nat) set" where
  "c_task_uses (C_write i k bs) = {(i, k)}"
| "c_task_uses (C_track i k ch) = {(i, k)}"
| "c_task_uses (C_open i k ch) = {(i, k)}"
| "c_task_uses (C_wait i k ch) = {(i, k)}"
| "c_task_uses (C_pump i k) = {(i, k)}"
| "c_task_uses t = {}"

fun c_task_local :: "c_task \<Rightarrow> nat list" where
  "c_task_local (C_handleLocal k) = [k]"
| "c_task_local t = []"

fun c_task_push :: "c_task \<Rightarrow> nat list" where
  "c_task_push (C_push ch b) = [ch]"
| "c_task_push t = []"

fun c_task_chan :: "c_task \<Rightarrow> (u32 \<times> nat) set" where
  "c_task_chan (C_track i k ch) = {(i, ch)}"
| "c_task_chan (C_open i k ch) = {(i, ch)}"
| "c_task_chan (C_wait i k ch) = {(i, ch)}"
| "c_task_chan t = {}"

definition c_uses :: "connector \<Rightarrow> (u32 \<times> nat) set" where
  "c_uses c = {(i, k). c_stream c i = Some k} \<union> (\<Union>t\<in>set (c_tasks c). c_task_uses t)"

definition c_locals :: "connector \<Rightarrow> nat list" where
  "c_locals c = concat (map c_task_local (c_tasks c))"

definition c_targets :: "connector \<Rightarrow> nat list" where
  "c_targets c = map snd (c_pending c) @ concat (map c_task_push (c_tasks c))"

definition c_numbers :: "connector \<Rightarrow> (u32 \<times> nat) set" where
  "c_numbers c = set (c_pending c) \<union> (\<Union>t\<in>set (c_tasks c). c_task_chan t)"

definition c_conns_ok :: "connector \<Rightarrow> bool" where
  "c_conns_ok c \<longleftrightarrow> uses_ok (c_uses c) (length (c_conns c)) \<and> distinct (c_locals c) \<and>
     (\<forall>k\<in>set (c_locals c). k < length (c_conns c) \<and> (\<forall>i. (i, k) \<notin> c_uses c))"

definition c_chans_ok :: "connector \<Rightarrow> bool" where
  "c_chans_ok c \<longleftrightarrow> distinct (c_targets c) \<and> (\<forall>ch\<in>set (c_targets c). ch < length (c_chans c) \<and> c_chans c ! ch = None) \<and>
     c_nextStreamID c = of_nat (length (c_chans c)) \<and>
     (\<forall>(i, ch)\<in>c_numbers c. ch < length (c_chans c) \<and> i = of_nat (Suc ch))"

definition c_system_inv :: "connector \<Rightarrow> bool" where
  "c_system_inv c \<longleftrightarrow> connector_inv c \<and> distinct (map fst (c_pending c)) \<and> c_conns_ok c \<and> c_chans_ok c"


lemmas c_resource_defs = c_uses_def c_locals_def c_targets_def c_numbers_def

lemma c_conns_mono:
  assumes "c_conns_ok c" "c_uses c' \<subseteq> c_uses c" "distinct (c_locals c')" "set (c_locals c') \<subseteq> set (c_locals c)"
    "length (c_conns c) \<le> length (c_conns c')"
  shows "c_conns_ok c'"
proof -
  have "uses_ok (c_uses c') (length (c_conns c'))"
    using assms(1,2,5) uses_ok_sub by (auto simp: c_conns_ok_def)
  moreover have "k < length (c_conns c') \<and> (\<forall>i. (i, k) \<notin> c_uses c')" if "k \<in> set (c_locals c')" for k
    using that assms by (auto simp: c_conns_ok_def intro: order_less_le_trans)
  ultimately show ?thesis using assms(3) by (simp add: c_conns_ok_def)
qed

lemma c_chans_mono:
  assumes "c_chans_ok c" "distinct (c_targets c')" "set (c_targets c') \<subseteq> set (c_targets c)" "c_numbers c' \<subseteq> c_numbers c"
    "c_chans c' = c_chans c" "c_nextStreamID c' = c_nextStreamID c"
  shows "c_chans_ok c'"
  using assms unfolding c_chans_ok_def by (auto 0 3)

text \<open>An operation that only takes streams and pending entries away.\<close>

definition c_quiet :: "connector \<Rightarrow> connector \<Rightarrow> bool" where
  "c_quiet c c' \<longleftrightarrow> (\<exists>P Q. c_streams c' = filter P (c_streams c) \<and> c_pending c' = filter Q (c_pending c)) \<and>
     length (c_conns c) \<le> length (c_conns c') \<and> c_chans c' = c_chans c \<and> c_nextStreamID c' = c_nextStreamID c \<and>
     c_tasks c' = c_tasks c"

lemma c_quietI:
  assumes "c_streams c' = filter P (c_streams c)" "c_pending c' = filter Q (c_pending c)"
    "length (c_conns c) \<le> length (c_conns c')" "c_chans c' = c_chans c" "c_nextStreamID c' = c_nextStreamID c"
    "c_tasks c' = c_tasks c"
  shows "c_quiet c c'"
  using assms unfolding c_quiet_def by blast

lemma c_quiet_trans:
  assumes "c_quiet a b" "c_quiet b c"
  shows "c_quiet a c"
proof -
  from assms obtain P Q P' Q' where "c_streams c = filter P' (filter P (c_streams a))" "c_pending c = filter Q' (filter Q (c_pending a))"
    unfolding c_quiet_def by force
  then show ?thesis
    using assms by (intro c_quietI [where P = "\<lambda>x. P x \<and> P' x" and Q = "\<lambda>x. Q x \<and> Q' x"]) (simp_all add: c_quiet_def conj_commute)
qed

lemma c_quiet_same:
  "c_streams c' = c_streams c \<Longrightarrow> c_pending c' = c_pending c \<Longrightarrow> length (c_conns c) \<le> length (c_conns c') \<Longrightarrow>
    c_chans c' = c_chans c \<Longrightarrow> c_nextStreamID c' = c_nextStreamID c \<Longrightarrow> c_tasks c' = c_tasks c \<Longrightarrow> c_quiet c c'"
  by (rule c_quietI [where P = "\<lambda>_. True" and Q = "\<lambda>_. True"]) simp_all

named_theorems c_quiet_intros

lemma c_quiet_refl [c_quiet_intros]: "c_quiet c c"
  by (rule c_quiet_same) simp_all

lemma c_quiet_removeStream [c_quiet_intros]: "c_quiet c (Connector_removeStream i c)"
  by (rule c_quietI [where P = "\<lambda>(k, v). i \<noteq> k" and Q = "\<lambda>_. True"]) (simp_all add: Connector_removeStream_def AList.delete_eq)

lemma c_quiet_removePending [c_quiet_intros]: "c_quiet c (Connector_removePending i c)"
  by (rule c_quietI [where Q = "\<lambda>(k, v). i \<noteq> k" and P = "\<lambda>_. True"]) (simp_all add: Connector_removePending_def AList.delete_eq)

lemma c_quiet_conns: "length (c_conns c) \<le> length cs \<Longrightarrow> c_quiet c (c\<lparr>c_conns := cs\<rparr>)"
  by (rule c_quiet_same) simp_all

lemma c_quiet_closeStream [c_quiet_intros]: "c_quiet c (Connector_closeStream i c)"
proof (cases "c_stream c i")
  case (Some k)
  then have "Connector_closeStream i c = (Connector_removeStream i c)\<lparr>c_conns := local_Close k (c_conns c)\<rparr>"
    by (simp add: Connector_closeStream_def Connector_removeStream_def)
  then show ?thesis using c_quiet_trans [OF c_quiet_removeStream c_quiet_conns] by (simp add: Connector_removeStream_def)
qed (simp add: Connector_closeStream_def c_quiet_refl)

lemma c_quiet_Send [c_quiet_intros]: "c_quiet c (snd (c_Send E e c))"
  by (rule c_quiet_same) simp_all

lemma c_quiet_write [c_quiet_intros]: "c_quiet c (Connector_write i k bs c)"
proof -
  obtain r cs where w: "local_Write (c_conns c) k bs = (r, cs)" by fastforce
  then have "c_quiet c (c\<lparr>c_conns := cs\<rparr>)" by (simp add: c_quiet_conns length_local_Write)
  with w c_quiet_closeStream c_quiet_trans show ?thesis
    by (auto simp: Connector_write_def split: option.split)
qed

lemma c_quiet_giveup [c_quiet_intros]: "c_quiet c (local_giveup i k c)"
  unfolding local_giveup_def
  by (rule c_quiet_trans [OF c_quiet_trans [OF c_quiet_conns c_quiet_removeStream] c_quiet_removePending]) simp

lemma c_quiet_receive [c_quiet_intros]: "c_quiet c (snd (Connector_receive E c))"
  by (auto simp: Connector_receive_def split: option.split prod.split sum.split intro: c_quiet_same)

lemma c_quiet_pump_round [c_quiet_intros]: "c_quiet c (snd (Connector_pump_round E n i k c))"
proof (cases "c_session c")
  case (Some s)
  obtain r s1 lc1 where p: "pump_round (te_codec E) (c_closed c) n i s (c_conns c ! k) = (r, s1, lc1)"
    by (cases "pump_round (te_codec E) (c_closed c) n i s (c_conns c ! k)")
  let ?c = "c\<lparr>c_session := Some s1, c_conns := (c_conns c)[k := lc1]\<rparr>"
  have "c_quiet c ?c" by (rule c_quiet_same) simp_all
  moreover have "c_quiet ?c (c_pump_end i r ?c)"
    by (auto simp: c_pump_end_def split: pump_result.split intro: c_quiet_intros)
  ultimately show ?thesis using Some p c_quiet_trans by (auto simp: Connector_pump_round_def)
qed (simp add: Connector_pump_round_def c_quiet_refl)

lemma c_quiet_close_streams [c_quiet_intros]: "c_quiet c (c_close_streams c)"
  by (rule c_quietI [where P = "\<lambda>_. False" and Q = "\<lambda>_. True"]) (simp_all add: c_close_streams_def)

lemma c_quiet_close_signal [c_quiet_intros]: "c_quiet c (c_close_signal E c)"
  by (rule c_quiet_same) (simp_all add: c_close_signal_def Let_def)

lemma c_quiet_inv:
  assumes "c_system_inv c" "c_quiet c c'"
  shows "c_system_inv c'"
proof -
  from assms(2) obtain P Q where q: "c_streams c' = filter P (c_streams c)" "c_pending c' = filter Q (c_pending c)"
      "length (c_conns c) \<le> length (c_conns c')" "c_chans c' = c_chans c" "c_nextStreamID c' = c_nextStreamID c"
      "c_tasks c' = c_tasks c" by (auto simp: c_quiet_def)
  have inv: "connector_inv c" using assms(1) by (simp add: c_system_inv_def)
  have d: "distinct (map fst (c_streams c'))" using inv by (simp add: q connector_inv_def distinct_map_filter)
  have sub: "c_stream c i = Some k" if "c_stream c' i = Some k" for i k
    using that d inv by (simp add: q connector_inv_def)
  have "k < length (c_conns c')" if "c_stream c' i = Some k" for i k
    using connector_invD(1) [OF inv sub [OF that]] q(3) by simp
  moreover have "i = j" if "c_stream c' i = Some k" "c_stream c' j = Some k" for i j k
    using connector_invD(2) [OF inv sub [OF that(2)] sub [OF that(1)]] .
  ultimately have "connector_inv c'" using d unfolding connector_inv_def by blast
  moreover have "c_conns_ok c'"
  proof (rule c_conns_mono [of c])
    show "c_conns_ok c" using assms(1) by (simp add: c_system_inv_def)
    then show "distinct (c_locals c')" by (simp add: c_conns_ok_def c_locals_def q(6))
    show "c_uses c' \<subseteq> c_uses c" using sub by (auto simp: c_uses_def q(6))
  qed (simp_all add: c_locals_def q)
  moreover have "c_chans_ok c'"
  proof (rule c_chans_mono [of c])
    show ok: "c_chans_ok c" using assms(1) by (simp add: c_system_inv_def)
    have "distinct (map snd (c_pending c) @ concat (map c_task_push (c_tasks c)))"
      using ok by (simp add: c_chans_ok_def c_targets_def)
    then show "distinct (c_targets c')" by (auto simp: c_targets_def q distinct_map_filter)
  qed (auto simp: c_targets_def c_numbers_def q)
  moreover have "distinct (map fst (c_pending c'))" using assms(1) by (simp add: q c_system_inv_def distinct_map_filter)
  ultimately show ?thesis by (simp add: c_system_inv_def)
qed


text \<open>A goroutine is taken out.\<close>

lemma c_taken:
  assumes "c_system_inv c" "c_tasks c = before @ t # behind" "c0 = c\<lparr>c_tasks := before @ behind\<rparr>"
  shows "c_system_inv c0" "c_uses c = c_uses c0 \<union> c_task_uses t" "c_numbers c = c_numbers c0 \<union> c_task_chan t"
    "distinct (c_locals c0 @ c_task_local t)" "set (c_locals c) = set (c_locals c0) \<union> set (c_task_local t)"
    "distinct (c_targets c0 @ c_task_push t)" "set (c_targets c) = set (c_targets c0) \<union> set (c_task_push t)"
proof -
  have ok: "c_conns_ok c" "c_chans_ok c" using assms(1) by (simp_all add: c_system_inv_def)
  show u: "c_uses c = c_uses c0 \<union> c_task_uses t" using assms(2,3) by (auto simp: c_uses_def)
  show n: "c_numbers c = c_numbers c0 \<union> c_task_chan t" using assms(2,3) by (auto simp: c_numbers_def)
  show l: "set (c_locals c) = set (c_locals c0) \<union> set (c_task_local t)" using assms(2,3) by (auto simp: c_locals_def)
  show g: "set (c_targets c) = set (c_targets c0) \<union> set (c_task_push t)" using assms(2,3) by (auto simp: c_targets_def)
  have "distinct (c_locals c)" "distinct (c_targets c)" using ok by (simp_all add: c_conns_ok_def c_chans_ok_def)
  then show dl: "distinct (c_locals c0 @ c_task_local t)" and dt: "distinct (c_targets c0 @ c_task_push t)"
    using assms(2,3) by (auto simp: c_locals_def c_targets_def)
  have "c_conns_ok c0" by (rule c_conns_mono [OF ok(1)]) (use u l dl in \<open>auto simp: assms(3)\<close>)
  moreover have "c_chans_ok c0" by (rule c_chans_mono [OF ok(2)]) (use n g dt in \<open>auto simp: assms(3)\<close>)
  moreover have "connector_inv c0" "distinct (map fst (c_pending c0))"
    using assms(1,3) by (auto simp: c_system_inv_def elim!: connector_inv_frame)
  ultimately show "c_system_inv c0" by (simp add: c_system_inv_def)
qed

text \<open>It goes on as \<open>t'\<close>, which holds nothing but what it held.\<close>

lemma c_add:
  assumes "c_system_inv c1" "c_task_local t' = []" "c_task_push t' = []"
    and "uses_ok (c_uses c1 \<union> c_task_uses t') (length (c_conns c1))"
    and "\<And>i k. (i, k) \<in> c_task_uses t' \<Longrightarrow> k \<notin> set (c_locals c1)"
    and "\<And>i ch. (i, ch) \<in> c_task_chan t' \<Longrightarrow> ch < length (c_chans c1) \<and> i = of_nat (Suc ch)"
  shows "c_system_inv (c_go t' c1)"
proof -
  have e: "c_uses (c_go t' c1) = c_uses c1 \<union> c_task_uses t'" "c_locals (c_go t' c1) = c_locals c1"
      "c_targets (c_go t' c1) = c_targets c1" "c_numbers (c_go t' c1) = c_numbers c1 \<union> c_task_chan t'"
    using assms(2,3) by (auto simp: c_resource_defs c_go_def)
  have s: "c_conns (c_go t' c1) = c_conns c1" "c_chans (c_go t' c1) = c_chans c1" "c_nextStreamID (c_go t' c1) = c_nextStreamID c1"
    "c_pending (c_go t' c1) = c_pending c1" "c_streams (c_go t' c1) = c_streams c1" by (simp_all add: c_go_def)
  have ok: "c_conns_ok c1" "c_chans_ok c1" using assms(1) by (simp_all add: c_system_inv_def)
  have "c_conns_ok (c_go t' c1)" unfolding c_conns_ok_def e s
    using ok(1) assms(4,5) by (auto simp: c_conns_ok_def)
  moreover have "c_chans_ok (c_go t' c1)" unfolding c_chans_ok_def e s
    using ok(2) assms(6) by (auto simp: c_chans_ok_def)
  moreover have "connector_inv (c_go t' c1)" "distinct (map fst (c_pending (c_go t' c1)))"
    using assms(1) by (auto simp: c_system_inv_def s elim!: connector_inv_frame)
  ultimately show ?thesis by (simp add: c_system_inv_def)
qed

lemma c_quiet_uses: "c_system_inv c \<Longrightarrow> c_quiet c c1 \<Longrightarrow> c_uses c1 \<subseteq> c_uses c \<and> c_locals c1 = c_locals c"
proof -
  assume a: "c_system_inv c" "c_quiet c c1"
  then obtain P where q: "c_streams c1 = filter P (c_streams c)" "c_tasks c1 = c_tasks c" by (auto simp: c_quiet_def)
  have d: "distinct (map fst (c_streams c1))" "distinct (map fst (c_streams c))"
    using c_quiet_inv [OF a] a(1) by (simp_all add: c_system_inv_def connector_inv_def)
  have "c_stream c i = Some k" if "c_stream c1 i = Some k" for i k
    using that d by (simp add: q)
  then show ?thesis using q(2) by (auto simp: c_uses_def c_locals_def)
qed

lemma c_go_quiet:
  assumes "c_system_inv c" "c_tasks c = before @ t # behind" "c0 = c\<lparr>c_tasks := before @ behind\<rparr>" "c_quiet c0 c1"
    and "c_task_local t' = []" "c_task_push t' = []" "c_task_uses t' \<subseteq> c_uses c" "c_task_chan t' \<subseteq> c_numbers c"
  shows "c_system_inv (c_go t' c1)"
proof (rule c_add)
  note tk = c_taken [OF assms(1-3)]
  have ok: "c_conns_ok c" "c_chans_ok c" using assms(1) by (simp_all add: c_system_inv_def)
  note q = c_quiet_uses [OF tk(1) assms(4)]
  show "c_system_inv c1" using c_quiet_inv [OF tk(1) assms(4)] .
  have len: "length (c_conns c) \<le> length (c_conns c1)" "c_chans c1 = c_chans c" using assms(3,4) by (simp_all add: c_quiet_def)
  have "c_uses c1 \<union> c_task_uses t' \<subseteq> c_uses c" using q tk(2) assms(7) by auto
  then show "uses_ok (c_uses c1 \<union> c_task_uses t') (length (c_conns c1))"
    using ok(1) len(1) uses_ok_sub by (auto simp: c_conns_ok_def)
  show "k \<notin> set (c_locals c1)" if "(i, k) \<in> c_task_uses t'" for i k
    using that assms(7) ok(1) q tk(5) by (auto simp: c_conns_ok_def)
  show "ch < length (c_chans c1) \<and> i = of_nat (Suc ch)" if "(i, ch) \<in> c_task_chan t'" for i ch
    using that assms(8) ok(2) len(2) by (auto simp: c_chans_ok_def)
qed (use assms in simp_all)

text \<open>The steps that give a goroutine something new.\<close>

lemma c_system_invD:
  assumes "c_system_inv c"
  shows "connector_inv c" "distinct (map fst (c_pending c))" "c_conns_ok c" "c_chans_ok c"
  using assms by (simp_all add: c_system_inv_def)

lemma c_add_plain:
  assumes "c_system_inv c" "c_task_local t = []" "c_task_push t = []" "c_task_uses t = {}" "c_task_chan t = {}"
  shows "c_system_inv (c_go t c)"
  by (rule c_add) (use assms c_system_invD(3) [OF assms(1)] in \<open>auto simp: c_conns_ok_def\<close>)

lemma c_add_push:
  assumes "c_system_inv c" "ch \<notin> set (c_targets c)" "ch < length (c_chans c)" "c_chans c ! ch = None"
  shows "c_system_inv (c_go (C_push ch b) c)"
proof -
  let ?c = "c_go (C_push ch b) c"
  have e: "c_uses ?c = c_uses c" "c_locals ?c = c_locals c" "c_targets ?c = c_targets c @ [ch]" "c_numbers ?c = c_numbers c"
    by (auto simp: c_resource_defs c_go_def)
  have s: "c_conns ?c = c_conns c" "c_chans ?c = c_chans c" "c_nextStreamID ?c = c_nextStreamID c"
    "c_pending ?c = c_pending c" "c_streams ?c = c_streams c" by (simp_all add: c_go_def)
  note i = c_system_invD [OF assms(1)]
  have "c_conns_ok ?c" unfolding c_conns_ok_def e s using i(3) by (simp add: c_conns_ok_def)
  moreover have "c_chans_ok ?c" unfolding c_chans_ok_def e s using i(4) assms(2-4) by (simp add: c_chans_ok_def)
  moreover have "connector_inv ?c" using i(1) by (rule connector_inv_frame) (simp_all add: s)
  ultimately show ?thesis using i(2) by (simp add: c_system_inv_def s)
qed

text \<open>A channel that is no target may change.\<close>

lemma c_set_chan:
  assumes "c_system_inv c" "ch \<notin> set (c_targets c) \<or> v = None"
  shows "c_system_inv (c\<lparr>c_chans := (c_chans c)[ch := v]\<rparr>)"
proof -
  let ?c = "c\<lparr>c_chans := (c_chans c)[ch := v]\<rparr>"
  note i = c_system_invD [OF assms(1)]
  have e: "c_uses ?c = c_uses c" "c_locals ?c = c_locals c" "c_targets ?c = c_targets c" "c_numbers ?c = c_numbers c"
    by (auto simp: c_resource_defs)
  have "c_conns_ok ?c" unfolding c_conns_ok_def e using i(3) by (simp add: c_conns_ok_def)
  moreover have "(c_chans c)[ch := v] ! x = None" if "x \<in> set (c_targets c)" for x
    using that i(4) assms(2) by (cases "x = ch") (auto simp: c_chans_ok_def)
  then have "c_chans_ok ?c" unfolding c_chans_ok_def e using i(4) by (simp add: c_chans_ok_def)
  moreover have "connector_inv ?c" using i(1) by (rule connector_inv_frame) simp_all
  ultimately show ?thesis using i(2) by (simp add: c_system_inv_def)
qed

lemma c_add_local:
  assumes "c_system_inv c"
  shows "c_system_inv (c_go (C_handleLocal (length (c_conns c))) (c\<lparr>c_conns := c_conns c @ [cn]\<rparr>))"
proof -
  let ?k = "length (c_conns c)"
  let ?c = "c_go (C_handleLocal ?k) (c\<lparr>c_conns := c_conns c @ [cn]\<rparr>)"
  note i = c_system_invD [OF assms]
  have e: "c_uses ?c = c_uses c" "c_locals ?c = c_locals c @ [?k]" "c_targets ?c = c_targets c" "c_numbers ?c = c_numbers c"
    by (auto simp: c_resource_defs c_go_def)
  have s: "c_conns ?c = c_conns c @ [cn]" "c_chans ?c = c_chans c" "c_nextStreamID ?c = c_nextStreamID c"
    "c_pending ?c = c_pending c" "c_streams ?c = c_streams c" by (simp_all add: c_go_def)
  have u: "uses_ok (c_uses c) ?k" "k \<in> set (c_locals c) \<Longrightarrow> k < ?k" for k using i(3) by (simp_all add: c_conns_ok_def)
  then have "(j, ?k) \<notin> c_uses c" for j by (auto simp: uses_ok_def)
  moreover have "uses_ok (c_uses c) (Suc ?k)" using u(1) by (rule uses_ok_sub) simp_all
  ultimately have "c_conns_ok ?c" unfolding c_conns_ok_def e s
    using i(3) u(2) by (auto simp: c_conns_ok_def less_Suc_eq)
  moreover have "c_chans_ok ?c" unfolding c_chans_ok_def e s using i(4) by (simp add: c_chans_ok_def)
  moreover have "connector_inv ?c" using i(1) by (rule connector_inv_frame) (simp_all add: s)
  ultimately show ?thesis using i(2) by (simp add: c_system_inv_def s)
qed

lemma update_snd:
  "set (map snd (AList.update i v xs)) \<subseteq> insert v (set (map snd xs))" "set (AList.update i v xs) \<subseteq> insert (i, v) (set xs)"
  "distinct (map snd xs) \<Longrightarrow> v \<notin> set (map snd xs) \<Longrightarrow> distinct (map snd (AList.update i v xs))"
proof -
  show sub: "set (map snd (AList.update i v xs)) \<subseteq> insert v (set (map snd xs))" for xs
    by (induction xs) auto
  show "set (AList.update i v xs) \<subseteq> insert (i, v) (set xs)"
    by (induction xs) auto
  show "distinct (map snd xs) \<Longrightarrow> v \<notin> set (map snd xs) \<Longrightarrow> distinct (map snd (AList.update i v xs))"
  proof (induction xs)
    case (Cons x xs)
    then show ?case using sub [of xs] by (cases x) auto
  qed simp
qed

lemma c_register_inv:
  assumes "c_system_inv c" "local_register c = (i, ch, c1)"
  shows "c_system_inv c1" "c_uses c1 = c_uses c" "c_locals c1 = c_locals c" "c_conns c1 = c_conns c"
    "ch < length (c_chans c1)" "i = of_nat (Suc ch)"
proof -
  note inv = c_system_invD [OF assms(1)]
  have f: "i = c_nextStreamID c + 1" "ch = length (c_chans c)"
      "c1 = c\<lparr>c_nextStreamID := i, c_chans := c_chans c @ [None], c_pending := AList.update i ch (c_pending c)\<rparr>"
    using assms(2) by (auto simp: local_register_def Let_def)
  show e: "c_uses c1 = c_uses c" "c_locals c1 = c_locals c" "c_conns c1 = c_conns c" "ch < length (c_chans c1)"
    by (auto simp: f c_resource_defs)
  have n: "c_nextStreamID c = of_nat (length (c_chans c))" using inv(4) by (simp add: c_chans_ok_def)
  then show i: "i = of_nat (Suc ch)" by (simp add: f(1,2))
  have old: "x < ch" if "x \<in> set (c_targets c)" for x using that inv(4) by (auto simp: c_chans_ok_def f(2))
  have targets: "c_targets c1 = map snd (AList.update i ch (c_pending c)) @ concat (map c_task_push (c_tasks c))"
    by (simp add: c_targets_def f(3))
  have new: "ch \<notin> set (c_targets c)" using old by auto
  then have fresh: "ch \<notin> set (map snd (c_pending c))" "ch \<notin> set (concat (map c_task_push (c_tasks c)))"
    unfolding c_targets_def by auto
  have d: "distinct (map snd (c_pending c) @ concat (map c_task_push (c_tasks c)))"
    using inv(4) by (simp add: c_chans_ok_def c_targets_def)
  have "distinct (c_targets c1)" unfolding targets distinct_append
    using d fresh update_snd(1) [of i ch "c_pending c"] update_snd(3) [of "c_pending c" ch i] by fastforce
  moreover have sub: "set (c_targets c1) \<subseteq> insert ch (set (c_targets c))"
    unfolding targets using update_snd(1) [of i ch "c_pending c"] by (auto simp: c_targets_def)
  then have "x < length (c_chans c1) \<and> c_chans c1 ! x = None" if "x \<in> set (c_targets c1)" for x
    using that old inv(4) by (auto simp: f(2,3) c_chans_ok_def nth_append less_SucI)
  moreover have "x < length (c_chans c1) \<and> j = of_nat (Suc x)" if "(j, x) \<in> c_numbers c1" for j x
  proof -
    have "(j, x) = (i, ch) \<or> (j, x) \<in> c_numbers c"
      using that update_snd(2) [of i ch "c_pending c"] by (auto simp: f(3) c_numbers_def)
    then show ?thesis using i inv(4) by (auto simp: f(2,3) c_chans_ok_def less_SucI)
  qed
  moreover have "c_nextStreamID c1 = of_nat (length (c_chans c1))" using n by (simp add: f)
  ultimately have "c_chans_ok c1" unfolding c_chans_ok_def by blast
  moreover have "c_conns_ok c1" unfolding c_conns_ok_def e(1-3) using inv(3) by (simp add: c_conns_ok_def)
  moreover have "connector_inv c1" using inv(1) by (rule connector_inv_frame) (simp_all add: f(3))
  moreover have "distinct (map fst (c_pending c1))" using inv(2) by (simp add: f(3) distinct_update)
  ultimately show "c_system_inv c1" by (simp add: c_system_inv_def)
qed

lemma c_track_inv:
  assumes "c_system_inv c" "(i, k) \<in> c_uses c"
  shows "c_system_inv (local_track i k c)"
proof -
  let ?c = "local_track i k c"
  note inv = c_system_invD [OF assms(1)]
  have u: "uses_ok (c_uses c) (length (c_conns c))" using inv(3) by (simp add: c_conns_ok_def)
  have m: "c_stream ?c = (c_stream c)(i \<mapsto> k)" by (simp add: local_track_def update_conv')
  have mem: "(j, k') \<in> c_uses c" if "c_stream ?c j = Some k'" for j k'
    using that assms(2) by (auto simp: m c_uses_def split: if_splits)
  have uses: "c_uses ?c \<subseteq> c_uses c" using mem by (auto simp: c_uses_def local_track_def)
  have "k' < length (c_conns ?c)" if "c_stream ?c j = Some k'" for j k'
    using mem [OF that] u by (auto simp: uses_ok_def local_track_def)
  moreover have "j = j'" if "c_stream ?c j = Some k'" "c_stream ?c j' = Some k'" for j j' k'
    using mem [OF that(1)] mem [OF that(2)] u unfolding uses_ok_def by blast
  moreover have "distinct (map fst (c_streams ?c))"
    using inv(1) by (simp add: local_track_def connector_inv_def distinct_update)
  ultimately have "connector_inv ?c" unfolding connector_inv_def by blast
  moreover have "c_conns_ok ?c"
    by (rule c_conns_mono [OF inv(3) uses]) (use inv(3) in \<open>simp_all add: c_conns_ok_def c_locals_def local_track_def\<close>)
  moreover have "c_chans_ok ?c"
    by (rule c_chans_mono [OF inv(4)]) (use inv(4) in \<open>simp_all add: c_chans_ok_def c_targets_def c_numbers_def local_track_def\<close>)
  ultimately show ?thesis using inv(2) by (simp add: c_system_inv_def local_track_def)
qed


text \<open>Every goroutine keeps the invariant.\<close>

lemma c_dispatch_cases:
  assumes "Connector_dispatch E e c = (a, c1)"
  shows "c_quiet c c1 \<and>
    (\<forall>ch b. a = CPush ch b \<longrightarrow> (\<exists>i. (i, ch) \<in> set (c_pending c) \<and> c_pending c1 = AList.delete i (c_pending c) \<and> c_tasks c1 = c_tasks c \<and> c_chans c1 = c_chans c))"
proof (cases "GetOpenStreamAck e")
  case None
  have l: "c_quiet c (c_logf m c)" for m by (rule c_quiet_same) (simp_all add: c_logf_def)
  have "c_quiet c c1 \<and> (\<forall>ch b. a \<noteq> CPush ch b)"
  proof (cases "GetData e")
    case d: None
    show ?thesis using assms None d l
      by (simp add: Connector_dispatch_def split: if_splits) (auto intro: c_quiet_intros)
  qed (use assms None in \<open>auto simp: Connector_dispatch_def c_quiet_refl\<close>)
  then show ?thesis by blast
next
  case (Some ack)
  let ?i = "OpenStreamAck_GetStreamId (Some ack)"
  have "c_quiet c (c\<lparr>c_pending := AList.delete ?i (c_pending c)\<rparr>)"
    using c_quiet_removePending by (simp add: Connector_removePending_def)
  then show ?thesis using assms Some
    by (auto simp: Connector_dispatch_def Let_def split: option.splits intro: c_quiet_intros map_of_SomeD)
qed

lemma c_push_target:
  assumes "c_system_inv c" "(i, ch) \<in> set (c_pending c)" "c_pending c1 = AList.delete i (c_pending c)"
    "c_tasks c1 = c_tasks c" "c_chans c1 = c_chans c"
  shows "ch \<notin> set (c_targets c1) \<and> ch < length (c_chans c1) \<and> c_chans c1 ! ch = None"
proof -
  note inv = c_system_invD [OF assms(1)]
  have d: "distinct (map snd (c_pending c) @ concat (map c_task_push (c_tasks c)))"
    using inv(4) by (simp add: c_chans_ok_def c_targets_def)
  have m: "ch \<in> set (map snd (c_pending c))" using assms(2) by force
  then have t: "ch \<in> set (c_targets c)" by (simp add: c_targets_def)
  have "ch \<notin> snd ` set (AList.delete i (c_pending c))"
  proof
    assume "ch \<in> snd ` set (AList.delete i (c_pending c))"
    then obtain j where j: "(j, ch) \<in> set (c_pending c)" "j \<noteq> i" by (auto simp: AList.delete_eq)
    have "inj_on snd (set (c_pending c))" using d by (simp add: distinct_map)
    from inj_onD [OF this, of "(j, ch)" "(i, ch)"] j assms(2) show False by simp
  qed
  moreover have "ch \<notin> set (concat (map c_task_push (c_tasks c)))" using d m unfolding distinct_append by blast
  ultimately show ?thesis using t inv(4) assms(3-5) by (simp add: c_targets_def c_chans_ok_def)
qed

lemma c_run_dispatch_inv:
  assumes "c_system_inv c" "c_tasks c = before @ C_dispatch e # behind"
    and "c_run_task E acc w n (C_dispatch e) (c\<lparr>c_tasks := before @ behind\<rparr>) = Some c'"
  shows "c_system_inv c'"
proof -
  define c0 where "c0 = c\<lparr>c_tasks := before @ behind\<rparr>"
  note tk = c_taken [OF assms(1,2) c0_def]
  obtain a c1 where d: "Connector_dispatch E e c0 = (a, c1)" by fastforce
  note q = c_dispatch_cases [OF d]
  have q1: "c_quiet c0 c1" using q by simp
  have inv1: "c_system_inv c1" using c_quiet_inv [OF tk(1) q1] .
  note go = c_go_quiet [OF assms(1,2) c0_def q1]
  show ?thesis
  proof (cases a)
    case CStop
    then show ?thesis using assms(3) d go [of C_Close] by (simp add: c0_def)
  next
    case CNext
    then show ?thesis using assms(3) d go [of C_handleMessages] by (simp add: c0_def)
  next
    case (CPush ch b)
    then obtain i where "(i, ch) \<in> set (c_pending c0)" "c_pending c1 = AList.delete i (c_pending c0)"
        "c_tasks c1 = c_tasks c0" "c_chans c1 = c_chans c0" using q by blast
    from c_push_target [OF tk(1) this] c_add_push [OF inv1, of ch b] show ?thesis
      using assms(3) d CPush by (simp add: c0_def)
  next
    case (CData m)
    let ?i = "Data_GetStreamId (Some m)"
    show ?thesis
    proof (cases "c_stream c1 ?i")
      case None
      then show ?thesis using assms(3) d CData go [of C_handleMessages] by (simp add: c0_def)
    next
      case (Some k)
      then have "(?i, k) \<in> c_uses c1" by (simp add: c_uses_def)
      then have "(?i, k) \<in> c_uses c" using c_quiet_uses [OF tk(1) q1] tk(2) by blast
      then show ?thesis using assms(3) d CData Some go [of "C_write ?i k (Data_GetPayload (Some m))"] by (simp add: c0_def)
    qed
  qed
qed

lemma c_run_wait_inv:
  assumes "c_system_inv c" "c_tasks c = before @ C_wait i k ch # behind"
    and "local_wait w i k ch (c\<lparr>c_tasks := before @ behind\<rparr>) = Some (b, c')"
  shows "c_system_inv c'"
proof -
  define c0 where "c0 = c\<lparr>c_tasks := before @ behind\<rparr>"
  note tk = c_taken [OF assms(1,2) c0_def]
  let ?emptied = "\<lambda>x. x\<lparr>c_chans := (c_chans x)[ch := None]\<rparr>"
  have inv1: "c_system_inv (?emptied c)" "c_tasks (?emptied c) = before @ C_wait i k ch # behind"
    "?emptied c0 = (?emptied c)\<lparr>c_tasks := before @ behind\<rparr>"
    using c_set_chan [OF assms(1), of ch None] assms(2) by (simp_all add: c0_def)
  have "(i, k) \<in> c_uses (?emptied c)" using assms(2) by (auto simp: c_uses_def)
  then have pump: "c_system_inv (c_go (C_pump i k) (?emptied c0))"
    by (intro c_go_quiet [OF inv1 c_quiet_refl]) simp_all
  have "c_quiet (?emptied c0) (Connector_removeStream i ((?emptied c0)\<lparr>c_conns := local_Close k (c_conns (?emptied c0))\<rparr>))"
    by (rule c_quiet_trans [OF c_quiet_conns c_quiet_removeStream]) simp
  from c_quiet_inv [OF c_taken(1) [OF inv1] this]
  have refused: "c_system_inv (Connector_removeStream i ((?emptied c0)\<lparr>c_conns := local_Close k (c_conns (?emptied c0))\<rparr>))" .
  have given: "c_system_inv (local_giveup i k c0)" using c_quiet_inv [OF tk(1) c_quiet_giveup] .
  show ?thesis using assms(3) pump refused given unfolding c0_def [symmetric]
    by (auto simp: local_wait_def Let_def split: wake.splits option.splits if_splits)
qed

lemma c_run_local_inv:
  assumes "c_system_inv c" "c_tasks c = before @ C_handleLocal k # behind"
    and "c_run_task E acc w n (C_handleLocal k) (c\<lparr>c_tasks := before @ behind\<rparr>) = Some c'"
  shows "c_system_inv c'"
proof -
  define c0 where "c0 = c\<lparr>c_tasks := before @ behind\<rparr>"
  note tk = c_taken [OF assms(1,2) c0_def]
  obtain i ch c1 where r: "local_register c0 = (i, ch, c1)" by (cases "local_register c0")
  note f = c_register_inv [OF tk(1) r]
  have ok: "c_conns_ok c" using c_system_invD(3) [OF assms(1)] .
  have loc: "k \<in> set (c_locals c)" "k \<notin> set (c_locals c0)" using tk(4,5) by auto
  have "k < length (c_conns c)" "\<And>j. (j, k) \<notin> c_uses c0"
    using ok loc(1) tk(2) by (auto simp: c_conns_ok_def)
  then have "uses_ok (insert (i, k) (c_uses c0)) (length (c_conns c0))"
    using c_system_invD(3) [OF tk(1)] by (auto simp: c_conns_ok_def uses_ok_def c0_def)
  then have "c_system_inv (c_go (C_track i k ch) c1)"
    using f loc(2) by (intro c_add) simp_all
  then show ?thesis using assms(3) r by (simp add: c0_def)
qed

lemma c_run_track_inv:
  assumes "c_system_inv c" "c_tasks c = before @ C_track i k ch # behind"
    and "c_run_task E acc w n (C_track i k ch) (c\<lparr>c_tasks := before @ behind\<rparr>) = Some c'"
  shows "c_system_inv c'"
proof -
  define c0 where "c0 = c\<lparr>c_tasks := before @ behind\<rparr>"
  note tk = c_taken [OF assms(1,2) c0_def]
  have "(i, k) \<in> c_uses c" using tk(2) by auto
  then have inv: "c_system_inv (local_track i k c)" by (rule c_track_inv [OF assms(1)])
  have "c_tasks (local_track i k c) = before @ C_track i k ch # behind" using assms(2) by (simp add: local_track_def)
  note g = c_go_quiet [OF inv this, of "local_track i k c0", OF _ c_quiet_refl, of "C_open i k ch"]
  have "(i, k) \<in> c_uses (local_track i k c)" "(i, ch) \<in> c_numbers (local_track i k c)"
    using assms(2) by (auto simp: c_uses_def c_numbers_def local_track_def)
  then have "c_system_inv (c_go (C_open i k ch) (local_track i k c0))" using g by (simp add: c0_def local_track_def)
  then show ?thesis using assms(3) by (simp add: c0_def)
qed

lemma c_run_push_inv:
  assumes "c_system_inv c" "c_tasks c = before @ C_push ch b # behind"
    and "c_run_task E acc w n (C_push ch b) (c\<lparr>c_tasks := before @ behind\<rparr>) = Some c'"
  shows "c_system_inv c'"
proof -
  define c0 where "c0 = c\<lparr>c_tasks := before @ behind\<rparr>"
  note tk = c_taken [OF assms(1,2) c0_def]
  have "ch \<notin> set (c_targets c0)" using tk(6) by simp
  then have "c_system_inv (c0\<lparr>c_chans := (c_chans c0)[ch := Some b]\<rparr>)" by (intro c_set_chan [OF tk(1)]) simp
  then show ?thesis using assms(3) c_add_plain unfolding c0_def [symmetric] by (auto simp: chan_send_def split: option.splits)
qed

lemma c_run_task_inv:
  assumes "c_system_inv c" "c_tasks c = before @ t # behind"
    and "c_run_task E acc w n t (c\<lparr>c_tasks := before @ behind\<rparr>) = Some c'"
  shows "c_system_inv c'"
proof -
  define c0 where "c0 = c\<lparr>c_tasks := before @ behind\<rparr>"
  note tk = c_taken [OF assms(1,2) c0_def]
  note go = c_go_quiet [OF assms(1,2) c0_def]
  note over = c_quiet_inv [OF tk(1)]
  have held: "c_task_uses t \<subseteq> c_uses c" "c_task_chan t \<subseteq> c_numbers c" using tk(2,3) by blast+
  have run: "c_run_task E acc w n t c0 = Some c'" using assms(3) by (simp add: c0_def)
  show ?thesis
  proof (cases t)
    case C_handleMessages
    then show ?thesis using run c_quiet_receive [of c0 E] go
      by (auto split: prod.splits option.splits)
  next
    case (C_dispatch e)
    then show ?thesis using c_run_dispatch_inv assms by blast
  next
    case (C_push ch b)
    then show ?thesis using c_run_push_inv assms by blast
  next
    case (C_write i k bs)
    then show ?thesis using run go [OF c_quiet_write] by auto
  next
    case C_acceptLoop
    then show ?thesis using run go [OF c_quiet_refl] tk(1) c_add_plain [OF c_add_local [OF tk(1)]]
      by (auto simp: Connector_accept_def split: sum.splits if_splits bool.splits)
  next
    case (C_handleLocal k)
    then show ?thesis using c_run_local_inv assms by blast
  next
    case (C_track i k ch)
    then show ?thesis using c_run_track_inv assms by blast
  next
    case (C_open i k ch)
    have "c_quiet c0 (snd (local_open E i k c0))"
      using c_quiet_Send [of c0 E "open_env i"] c_quiet_giveup c_quiet_trans
      by (auto simp: local_open_def split: prod.split option.split)
    then show ?thesis using run C_open held go over
      by (auto split: prod.splits bool.splits)
  next
    case (C_wait i k ch)
    then show ?thesis using run c_run_wait_inv [OF assms(1)] assms(2) by (auto simp: c0_def)
  next
    case (C_pump i k)
    then show ?thesis using run c_quiet_pump_round [of c0 E n i k] held go over
      by (auto split: prod.splits pump_result.splits)
  next
    case C_Close
    then show ?thesis using run tk(1) go [OF c_quiet_close_signal] by (auto split: if_splits)
  next
    case C_close_streams
    then show ?thesis using run over [OF c_quiet_close_streams] by auto
  qed
qed

lemma c_started_inv:
  assumes "c_started E c"
  shows "c_system_inv c"
proof -
  from assms obtain dial listen rand sent addr connID port pass cn where
    st: "Connector_Start E dial listen rand sent (NewConnector addr connID port pass) = (None, Some cn, c)"
    by (auto simp: c_started_def)
  from Connector_Start_outcome [where E = E and dial = dial and listen = listen and rand = rand and sent = sent and
      c = "NewConnector addr connID port pass"] st
  obtain s where "c = c_go C_acceptLoop (c_go C_handleMessages
      ((NewConnector addr connID port pass)\<lparr>c_session := Some s, c_socket := Some False\<rparr>))" by auto
  then show ?thesis
    by (simp add: c_go_def c_system_inv_def connector_inv_def NewConnector_def c_conns_ok_def c_chans_ok_def c_resource_defs uses_ok_def)
qed

inductive_cases connector_stepE: "connector_step E c c'"

lemma connector_run_steps: "connector_run E c c' \<longleftrightarrow> (connector_step E)\<^sup>*\<^sup>* c c'"
proof
  show "connector_run E c c' \<Longrightarrow> (connector_step E)\<^sup>*\<^sup>* c c'"
    by (induction rule: connector_run.induct) auto
  show "(connector_step E)\<^sup>*\<^sup>* c c' \<Longrightarrow> connector_run E c c'"
    by (induction rule: rtranclp_induct) (auto intro: connector_run.intros)
qed

interpretation connector_sys: step_system "connector_step E" "c_started E" c_system_inv for E
proof unfold_locales
  fix c c'
  assume "c_system_inv c" "connector_step E c c'"
  then show "c_system_inv c'" by (auto elim!: connector_stepE intro: c_run_task_inv c_add_plain)
qed (rule c_started_inv)

lemma c_reached_inv: "c_started E c0 \<Longrightarrow> connector_run E c0 c \<Longrightarrow> c_system_inv c"
  using connector_sys.reachable_keeps by (simp add: connector_run_steps)

text \<open>C29: the reader of a connector never blocks on an acknowledgement. Whatever the peer sends and however the
  goroutines interleave, when \<^verbatim>\<open>handleMessages\<close> is about to send into the channel of a waiting handler, the
  channel (of capacity one) is empty: every channel gets at most one value.\<close>

theorem ack_send_never_blocks:
  assumes "c_started E c0" "connector_run E c0 c" "C_push ch b \<in> set (c_tasks c)"
  shows "\<exists>c'. chan_send ch b c = Some c'"
proof -
  have "c_chans_ok c" using c_system_invD(4) [OF c_reached_inv [OF assms(1,2)]] .
  moreover have "ch \<in> set (c_targets c)" using assms(3) by (force simp: c_targets_def)
  ultimately show ?thesis by (simp add: c_chans_ok_def chan_send_def)
qed

text \<open>C30: stream numbers do not clash. As long as fewer than 2^32 local connections have been accepted, two
  handlers that wait for different acknowledgements (or two pending entries) have different stream
  numbers, none of them 0, however the goroutines interleave; and no local connection serves two streams.\<close>

theorem stream_numbers_unique:
  assumes "c_started E c0" "connector_run E c0 c" "length (c_chans c) < 2 ^ 32"
    and "(i, ch) \<in> c_numbers c" "(j, ch') \<in> c_numbers c"
  shows "(i = j \<longleftrightarrow> ch = ch') \<and> i \<noteq> 0 \<and> (\<forall>k. (i, k) \<in> c_uses c \<longrightarrow> (j, k) \<in> c_uses c \<longrightarrow> i = j)"
proof -
  note inv = c_system_invD [OF c_reached_inv [OF assms(1,2)]]
  have n: "ch < length (c_chans c)" "i = of_nat (Suc ch)" "ch' < length (c_chans c)" "j = of_nat (Suc ch')"
    using inv(4) assms(4,5) by (auto simp: c_chans_ok_def)
  have u: "unat i = Suc ch" "unat j = Suc ch'"
    using n assms(3) by (simp_all only: n, simp_all add: unat_of_nat_u32 del: of_nat_Suc)
  then have "i = j \<longleftrightarrow> ch = ch'" using n(2,4) by (metis Suc_inject)
  moreover have "i \<noteq> 0" using u(1) by auto
  moreover have "uses_ok (c_uses c) (length (c_conns c))" using inv(3) by (simp add: c_conns_ok_def)
  ultimately show ?thesis unfolding uses_ok_def by blast
qed

subsection \<open>The message loop\<close>

lemma c_round_inv:
  assumes "c_system_inv c" "Connector_round E c = (r, c')"
  shows "c_system_inv c' \<and> r \<noteq> RBlocked"
proof -
  obtain eo c1 where r: "Connector_receive E c = (eo, c1)" by fastforce
  have inv1: "c_system_inv c1" using c_quiet_inv [OF assms(1) c_quiet_receive [of c E]] r by simp
  show ?thesis
  proof (cases eo)
    case None
    then show ?thesis using assms(2) r inv1 by (auto simp: Connector_round_def)
  next
    case (Some e)
    obtain a c2 where d: "Connector_dispatch E e c1 = (a, c2)" by fastforce
    note q = c_dispatch_cases [OF d]
    have inv2: "c_system_inv c2" using c_quiet_inv [OF inv1] q by blast
    have data: "c_system_inv (Connector_handleData m c2)" for m
      using c_quiet_inv [OF inv2 c_quiet_write] inv2 by (simp add: Connector_handleData_def split: option.split)
    show ?thesis
    proof (cases "\<exists>ch b. a = CPush ch b")
      case True
      then obtain ch b where a: "a = CPush ch b" by blast
      then obtain i where "(i, ch) \<in> set (c_pending c1)" "c_pending c2 = AList.delete i (c_pending c1)"
          "c_tasks c2 = c_tasks c1" "c_chans c2 = c_chans c1" using q by blast
      note t = c_push_target [OF inv1 this]
      then have "c_system_inv (c2\<lparr>c_chans := (c_chans c2)[ch := Some b]\<rparr>)" by (intro c_set_chan [OF inv2]) simp
      then show ?thesis using assms(2) r Some d a t by (auto simp: Connector_round_def chan_send_def)
    next
      case False
      then show ?thesis using assms(2) r Some d inv2 data by (cases a) (auto simp: Connector_round_def)
    qed
  qed
qed

lemma c_round_closed: "c_closed (snd (Connector_round E c)) = c_closed c"
proof -
  have cl: "c_closed (Connector_closeStream i c) = c_closed c" for i c
    by (simp add: Connector_closeStream_def split: option.split)
  have h: "c_closed (Connector_handleData d c) = c_closed c" for d c
    by (simp add: Connector_handleData_def Connector_write_def cl split: option.split prod.split)
  have d: "c_closed c2 = c_closed c" if "Connector_dispatch E e c = (a, c2)" for e c a c2
    using that by (auto simp: Connector_dispatch_def Let_def cl c_logf_def split: option.splits if_splits)
  have r: "c_closed c1 = c_closed c" if "Connector_receive E c = (eo, c1)" for eo c1
    using that by (auto simp: Connector_receive_def split: option.splits prod.splits sum.splits if_splits)
  show ?thesis using r d h
    by (auto simp: Connector_round_def chan_send_def split: prod.split option.split c_action.split)
qed

lemma Connector_Close_done:
  "c_closed (Connector_Close E c) \<and> (\<not> c_closed c \<longrightarrow> c_streams (Connector_Close E c) = [] \<and>
     c_socket (Connector_Close E c) \<noteq> Some False \<and>
     (\<forall>s. c_session (Connector_Close E c) = Some s \<longrightarrow> conn_closed (conn s)))"
  by (auto simp: Connector_Close_def c_close_streams_def c_close_signal_def Let_def close_broker_def conn_Close_def)

lemma Connector_handleMessages_ends:
  assumes "c_system_inv c"
  shows "\<exists>c'. Connector_handleMessages E c = Some c' \<and> c_closed c' \<and>
    (\<not> c_closed c \<longrightarrow> c_streams c' = [] \<and> c_socket c' \<noteq> Some False \<and> (\<forall>s. c_session c' = Some s \<longrightarrow> conn_closed (conn s)))"
  using assms
proof (induction E c rule: Connector_handleMessages.induct)
  case (1 E c)
  obtain r c1 where r: "Connector_round E c = (r, c1)" by fastforce
  note i = c_round_inv [OF "1.prems" r]
  have c: "c_closed c1 = c_closed c" using c_round_closed [of E c] r by simp
  show ?case
  proof (cases r)
    case RNext
    then show ?thesis using "1.IH" [of r c1] r i c by (simp add: Connector_handleMessages.simps [of E c])
  next
    case RStop
    then show ?thesis using r c Connector_Close_done [of E c1] by (auto simp: Connector_handleMessages.simps [of E c])
  qed (use i in simp)
qed

text \<open>C31: the connector's message loop always ends, and it ends closed. From every state a connector can reach,
  with any content of the broker connection, \<^verbatim>\<open>handleMessages\<close> neither blocks on a channel nor runs for
  ever; it leaves the connector closed, without streams, with the listening socket and the broker
  connection closed.\<close>

theorem connector_loop_ends_closed:
  assumes "c_started E c0" "connector_run E c0 c" "\<not> Connector_Done c"
  shows "\<exists>c'. Connector_handleMessages E c = Some c' \<and> Connector_Done c' \<and> c_streams c' = [] \<and> c_socket c' \<noteq> Some False \<and>
    (\<forall>s. c_session c' = Some s \<longrightarrow> conn_closed (conn s))"
  using Connector_handleMessages_ends [OF c_reached_inv [OF assms(1,2)], of E] assms(3)
  by (simp add: Connector_Done_def)

subsection \<open>The timeout\<close>

text \<open>Giving up on a stream is not reported to the other side. When the wait for the acknowledgement times
  out, nothing is sent; an acknowledgement that arrives later is dropped without a trace, so the stream the
  listener has opened, and its connection to the local service, stay open.\<close>

lemma ack_timeout_is_silent:
  "\<exists>c1. local_wait TimedOut i k ch c = Some (False, c1) \<and> c_session c1 = c_session c \<and>
     map_of (c_streams c1) i = None \<and> map_of (c_pending c1) i = None \<and>
     Connector_dispatch E (open_ack_env i True ''stream opened'') c1 = (CNext, c1)"
proof -
  let ?c = "local_giveup i k c"
  have "map_of (c_pending ?c) i = None" "map_of (c_streams ?c) i = None" "c_session ?c = c_session c"
    by (simp_all add: local_giveup_def Connector_removePending_def Connector_removeStream_def delete_conv')
  then show ?thesis
    by (simp add: local_wait_def Connector_dispatch_def getter_defs OpenStreamAck_GetStreamId_def)
qed

subsection \<open>A concrete instance\<close>

lemma sample_Connector_started:
  "\<exists>c0 s. c_started sample_tenv c0 \<and> c0 = c_go C_acceptLoop (c_go C_handleMessages
     ((NewConnector ''broker:1781'' ''web'' ''8080'' ''pw'')\<lparr>c_session := Some s, c_socket := Some False\<rparr>)) \<and>
     (\<exists>rk. healthy (conn s) \<and> gcm (recvEnc s) = aes_NewGCM rk \<and> rx (conn s) = wire (aes_NewGCM rk) (counter (recvEnc s)) ps)"
proof -
  let ?ack = "Envelope_ConnectAck \<lparr>ConnectAck_Success = True, ConnectAck_Message = ''ok''\<rparr>"
  let ?c = "NewConnector ''broker:1781'' ''web'' ''8080'' ''pw''"
  obtain cn s rk sk where s: "PerformHandshake proto_codec sample_curve (Inr (replicate 32 1)) True cn = (Inr s, conn s)"
      "healthy (conn s)" "gcm (sendEnc s) = aes_NewGCM sk" "gcm (recvEnc s) = aes_NewGCM rk"
      "rx (conn s) = wire (aes_NewGCM rk) (counter (recvEnc s)) (proto_payload ?ack # ps)"
    using sample_handshake [of "proto_payload ?ack # ps"] by blast
  have "sendable (Envelope_Authenticate \<lparr>Authenticate_PassphraseHash = sha256_Sum256 (bytes_of_string ''pw'')\<rparr>)"
    "sendable (Envelope_ConnectRequest \<lparr>ConnectRequest_ConnectionId = ''web''\<rparr>)"
    "sendable ?ack"
    by (simp_all add: sendable_simps)
  from sample_greeting [OF s(2-5) this] obtain s1 s2 s3 where
    g: "Send proto_codec s (auth_env ''pw'') = (None, s1)"
       "Send proto_codec s1 (env (Envelope_ConnectRequest \<lparr>ConnectRequest_ConnectionId = ''web''\<rparr>)) = (None, s2)"
       "Receive proto_codec s2 = (Inr (env ?ack), s3)" "healthy (conn s3)" "gcm (recvEnc s3) = aes_NewGCM rk"
       "rx (conn s3) = wire (aes_NewGCM rk) (counter (recvEnc s3)) ps"
    by (auto simp: auth_env_def)
  have "Connector_Start sample_tenv (\<lambda>_. Inr cn) (\<lambda>_. None) (Inr (replicate 32 1)) True ?c =
    (None, Some (conn s3), c_go C_acceptLoop (c_go C_handleMessages (?c\<lparr>c_session := Some s3, c_socket := Some False\<rparr>)))"
    using s(1) g by (simp add: Connector_Start_def NewConnector_def Let_def getter_defs ConnectAck_GetSuccess_def)
  then show ?thesis using g(4-6) unfolding c_started_def by blast
qed


text \<open>One step of the goroutine at the given place.\<close>

lemma c_step_at:
  assumes "connector_run E c0 c" "c_tasks c = before @ t # behind"
    "c_run_task E acc w n t (c\<lparr>c_tasks := before @ behind\<rparr>) = Some c'"
  shows "connector_run E c0 c'"
  using assms by (blast intro: c_more c_task)

theorem stream_numbers_unique_witness:
  "\<exists>c0 c. connector_run sample_tenv c0 c \<and> (1, 0) \<in> c_numbers c \<and> (2, 1) \<in> c_numbers c \<and> (1 :: u32) \<noteq> 2"
proof -
  obtain c0 s where c0: "c_started sample_tenv c0" "c0 = c_go C_acceptLoop (c_go C_handleMessages
     ((NewConnector ''broker:1781'' ''web'' ''8080'' ''pw'')\<lparr>c_session := Some s, c_socket := Some False\<rparr>))"
    using sample_Connector_started [of "[]"] by blast
  let ?b = "(NewConnector ''broker:1781'' ''web'' ''8080'' ''pw'')\<lparr>c_session := Some s, c_socket := Some False\<rparr>"
  let ?c1 = "?b\<lparr>c_conns := [sample_conn], c_tasks := [C_handleMessages, C_handleLocal 0, C_acceptLoop]\<rparr>"
  let ?c2 = "?b\<lparr>c_conns := [sample_conn, sample_conn], c_tasks := [C_handleMessages, C_handleLocal 0, C_handleLocal 1, C_acceptLoop]\<rparr>"
  let ?c3 = "?b\<lparr>c_conns := [sample_conn, sample_conn], c_nextStreamID := 1, c_chans := [None], c_pending := [(1, 0)],
    c_tasks := [C_handleMessages, C_handleLocal 1, C_acceptLoop, C_track 1 0 0]\<rparr>"
  let ?c4 = "?b\<lparr>c_conns := [sample_conn, sample_conn], c_nextStreamID := 2, c_chans := [None, None], c_pending := [(1, 0), (2, 1)],
    c_tasks := [C_handleMessages, C_acceptLoop, C_track 1 0 0, C_track 2 1 1]\<rparr>"
  note ds = c0(2) c_go_def NewConnector_def Connector_accept_def local_register_def Let_def
  have "connector_run sample_tenv c0 c0" by (rule c_none)
  then have "connector_run sample_tenv c0 ?c1"
    by (rule c_step_at [where before = "[C_handleMessages]" and t = C_acceptLoop and behind = "[]" and acc = "Inr sample_conn"])
      (simp_all add: ds)
  then have "connector_run sample_tenv c0 ?c2"
    by (rule c_step_at [where before = "[C_handleMessages, C_handleLocal 0]" and t = C_acceptLoop and behind = "[]" and acc = "Inr sample_conn"])
      (simp_all add: ds)
  then have "connector_run sample_tenv c0 ?c3"
    by (rule c_step_at [where before = "[C_handleMessages]" and t = "C_handleLocal 0" and behind = "[C_handleLocal 1, C_acceptLoop]"])
      (simp_all add: ds)
  then have r: "connector_run sample_tenv c0 ?c4"
    by (rule c_step_at [where before = "[C_handleMessages]" and t = "C_handleLocal 1" and behind = "[C_acceptLoop, C_track 1 0 0]"])
      (simp_all add: ds)
  have "length (c_chans ?c4) < 2 ^ 32" "(1, 0) \<in> c_numbers ?c4" "(2, 1) \<in> c_numbers ?c4" by (simp_all add: c_numbers_def)
  moreover from stream_numbers_unique [OF c0(1) r this] have "(1 :: u32) = 2 \<longleftrightarrow> (0 :: nat) = 1" by blast
  then have "(1 :: u32) \<noteq> 2" by (simp only: zero_neq_one) blast
  ultimately show ?thesis using r by blast
qed

theorem ack_send_never_blocks_witness:
  "\<exists>c0 c. connector_run sample_tenv c0 c \<and> C_push 0 True \<in> set (c_tasks c) \<and> (\<exists>c'. chan_send 0 True c = Some c')"
proof -
  let ?e = "Envelope_OpenStreamAck \<lparr>OpenStreamAck_StreamId = 1, OpenStreamAck_Success = True, OpenStreamAck_Message = ''stream opened''\<rparr>"
  obtain c0 s rk where c0: "c_started sample_tenv c0" "c0 = c_go C_acceptLoop (c_go C_handleMessages
       ((NewConnector ''broker:1781'' ''web'' ''8080'' ''pw'')\<lparr>c_session := Some s, c_socket := Some False\<rparr>))"
    and s: "healthy (conn s)" "gcm (recvEnc s) = aes_NewGCM rk"
      "rx (conn s) = wire (aes_NewGCM rk) (counter (recvEnc s)) ([proto_payload ?e] @ [])"
    using sample_Connector_started [of "[proto_payload ?e]"] by auto
  have len: "sendable ?e" by (simp add: sendable_simps)
  obtain s1 where s1: "Receive proto_codec s = (Inr (env ?e), s1)"
    using Receive_wire [OF healthy_not_closed [OF s(1)] s(2) _ sendable_fits [OF len] sendable_Unmarshal [OF len], of "[]" "[]"] s(3) by auto
  let ?b = "(NewConnector ''broker:1781'' ''web'' ''8080'' ''pw'')\<lparr>c_session := Some s, c_socket := Some False\<rparr>"
  let ?c1 = "?b\<lparr>c_conns := [sample_conn], c_tasks := [C_handleMessages, C_handleLocal 0, C_acceptLoop]\<rparr>"
  let ?c2 = "?b\<lparr>c_conns := [sample_conn], c_nextStreamID := 1, c_chans := [None], c_pending := [(1, 0)],
    c_tasks := [C_handleMessages, C_acceptLoop, C_track 1 0 0]\<rparr>"
  let ?c3 = "?c2\<lparr>c_session := Some s1, c_tasks := [C_acceptLoop, C_track 1 0 0, C_dispatch (env ?e)]\<rparr>"
  let ?c4 = "?c3\<lparr>c_pending := [], c_tasks := [C_acceptLoop, C_track 1 0 0, C_push 0 True]\<rparr>"
  note ds = c0(2) c_go_def NewConnector_def Connector_accept_def local_register_def Let_def Connector_receive_def
    Connector_dispatch_def getter_defs OpenStreamAck_GetStreamId_def OpenStreamAck_GetSuccess_def
  have "connector_run sample_tenv c0 c0" by (rule c_none)
  then have "connector_run sample_tenv c0 ?c1"
    by (rule c_step_at [where before = "[C_handleMessages]" and t = C_acceptLoop and behind = "[]" and acc = "Inr sample_conn"])
      (simp_all add: ds)
  then have "connector_run sample_tenv c0 ?c2"
    by (rule c_step_at [where before = "[C_handleMessages]" and t = "C_handleLocal 0" and behind = "[C_acceptLoop]"])
      (simp_all add: ds)
  then have "connector_run sample_tenv c0 ?c3"
    by (rule c_step_at [where before = "[]" and t = C_handleMessages and behind = "[C_acceptLoop, C_track 1 0 0]"])
      (simp_all add: ds s1)
  then have r: "connector_run sample_tenv c0 ?c4"
    by (rule c_step_at [where before = "[C_acceptLoop, C_track 1 0 0]" and t = "C_dispatch (env ?e)" and behind = "[]"])
      (simp_all add: ds)
  have p: "C_push 0 True \<in> set (c_tasks ?c4)" by simp
  from ack_send_never_blocks [OF c0(1) r p] p r show ?thesis by blast
qed

theorem connector_loop_ends_closed_witness:
  "\<exists>c0 c'. c_started sample_tenv c0 \<and> Connector_handleMessages sample_tenv c0 = Some c' \<and> Connector_Done c' \<and> c_streams c' = []"
proof -
  obtain c0 s where c0: "c_started sample_tenv c0" "c0 = c_go C_acceptLoop (c_go C_handleMessages
     ((NewConnector ''broker:1781'' ''web'' ''8080'' ''pw'')\<lparr>c_session := Some s, c_socket := Some False\<rparr>))"
    using sample_Connector_started [of "[]"] by blast
  have "\<not> Connector_Done c0" by (simp add: c0(2) c_go_def NewConnector_def Connector_Done_def)
  from connector_loop_ends_closed [OF c0(1) c_none this] c0(1) show ?thesis by blast
qed

end
