(* ===== verification/Tunnel_EndToEnd.thy ===== *)
theory Tunnel_EndToEnd
  imports Server Listener_Concurrent Connector_Concurrent
begin

text \<open>
  A connector, the broker and a listener together: what a local program writes into a connection of the connector
  reaches the local service of the listener. TCP between the programs is \<open>arrive\<close>: everything one end has
  written is behind what the other end has not read.
\<close>

definition arrive :: "session \<Rightarrow> session \<Rightarrow> session" where
  "arrive a b = b\<lparr>conn := (conn b)\<lparr>rx := rx (conn b) @ tx (conn a)\<rparr>\<rparr>"

lemma outgoing_arrive: "outgoing cd a b = (cd, a\<lparr>conn := (conn a)\<lparr>tx := []\<rparr>\<rparr>, arrive a b)"
  by (simp add: outgoing_def arrive_def)

text \<open>What the broker receives from a client.\<close>

definition broker_arrive :: "session \<Rightarrow> cid \<Rightarrow> server \<Rightarrow> server" where
  "broker_arrive a x s = set_hub s (cc_upd x (\<lambda>z. z\<lparr>cc_session := arrive a (cc_session z)\<rparr>) (hub s))"

definition fits :: "codec \<Rightarrow> Envelope \<Rightarrow> bool" where
  "fits cd e \<longleftrightarrow> (\<exists>d. Marshal cd e = Inr d \<and> length d \<le> max_plaintext)"

lemma Send_all_outgoing:
  assumes "in_sync (outgoing cd s b)" "healthy (conn s)" "\<forall>e\<in>set es. fits cd e"
  shows "\<exists>s'. Send_all cd s es = (None, s') \<and> healthy (conn s') \<and> in_sync (outgoing cd s' b) \<and>
    in_flight (outgoing cd s' b) = in_flight (outgoing cd s b) @ es"
  using assms
proof (induction es arbitrary: s)
  case (Cons e es)
  then obtain d where "Marshal cd e = Inr d" "length d \<le> max_plaintext" by (auto simp: fits_def)
  from Send_outgoing [OF Cons.prems(1,2) this] obtain s1 where s1: "Send cd s e = (None, s1)" "healthy (conn s1)"
    "in_sync (outgoing cd s1 b)" "in_flight (outgoing cd s1 b) = in_flight (outgoing cd s b) @ [e]" by blast
  from Cons.IH [OF s1(3,2)] Cons.prems(3) s1(1,4) show ?case by auto
qed simp

text \<open>A pump on a working session: everything the local program has written, in chunks, then the end.\<close>

lemma pump_delivers:
  assumes "in_sync (outgoing cd s b)" "healthy (conn s)" "\<not> conn_closed lc"
    and "\<And>d. length d \<le> chunkSize \<Longrightarrow> fits cd (data_env i d)" "fits cd (close_env i)"
  shows "\<exists>s'. pump cd False ks i s lc = (PumpEnd, s', lc\<lparr>rx := []\<rparr>) \<and> healthy (conn s') \<and>
    in_sync (outgoing cd s' b) \<and> in_flight (outgoing cd s' b) = in_flight (outgoing cd s b) @ pump_envs ks i (rx lc)"
proof -
  let ?es = "map (data_env i) (cut ks (rx lc))"
  have "\<forall>e\<in>set ?es. fits cd e" using assms(4) cut_bounds by auto
  from Send_all_outgoing [OF assms(1,2) this] obtain s1 where
    s1: "Send_all cd s ?es = (None, s1)" "healthy (conn s1)" "in_sync (outgoing cd s1 b)"
      "in_flight (outgoing cd s1 b) = in_flight (outgoing cd s b) @ ?es" by blast
  from assms(5) obtain d where "Marshal cd (close_env i) = Inr d" "length d \<le> max_plaintext" by (auto simp: fits_def)
  from Send_outgoing [OF s1(3,2) this] obtain s2 where s2: "Send cd s1 (close_env i) = (None, s2)" "healthy (conn s2)"
    "in_sync (outgoing cd s2 b)" "in_flight (outgoing cd s2 b) = in_flight (outgoing cd s1 b) @ [close_env i]" by blast
  have "pump cd False ks i s lc = (PumpEnd, s2, lc\<lparr>rx := []\<rparr>)"
    using pump_spec [OF assms(3), of cd ks i s] s1(1) s2(1) by simp
  then show ?thesis using s1(4) s2 by (simp add: pump_envs_def)
qed

lemma pump_envs_events:
  "pump_envs ks i bs = map event_env (map (Ev_Data i) (cut ks bs) @ [Ev_Close i])"
  by (simp add: pump_envs_def)

lemma stream_bytes_chunks: "stream_bytes i (map (Ev_Data i) ds) = concat ds"
  by (induction ds) simp_all

lemma relayed_events: "filter (\<lambda>e. GetHeartbeat e = None) (map event_env evs) = map event_env evs"
proof -
  have "GetHeartbeat (event_env ev) = None" for ev by (cases ev) (simp_all add: GetHeartbeat_def)
  then show ?thesis by (simp add: filter_id_conv)
qed


subsection \<open>The receiving side\<close>

lemma Listener_handleMessages_bye:
  assumes "l_session l = Some s" "\<not> l_closed l" "pending (te_codec E) a s [bye_env m]"
  shows "\<exists>s'. Listener_handleMessages E l = Listener_Close E (l\<lparr>l_session := Some s'\<rparr>)"
proof -
  obtain s' where "Receive (te_codec E) s = (Inr (bye_env m), s')" using pending_Receive [OF assms(3)] .
  then have "Listener_round E l = (False, l\<lparr>l_session := Some s'\<rparr>)"
    using assms(1,2) by (simp add: Listener_round_def Listener_receive_def Listener_dispatch_def getter_defs)
  then show ?thesis by (subst Listener_handleMessages.simps) auto
qed

lemma close_chunks:
  assumes "listener_inv l" "map_of (l_streams l) i = Some (ready_state k)" "healthy (l_conns l ! k)"
    and "l1 = fold Listener_event (map (Ev_Data i) ds @ [Ev_Close i]) l"
  shows "tx (l_conns l1 ! k) = tx (l_conns l ! k) @ concat ds" "conn_closed (l_conns l1 ! k)" "listener_inv l1"
    "k < length (l_conns l1)" "\<not> (\<exists>j st. map_of (l_streams l1) j = Some st \<and> st_conn st = Some k)"
proof -
  define l0 where "l0 = fold Listener_event (map (Ev_Data i) ds) l"
  have acc: "listener_accepts l i" "listener_got l i = tx (l_conns l ! k)"
    using assms(2,3) by (simp_all add: listener_accepts_def listener_got_def)
  have nc: "Ev_Close i \<notin> set (map (Ev_Data i) ds)" by auto
  have f: "listener_got l0 i = tx (l_conns l ! k) @ concat ds" and inv0: "listener_inv l0"
    using ld.fold_got [OF assms(1) acc(1) nc] acc(2) by (simp_all add: l0_def stream_bytes_chunks)
  obtain st where st: "map_of (l_streams l0) i = Some st" "st_conn st = Some k"
    using feed_conn [OF assms(1) acc(1) nc assms(2)] by (auto simp: l0_def)
  have so: "streams_ok (map_of (l_streams l0)) (length (l_conns l0))" using inv0 by (simp add: listener_inv_def)
  have b: "st_buf st = []" "k < length (l_conns l0)"
    using streams_okD(2,3) [OF so st(1), of k] st(2) by simp_all
  have l1: "l1 = Listener_closeStream i l0" by (simp add: assms(4) l0_def)
  have c: "l_conns l1 = local_Close k (l_conns l0)" by (simp add: l1 closeStream_conns st)
  show "tx (l_conns l1 ! k) = tx (l_conns l ! k) @ concat ds" "conn_closed (l_conns l1 ! k)" "k < length (l_conns l1)"
    using f st b by (simp_all add: c nth_local_Close conn_Close_def listener_got_def)
  show "listener_inv l1" using inv_closeStream [OF inv0] by (simp add: l1)
  show "\<not> (\<exists>j st. map_of (l_streams l1) j = Some st \<and> st_conn st = Some k)"
    using streams_ok_inj [OF so st(1) _ st(2)] by (auto simp: l1 closeStream_stream split: if_splits)
qed

lemma listener_receives:
  assumes "listener_inv l" "l_session l = Some s" "\<not> l_closed l"
    and "map_of (l_streams l) i = Some (ready_state k)" "healthy (l_conns l ! k)"
    and "pending (te_codec E) a s (map event_env (map (Ev_Data i) ds @ [Ev_Close i]) @ [bye_env m])"
  shows "tx (l_conns (Listener_handleMessages E l) ! k) = tx (l_conns l ! k) @ concat ds \<and>
    conn_closed (l_conns (Listener_handleMessages E l) ! k) \<and> l_closed (Listener_handleMessages E l)"
proof -
  define l1 where "l1 = fold Listener_event (map (Ev_Data i) ds @ [Ev_Close i]) l"
  obtain s1 where s1: "pending (te_codec E) a s1 [bye_env m]"
      "Listener_handleMessages E l = Listener_handleMessages E (l1\<lparr>l_session := Some s1\<rparr>)"
    using Listener_handleMessages_feed [OF assms(2,3,6)] by (auto simp: l1_def)
  have c1: "\<not> l_closed l1" using assms(3) by (simp add: l1_def del: fold_append)
  obtain s2 where "Listener_handleMessages E (l1\<lparr>l_session := Some s1\<rparr>) = Listener_Close E (l1\<lparr>l_session := Some s2\<rparr>)"
    using Listener_handleMessages_bye [OF _ _ s1(1), of "l1\<lparr>l_session := Some s1\<rparr>"] c1 by auto
  then have hm: "Listener_handleMessages E l = Listener_Close E (l1\<lparr>l_session := Some s2\<rparr>)" using s1(2) by simp
  note ch = close_chunks [OF assms(1,4,5) l1_def]
  have "listener_inv (l1\<lparr>l_session := Some s2\<rparr>)" using ch(3) by (rule inv_misc)
  from Listener_Close_conns [OF this, of k E] ch c1
  have "l_conns (Listener_handleMessages E l) ! k = l_conns l1 ! k" by (simp add: hm)
  then show ?thesis using ch(1,2) Listener_Close_done [of E "l1\<lparr>l_session := Some s2\<rparr>"] by (simp add: hm)
qed

subsection \<open>From end to end\<close>

text \<open>A connector, the broker with its two clients, and a listener, all connected and with nothing under way; the
  stream \<open>i\<close> is open on both sides.\<close>

definition tunnel ::
  "tunnel_env \<Rightarrow> broker_env \<Rightarrow> connector \<Rightarrow> server \<Rightarrow> cid \<Rightarrow> cid \<Rightarrow> listener \<Rightarrow> u32 \<Rightarrow> nat \<Rightarrow> nat \<Rightarrow> bool" where
  "tunnel E B c s x y l i k k' \<longleftrightarrow>
     te_codec E = env_codec B \<and> order_ok B \<and> router_inv (router (hub s)) \<and> x \<in> live (hub s) \<and> y \<in> live (hub s) \<and> y \<noteq> x \<and>
     GetPeer (router (hub s)) x = Some y \<and> healthy (conn (sess_of (hub s) y)) \<and>
     (\<exists>sc. c_session c = Some sc \<and> healthy (conn sc) \<and> in_sync (outgoing (te_codec E) sc (sess_of (hub s) x)) \<and>
        in_flight (outgoing (te_codec E) sc (sess_of (hub s) x)) = []) \<and>
     (\<exists>sl. l_session l = Some sl \<and> in_sync (outgoing (te_codec E) (sess_of (hub s) y) sl) \<and>
        in_flight (outgoing (te_codec E) (sess_of (hub s) y) sl) = []) \<and>
     \<not> c_closed c \<and> connector_inv c \<and> map_of (c_streams c) i = Some k \<and> \<not> conn_closed (c_conns c ! k) \<and>
     \<not> l_closed l \<and> listener_inv l \<and> map_of (l_streams l) i = Some (ready_state k') \<and> healthy (l_conns l ! k')"

lemma relaying_after_arrive:
  assumes "tunnel E B c s x y l i k k'" "in_sync (outgoing (te_codec E) sc (sess_of (hub s) x))"
    and "in_flight (outgoing (te_codec E) sc (sess_of (hub s) x)) = es" "l_session l = Some sl"
  shows "relaying B (broker_arrive sc x s) x y (sc\<lparr>conn := (conn sc)\<lparr>tx := []\<rparr>\<rparr>) sl es"
    "sess_of (hub (broker_arrive sc x s)) y = sess_of (hub s) y"
proof -
  have xy: "x < length (heap (hub s))" "y < length (heap (hub s))" "y \<noteq> x"
    using assms(1) by (auto simp: tunnel_def live_less)
  have sx: "sess_of (hub (broker_arrive sc x s)) x = arrive sc (sess_of (hub s) x)"
    and sy: "sess_of (hub (broker_arrive sc x s)) y = sess_of (hub s) y"
    using xy by (simp_all add: broker_arrive_def sess_of_def cc_upd_nth)
  show "sess_of (hub (broker_arrive sc x s)) y = sess_of (hub s) y" by (rule sy)
  have "live (hub (broker_arrive sc x s)) = live (hub s)" "router (hub (broker_arrive sc x s)) = router (hub s)"
    by (simp_all add: broker_arrive_def live_cc_upd)
  then show "relaying B (broker_arrive sc x s) x y (sc\<lparr>conn := (conn sc)\<lparr>tx := []\<rparr>\<rparr>) sl es"
    using assms unfolding relaying_def relay_link_def sx sy by (auto simp: tunnel_def outgoing_arrive)
qed

text \<open>C4: the tunnel is transparent. With a connector, the broker and a listener linked and a stream open on both
  sides, everything a local program has written into its connection to the connector (any bytes, any length,
  however the reads cut it up) reaches the listener's local service, complete and in order, and then the
  service sees the end of the connection.\<close>

theorem tunnel_end_to_end:
  assumes "tunnel E B c s x y l i k k'"
    and "\<forall>d. length d \<le> chunkSize \<longrightarrow> fits (te_codec E) (data_env i d)" "fits (te_codec E) (close_env i)"
      "fits (te_codec E) disconnect_env"
    and "c_session (Connector_pumpLocalToRemote E ks i k c) = Some sc"
    and "s' = relayMessages B (broker_arrive sc x s) x"
    and "l' = Listener_handleMessages E (l\<lparr>l_session := map_option (arrive (sess_of (hub s') y)) (l_session l)\<rparr>)"
  shows "tx (l_conns l' ! k') = tx (l_conns l ! k') @ rx (c_conns c ! k) \<and> conn_closed (l_conns l' ! k')"
proof -
  let ?cd = "te_codec E"
  from assms(1) obtain sc0 sl where sc0: "c_session c = Some sc0" "healthy (conn sc0)" "in_sync (outgoing ?cd sc0 (sess_of (hub s) x))"
      "in_flight (outgoing ?cd sc0 (sess_of (hub s) x)) = []"
    and sl: "l_session l = Some sl" "in_flight (outgoing ?cd (sess_of (hub s) y) sl) = []"
    by (auto simp: tunnel_def)
  have open': "\<not> conn_closed (c_conns c ! k)" "\<not> c_closed c" "?cd = env_codec B" using assms(1) by (auto simp: tunnel_def)
  let ?evs = "map (Ev_Data i) (cut ks (rx (c_conns c ! k))) @ [Ev_Close i]"
  from pump_delivers [OF sc0(3,2) open'(1), of i ks] assms(2,3) obtain s1 where
    s1: "pump ?cd False ks i sc0 (c_conns c ! k) = (PumpEnd, s1, (c_conns c ! k)\<lparr>rx := []\<rparr>)"
      "in_sync (outgoing ?cd s1 (sess_of (hub s) x))" "in_flight (outgoing ?cd s1 (sess_of (hub s) x)) = map event_env ?evs"
    by (auto simp: sc0(4) pump_envs_events)
  have "sc = s1" using assms(5) open'(2) s1(1) sc0(1)
    by (simp add: Connector_pumpLocalToRemote_def c_pump_end_def Connector_removeStream_def)
  note rel = relaying_after_arrive [OF assms(1) s1(2,3) sl(1), folded \<open>sc = s1\<close>]
  have "\<forall>e\<in>insert disconnect_env (set (map event_env ?evs)). \<exists>d. Marshal (env_codec B) e = Inr d \<and> length d \<le> max_plaintext"
    using assms(2-4) cut_bounds unfolding open'(3) fits_def [symmetric] by auto
  from relayMessages_delivers [OF rel(1) this]
  have "in_flight (outgoing ?cd (sess_of (hub s') y) sl) = map event_env ?evs @ [disconnect_env]"
    "in_sync (outgoing ?cd (sess_of (hub s') y) sl)"
    unfolding assms(6) [symmetric] open'(3) [symmetric] relayed_events rel(2) sl(2) by simp_all
  then have pend: "pending ?cd ((sess_of (hub s') y)\<lparr>conn := (conn (sess_of (hub s') y))\<lparr>tx := []\<rparr>\<rparr>)
      (arrive (sess_of (hub s') y) sl) (map event_env ?evs @ [bye_env ''peer disconnected''])"
    by (simp add: pending_def outgoing_arrive disconnect_env_def)
  define l1 where "l1 = l\<lparr>l_session := Some (arrive (sess_of (hub s') y) sl)\<rparr>"
  have "listener_inv l1" using assms(1) by (auto simp: tunnel_def l1_def intro: inv_misc)
  moreover have "l_session l1 = Some (arrive (sess_of (hub s') y) sl)" "\<not> l_closed l1"
      "map_of (l_streams l1) i = Some (ready_state k')" "healthy (l_conns l1 ! k')"
    using assms(1) by (simp_all add: tunnel_def l1_def)
  ultimately show ?thesis
    using listener_receives [OF _ _ _ _ _ pend] by (simp add: assms(7) sl(1) l1_def concat_cut)
qed

subsection \<open>A concrete tunnel\<close>

definition sample_connector :: connector where
  "sample_connector = (NewConnector ''broker:1781'' ''web'' ''8080'' ''pw'')
     \<lparr>c_session := Some sample_session, c_nextStreamID := 7, c_streams := [(7, 0)],
      c_conns := [sample_conn\<lparr>rx := [71, 69, 84]\<rparr>]\<rparr>"

definition sample_ready :: listener where
  "sample_ready = sample_listener\<lparr>l_streams := [(7, \<lparr>st_conn = Some 0, st_buf = [], st_ready = True\<rparr>)], l_conns := [sample_conn]\<rparr>"

lemma proto_fits: "sendable p \<Longrightarrow> fits proto_codec (env p)"
  by (simp add: fits_def)

lemma sample_fits:
  "length d \<le> chunkSize \<Longrightarrow> fits proto_codec (data_env i d)" "fits proto_codec (close_env i)" "fits proto_codec disconnect_env"
  unfolding disconnect_env_def by (rule proto_fits; simp add: sendable_simps chunkSize_def)+

lemma sample_idle: "in_sync (outgoing proto_codec sample_session sample_session)" "in_flight (outgoing proto_codec sample_session sample_session) = []"
  "healthy (conn sample_session)"
proof -
  have t: "tx (conn sample_session) = []" by (simp add: sample_session_def sample_conn_def)
  show "in_sync (outgoing proto_codec sample_session sample_session)" "in_flight (outgoing proto_codec sample_session sample_session) = []"
    unfolding outgoing_idle [OF t]
    by (rule in_sync_fresh [OF proto_codec_ok, where key = "replicate 32 0"]; simp add: sample_session_def sample_conn_def)+
  show "healthy (conn sample_session)" by (rule sample_healthy)
qed

lemma sample_incoming_none: "sample_incoming [] = sample_session"
  by (simp add: sample_incoming_def sample_session_def sample_conn_def)

lemma sample_tunnel: "tunnel sample_tenv sample_env sample_connector (sample_server []) 2 1 sample_ready 7 0 0"
  unfolding tunnel_def sess_sample_server sample_incoming_none sample_tenv_sel
proof (intro conjI)
  show "2 \<in> live (hub (sample_server []))" "1 \<in> live (hub (sample_server []))"
    by (simp_all add: live_def sample_client_def)
  show "order_ok sample_env" by (rule sample_env_ok)
  show "router_inv (router (hub (sample_server [])))" by (simp add: sample_router_inv)
  show "GetPeer (router (hub (sample_server []))) 2 = Some 1" by (simp add: GetPeer_def sample_router_def)
  show "connector_inv sample_connector" "listener_inv sample_ready"
    by (simp_all add: connector_inv_def sample_connector_def listener_inv_def streams_ok_def sample_ready_def)
qed (use sample_idle in \<open>simp_all add: sample_env_def sample_incoming_none sample_connector_def sample_ready_def sample_listener_def NewListener_def
      NewConnector_def sample_conn_def healthy_def\<close>)


lemma pump_keeps_session:
  assumes "c_session c = Some s"
  shows "\<exists>s'. c_session (Connector_pumpLocalToRemote E ks i k c) = Some s'"
proof -
  obtain r s1 lc where p: "pump (te_codec E) (c_closed c) ks i s (c_conns c ! k) = (r, s1, lc)"
    by (cases "pump (te_codec E) (c_closed c) ks i s (c_conns c ! k)")
  show ?thesis
    by (cases r) (simp_all add: Connector_pumpLocalToRemote_def assms p c_pump_end_def Connector_closeStream_def
        Connector_removeStream_def split: option.split)
qed

theorem tunnel_end_to_end_witness:
  "\<exists>sc s' l'. c_session (Connector_pumpLocalToRemote sample_tenv (\<lambda>_. 2) 7 0 sample_connector) = Some sc \<and>
     s' = relayMessages sample_env (broker_arrive sc 2 (sample_server [])) 2 \<and>
     l' = Listener_handleMessages sample_tenv (sample_ready\<lparr>l_session := map_option (arrive (sess_of (hub s') 1)) (l_session sample_ready)\<rparr>) \<and>
     tx (l_conns l' ! 0) = [71, 69, 84] \<and> conn_closed (l_conns l' ! 0)"
proof -
  have "c_session sample_connector = Some sample_session" by (simp add: sample_connector_def)
  then obtain sc where sc: "c_session (Connector_pumpLocalToRemote sample_tenv (\<lambda>_. 2) 7 0 sample_connector) = Some sc"
    using pump_keeps_session by blast
  have "\<forall>d. length d \<le> chunkSize \<longrightarrow> fits (te_codec sample_tenv) (data_env 7 d)" "fits (te_codec sample_tenv) (close_env 7)"
    "fits (te_codec sample_tenv) disconnect_env"
    using sample_fits by simp_all
  note t = tunnel_end_to_end [OF sample_tunnel this sc refl refl]
  have "tx (l_conns sample_ready ! 0) @ rx (c_conns sample_connector ! 0) = [71, 69, 84]"
    by (simp add: sample_ready_def sample_connector_def sample_conn_def)
  with t sc show ?thesis by metis
qed

end
