(* ===== verification/Broker_Concurrent.thy ===== *)
theory Broker_Concurrent
  imports Server
begin

text \<open>
  The broker as a concurrent system: handler goroutines (one per accepted connection), heartbeat
  goroutines (\<open>beats\<close>), goroutines that run \<^verbatim>\<open>Close\<close> on behalf of a heartbeat or of
  \<^verbatim>\<open>Stop\<close>, the accept loop, the network and the clock. A handler's place in
  \<^verbatim>\<open>handleClient\<close> is its \<open>phase\<close>; one step of a handler is one of the pieces of
  \<^verbatim>\<open>server.go\<close> that other goroutines cannot observe half-done (a lock region, or one read
  or write on a connection), and the pieces are those the whole functions of theory Server are
  composed of.

  \<^verbatim>\<open>Stop\<close> closes the tracked clients one after the other; here they are closed in any
  interleaving, which includes that one.
\<close>

subsection \<open>Close, piece by piece\<close>

datatype close_pc =
    CloseEnter cid
  | CloseRemove cid "cid option"
  | CloseNotify cid
  | CloseEnd

fun close_step :: "broker_env \<Rightarrow> close_pc \<Rightarrow> hub \<Rightarrow> close_pc \<times> hub" where
  "close_step E (CloseEnter c) h =
     (if Done h c then (CloseEnd, h)
      else case close_begin c h of (p, h1) \<Rightarrow> (CloseRemove c p, h1))"
| "close_step E (CloseRemove c p) h =
     (case p of None \<Rightarrow> CloseEnd | Some q \<Rightarrow> CloseNotify q, close_remove E c h)"
| "close_step E (CloseNotify q) h = (CloseEnter q, close_notify E q h)"
| "close_step E CloseEnd h = (CloseEnd, h)"

fun close_run :: "broker_env \<Rightarrow> nat \<Rightarrow> close_pc \<Rightarrow> hub \<Rightarrow> close_pc \<times> hub" where
  "close_run E 0 pc h = (pc, h)"
| "close_run E (Suc n) pc h = (case close_step E pc h of (pc', h') \<Rightarrow> close_run E n pc' h')"

lemma heap_SetConnectionID [simp]:
  "length (heap (SetConnectionID c i h)) = length (heap h)" "live (SetConnectionID c i h) = live h"
  "router (SetConnectionID c i h) = router h"
  by (simp_all add: SetConnectionID_def live_cc_upd)

lemma live_router_upd [simp]: "live (h\<lparr>router := r\<rparr>) = live h"
  by (simp add: live_def)


text \<open>Without interruption the pieces make up the whole call, and their number is bounded.\<close>

lemma close_run_cc_Close:
  "\<exists>n \<le> 3 * card (live h) + 1. close_run E n (CloseEnter c) h = (CloseEnd, cc_Close E c h)"
proof (induction E c h rule: cc_Close.induct)
  case (1 E c h)
  show ?case
  proof (cases "Done h c")
    case True
    then have "close_run E 1 (CloseEnter c) h = (CloseEnd, cc_Close E c h)" by simp
    then show ?thesis by (intro exI [of _ 1]) simp
  next
    case False
    obtain p h1 where b: "close_begin c h = (p, h1)" by (cases "close_begin c h")
    have pos: "card (live h) = Suc (card (live h1))"
      using close_begin_facts(1) [OF b] False card_Suc_Diff1 [of "live h" c] by (simp add: Done_live)
    show ?thesis
    proof (cases p)
      case None
      with False b have "close_run E 2 (CloseEnter c) h = (CloseEnd, cc_Close E c h)"
        by (simp add: numeral_2_eq_2 cc_Close.simps)
      with pos show ?thesis by (intro exI [of _ 2]) simp
    next
      case (Some q)
      let ?h2 = "close_notify E q (close_remove E c h1)"
      from 1 [OF False b [symmetric] refl Some] obtain n where
        n: "n \<le> 3 * card (live h1) + 1" "close_run E n (CloseEnter q) ?h2 = (CloseEnd, cc_Close E q ?h2)" by auto
      have "close_run E (Suc (Suc (Suc n))) (CloseEnter c) h = (CloseEnd, cc_Close E c h)"
        using False b Some n(2) by (simp add: cc_Close.simps [of E c h] Let_def)
      with n(1) pos show ?thesis by (intro exI [of _ "Suc (Suc (Suc n))"]) simp
    qed
  qed
qed

text \<open>The pieces of \<^verbatim>\<open>Close\<close> that other goroutines may interleave with compose to the
  whole call: run without interruption they end, after at most three per open client and one
  more, in exactly the state \<^verbatim>\<open>Close\<close> gives; the chain of closes cannot go on for ever.\<close>

theorem Close_pieces_terminate:
  "\<exists>n \<le> 3 * card (live h) + 1. close_run E n (CloseEnter c) h = (CloseEnd, cc_Close E c h)"
  by (rule close_run_cc_Close)

subsection \<open>Handlers\<close>

datatype phase =
    Handshaking net_conn string
  | Authenticating cid
  | AwaitingRole cid
  | Refusing cid
  | Registering cid string
  | RejectingL cid string
  | AckingL cid
  | Linking cid string
  | RejectingC cid string
  | AckingC cid
  | Relaying cid
  | Forwarding cid Envelope
  | Sending cid cid Envelope
  | Closing cid close_pc
  | Untracking cid
  | Releasing
  | Finished

text \<open>\<open>rnd\<close> and \<open>sent\<close> are the random bytes and the timing of the handshake.\<close>

fun handler_step :: "broker_env \<Rightarrow> bytes result \<Rightarrow> bool \<Rightarrow> phase \<Rightarrow> server \<Rightarrow> phase \<times> server" where
  "handler_step E rnd sent (Handshaking cn addr) s =
     (case new_client E rnd sent s cn addr of
        (Inl _, _, s1) \<Rightarrow> (Releasing, s1)
      | (Inr c, _, s1) \<Rightarrow> (Authenticating c, s1))"
| "handler_step E rnd sent (Authenticating c) s =
     (case authenticateClient E s c of
        (Some _, s1) \<Rightarrow> (Untracking c, s1)
      | (None, s1) \<Rightarrow> (AwaitingRole c, s1))"
| "handler_step E rnd sent (AwaitingRole c) s =
     (case first_message E s c of
        (NoMessage, s1) \<Rightarrow> (Closing c (CloseEnter c), s1)
      | (Listener i, s1) \<Rightarrow> (Registering c i, s1)
      | (Connector i, s1) \<Rightarrow> (Linking c i, s1)
      | (Unexpected, s1) \<Rightarrow> (Refusing c, s1))"
| "handler_step E rnd sent (Refusing c) s = (Closing c (CloseEnter c), unexpected_reject E s c)"
| "handler_step E rnd sent (Registering c i) s =
     (case listener_register s c i of
        (Some _, s1) \<Rightarrow> (RejectingL c i, s1)
      | (None, s1) \<Rightarrow> (AckingL c, s1))"
| "handler_step E rnd sent (RejectingL c i) s = (Closing c (CloseEnter c), listener_reject E s c i)"
| "handler_step E rnd sent (AckingL c) s = (Relaying c, listener_ack E s c)"
| "handler_step E rnd sent (Linking c i) s =
     (case connector_link s c i of
        (Some _, s1) \<Rightarrow> (RejectingC c i, s1)
      | (None, s1) \<Rightarrow> (AckingC c, s1))"
| "handler_step E rnd sent (RejectingC c i) s = (Closing c (CloseEnter c), connector_reject E s c i)"
| "handler_step E rnd sent (AckingC c) s = (Relaying c, connector_ack E s c)"
| "handler_step E rnd sent (Relaying c) s =
     (case relay_receive E s c of
        (RelayFail, s1) \<Rightarrow> (Closing c (CloseEnter c), s1)
      | (RelaySkip, s1) \<Rightarrow> (Relaying c, s1)
      | (RelayForward e, s1) \<Rightarrow> (Forwarding c e, s1))"
| "handler_step E rnd sent (Forwarding c e) s =
     (case GetPeer (router (hub s)) c of
        None \<Rightarrow> (Closing c (CloseEnter c), s)
      | Some p \<Rightarrow> (Sending c p e, s))"
| "handler_step E rnd sent (Sending c p e) s =
     (case relay_send E s p e of
        (Some _, s1) \<Rightarrow> (Closing c (CloseEnter c), s1)
      | (None, s1) \<Rightarrow> (Relaying c, s1))"
| "handler_step E rnd sent (Closing c pc) s =
     (if pc = CloseEnd then (Untracking c, s)
      else case close_step E pc (hub s) of (pc', h) \<Rightarrow> (Closing c pc', set_hub s h))"
| "handler_step E rnd sent (Untracking c) s = (Releasing, untrackClient s c)"
| "handler_step E rnd sent Releasing s = (Finished, release_slot s)"
| "handler_step E rnd sent Finished s = (Finished, s)"

subsection \<open>The system\<close>

record broker =
  srv :: server
  handlers :: "phase list"
  closers :: "close_pc list"

definition set_conn :: "cid \<Rightarrow> net_conn \<Rightarrow> hub \<Rightarrow> hub" where
  "set_conn c cn h = cc_upd c (\<lambda>x. x\<lparr>cc_session := (cc_session x)\<lparr>conn := cn\<rparr>\<rparr>) h"

text \<open>The network is an adversary: a step of it may replace what waits on the connection of a client by anything, and
  break the connection. So invariants hold for every network; that something happens in a run is stated of the
  states of this run, or of the steps of one goroutine, never as the existence of some run.\<close>

inductive broker_step :: "broker_env \<Rightarrow> broker \<Rightarrow> broker \<Rightarrow> bool" for E where
  accept_spawn:
    "accepting (srv b) \<Longrightarrow> acceptLoop_round (srv b) (Inr (cn, addr)) = (Spawn cn', s') \<Longrightarrow>
     broker_step E b (b\<lparr>srv := s', handlers := handlers b @ [Handshaking cn' addr]\<rparr>)"
| accept_other:
    "acceptLoop_round (srv b) acc = (r, s') \<Longrightarrow> (\<forall>cn'. r \<noteq> Spawn cn') \<Longrightarrow>
     broker_step E b (b\<lparr>srv := s'\<rparr>)"
| handler:
    "i < length (handlers b) \<Longrightarrow> handler_step E rnd sent (handlers b ! i) (srv b) = (ph', s') \<Longrightarrow>
     broker_step E b (b\<lparr>srv := s', handlers := (handlers b)[i := ph']\<rparr>)"
| closer:
    "i < length (closers b) \<Longrightarrow> close_step E (closers b ! i) (hub (srv b)) = (pc', h') \<Longrightarrow>
     broker_step E b (b\<lparr>srv := set_hub (srv b) h', closers := (closers b)[i := pc']\<rparr>)"
| beat:
    "c \<in> beats (srv b) \<Longrightarrow> heartbeat_round E pick c (hub (srv b)) = (t, h') \<Longrightarrow>
     broker_step E b (b\<lparr>srv := (set_hub (srv b) h')\<lparr>beats := (if t = Beat then beats (srv b) else beats (srv b) - {c})\<rparr>,
       closers := closers b @ (if t = Stale then [CloseEnter c] else [])\<rparr>)"
| network:
    "c < length (heap (hub (srv b))) \<Longrightarrow> conn_closed cn = conn_closed (conn (sess_of (hub (srv b)) c)) \<Longrightarrow>
     broker_step E b (b\<lparr>srv := set_hub (srv b) (set_conn c cn (hub (srv b)))\<rparr>)"
| clock:
    "now (hub (srv b)) \<le> t \<Longrightarrow>
     broker_step E b (b\<lparr>srv := (set_hub (srv b) ((hub (srv b))\<lparr>now := t\<rparr>))\<lparr>wall := w\<rparr>\<rparr>)"
| stop:
    "\<not> closeCh (srv b) \<Longrightarrow> distinct cs \<Longrightarrow> set cs = clients (srv b) \<Longrightarrow>
     broker_step E b (b\<lparr>srv := (srv b)\<lparr>closeCh := True, accepting := False\<rparr>,
       closers := closers b @ map CloseEnter cs\<rparr>)"

definition broker_init :: "broker \<Rightarrow> bool" where
  "broker_init b \<longleftrightarrow>
     (\<exists>fs w t addr opts listen e.
        (\<forall>f\<in>set opts. \<exists>pw l ip geo. f \<in> {WithPassphrase pw, WithLogger l, WithIPFilter ip, WithGeoFilter geo}) \<and>
        Start listen (NewServer fs w t addr opts) = (e, srv b) \<and> handlers b = [] \<and> closers b = [])"

definition reachable :: "broker_env \<Rightarrow> broker \<Rightarrow> bool" where
  "reachable E b \<longleftrightarrow> (\<exists>b0. broker_init b0 \<and> (broker_step E)\<^sup>*\<^sup>* b0 b)"

subsection \<open>A race in Close\<close>

text \<open>C21: \<^verbatim>\<open>GetPeer\<close> and \<^verbatim>\<open>Remove\<close> are two lock regions, and a connector can link in
  between: the listener's close has read that there is no peer, the handler of the connector links it, the close removes the
  listener together with the new link, and ends without telling or closing the connector; the handler then sends the connector
  a ConnectAck that says it is connected, nothing else, and goes on to relay for it. The connector stays open without a peer,
  and its ID is not registered any more.\<close>

theorem connect_during_close_orphans:
  assumes "order_ok E" "router_inv (router (hub s))" "l \<in> live (hub s)" "c \<in> live (hub s)" "c \<noteq> l"
    and "listeners (router (hub s)) k = Some l" "peers (router (hub s)) l = None" "peers (router (hub s)) c = None"
  shows "\<exists>h1 s2 h3 s4. close_step E (CloseEnter l) (hub s) = (CloseRemove l None, h1) \<and>
    handler_step E rnd sent (Linking c k) (set_hub s h1) = (AckingC c, s2) \<and>
    close_step E (CloseRemove l None) (hub s2) = (CloseEnd, h3) \<and>
    handler_step E rnd sent (AckingC c) (set_hub s2 h3) = (Relaying c, s4) \<and>
    sess_of (hub s4) c = snd (Send (env_codec E) (sess_of (hub s) c)
      (env (Envelope_ConnectAck \<lparr>ConnectAck_Success = True, ConnectAck_Message = ''connected''\<rparr>))) \<and>
    c \<in> live (hub s4) \<and> GetPeer (router (hub s4)) c = None \<and> l \<notin> live (hub s4) \<and> listeners (router (hub s4)) k = None"
proof -
  obtain p h1 where b: "close_begin l (hub s) = (p, h1)" by (cases "close_begin l (hub s)")
  note f = close_begin_facts [OF b]
  have p: "p = None" using f(3) assms(7) by simp
  define r where "r = (router (hub s))\<lparr>peers := (peers (router (hub s)))(l \<mapsto> c, c \<mapsto> l)\<rparr>"
  define h2 where "h2 = (SetConnectionID c k h1)\<lparr>router := r\<rparr>"
  define h3 where "h3 = close_remove E l h2"
  have lt: "c < length (heap (hub s))" using assms(4) by (simp add: live_less)
  have 1: "close_step E (CloseEnter l) (hub s) = (CloseRemove l None, h1)"
    using assms(3) by (simp add: Done_live b p)
  have lnk: "LinkConnector (router (hub s)) k c = (None, r)"
    using assms(6,7) by (simp add: LinkConnector_def r_def)
  then have 2: "handler_step E rnd sent (Linking c k) (set_hub s h1) = (AckingC c, set_hub s h2)"
    using f(2) by (simp add: connector_link_def SetConnectionID_def h2_def)
  have inv: "router_inv (router h2)" using router_inv_Link [OF assms(2) lnk assms(8)] by (simp add: h2_def)
  have "peers (router h2) l = Some c" "listeners (router h2) k = Some l" using assms(6) by (simp_all add: h2_def r_def)
  then have gone: "GetPeer (router h3) c = None" "listeners (router h3) k = None"
    using close_remove_router(2,3) [OF assms(1) inv] by (simp_all add: GetPeer_def h3_def)
  have lv: "live h3 = live (hub s) - {l}" using f(1) by (simp add: h2_def h3_def)
  have "sess_of h3 c = sess_of (SetConnectionID c k h1) c" by (simp add: sess_of_def h2_def h3_def)
  also have "\<dots> = sess_of h1 c" using lt f(4) by (simp add: SetConnectionID_def sess_of_def cc_upd_nth)
  also have "\<dots> = sess_of (hub s) c" using close_begin_heap [OF lt, of l] assms(5) b by (simp add: sess_of_def)
  finally have h3: "sess_of h3 c = sess_of (hub s) c" .
  have lt3: "c < length (heap h3)" using lv assms(4,5) live_less [of c h3] by simp
  obtain e h4 where h4: "cc_Send E h3 c (connect_ack True) = (e, h4)" by fastforce
  define s4 where "s4 = connector_ack E (set_hub s h3) c"
  have hub4: "hub s4 = h4" by (simp add: s4_def connector_ack_def send_to_def StartHeartbeat_def h4)
  have sess4: "sess_of h4 c = snd (Send (env_codec E) (sess_of (hub s) c) (connect_ack True))"
    using h4 h3 lt3 by (auto simp: cc_Send_def sess_of_def cc_upd_nth split: prod.splits)
  show ?thesis
  proof (intro exI conjI)
    show "handler_step E rnd sent (AckingC c) (set_hub (set_hub s h2) h3) = (Relaying c, s4)" by (simp add: s4_def set_hub_def)
    show "close_step E (CloseRemove l None) (hub (set_hub s h2)) = (CloseEnd, h3)" by (simp add: h3_def)
  qed (use 1 2 hub4 sess4 [unfolded connect_ack_def] gone lv cc_Send_facts(1,2) [OF h4] assms(4,5) in simp_all)
qed

theorem connect_during_close_orphans_witness:
  "\<exists>h1 s2 h3 s4. close_step sample_env (CloseEnter 4) (hub ((sample_server [])\<lparr>hub := sample_hub\<rparr>)) = (CloseRemove 4 None, h1) \<and>
    handler_step sample_env (Inr []) True (Linking 3 ''ssh'') (set_hub ((sample_server [])\<lparr>hub := sample_hub\<rparr>) h1) = (AckingC 3, s2) \<and>
    close_step sample_env (CloseRemove 4 None) (hub s2) = (CloseEnd, h3) \<and>
    handler_step sample_env (Inr []) True (AckingC 3) (set_hub s2 h3) = (Relaying 3, s4) \<and>
    3 \<in> live (hub s4) \<and> GetPeer (router (hub s4)) 3 = None"
proof -
  let ?s = "(sample_server [])\<lparr>hub := sample_hub\<rparr>"
  have "live sample_hub = {c. c < 5}"
    unfolding live_def sample_hub_def by (rule Collect_cong) (auto simp: sample_client_def)
  then have l: "4 \<in> live (hub ?s)" "3 \<in> live (hub ?s)" by simp_all
  have r: "router_inv (router (hub ?s))" by (simp add: sample_hub_def sample_router_inv)
  have "listeners (router (hub ?s)) ''ssh'' = Some 4" "peers (router (hub ?s)) 4 = None" "peers (router (hub ?s)) 3 = None"
    by (simp_all add: sample_hub_def sample_router_def)
  from connect_during_close_orphans [OF sample_env_ok r l _ this, of "Inr []" True] show ?thesis by auto
qed

end
