(* ===== verification/Broker_Invariant.thy ===== *)
theory Broker_Invariant
  imports Broker_Concurrent Step_System
begin

text \<open>
  What holds in every reachable state of the concurrent broker: the router stays consistent, slots
  and client tracking match the running handlers, routes do not go stale, and nobody is
  routed without having authenticated.
\<close>


subsection \<open>The invariant\<close>

fun owner :: "phase \<Rightarrow> cid option" where
  "owner (Handshaking _ _) = None"
| "owner (Authenticating c) = Some c"
| "owner (AwaitingRole c) = Some c"
| "owner (Refusing c) = Some c"
| "owner (Registering c _) = Some c"
| "owner (RejectingL c _) = Some c"
| "owner (AckingL c) = Some c"
| "owner (Linking c _) = Some c"
| "owner (RejectingC c _) = Some c"
| "owner (AckingC c) = Some c"
| "owner (Relaying c) = Some c"
| "owner (Forwarding c _) = Some c"
| "owner (Sending c _ _) = Some c"
| "owner (Closing c _) = Some c"
| "owner (Untracking c) = Some c"
| "owner Releasing = None"
| "owner Finished = None"

text \<open>The phases before the client is put into the router, or after the router refused it.\<close>

fun early :: "phase \<Rightarrow> bool" where
  "early (Authenticating _) = True"
| "early (AwaitingRole _) = True"
| "early (Refusing _) = True"
| "early (Registering _ _) = True"
| "early (RejectingL _ _) = True"
| "early (Linking _ _) = True"
| "early (RejectingC _ _) = True"
| "early _ = False"

text \<open>The clients a running \<^verbatim>\<open>Close\<close> is about to touch.\<close>

fun targets :: "close_pc \<Rightarrow> cid set" where
  "targets (CloseEnter c) = {c}"
| "targets (CloseRemove c p) = insert c (set_option p)"
| "targets (CloseNotify q) = {q}"
| "targets CloseEnd = {}"

fun closing_pc :: "phase \<Rightarrow> close_pc" where
  "closing_pc (Closing _ pc) = pc"
| "closing_pc _ = CloseEnd"

definition referenced :: "router \<Rightarrow> cid \<Rightarrow> bool" where
  "referenced r c \<longleftrightarrow> c \<in> ran (listeners r) \<or> c \<in> dom (peers r)"

text \<open>All programs of \<^verbatim>\<open>Close\<close> that are running, and the clients that are not in the router yet.\<close>

definition running :: "broker \<Rightarrow> close_pc set" where
  "running b = closing_pc ` set (handlers b) \<union> set (closers b)"

definition early_clients :: "broker \<Rightarrow> cid set" where
  "early_clients b = {c. \<exists>ph\<in>set (handlers b). early ph \<and> owner ph = Some c}"

definition exposed :: "router \<Rightarrow> cid set \<Rightarrow> close_pc set \<Rightarrow> cid set" where
  "exposed r B R = {c. referenced r c} \<union> B \<union> (\<Union>pc\<in>R. targets pc)"

definition active :: "phase list \<Rightarrow> nat" where
  "active hs = length (filter (\<lambda>ph. ph \<noteq> Finished) hs)"

text \<open>
  Three groups: who handles which client and how many slots are used; the router refers to known
  clients only, and never to one whose handler has not got that far; and, until
  \<^verbatim>\<open>Stop\<close>, nobody closes a client that is not in the router yet, and a closed client
  that the router still refers to is about to be removed.
\<close>

definition own_inv :: "broker \<Rightarrow> bool" where
  "own_inv b \<longleftrightarrow>
     (\<forall>i j c. i < length (handlers b) \<longrightarrow> j < length (handlers b) \<longrightarrow>
        owner (handlers b ! i) = Some c \<longrightarrow> owner (handlers b ! j) = Some c \<longrightarrow> i = j) \<and>
     clients (srv b) = {c. \<exists>ph\<in>set (handlers b). owner ph = Some c} \<and>
     (\<forall>c\<in>clients (srv b). c < length (heap (hub (srv b)))) \<and>
     connSem (srv b) = active (handlers b) \<and> connSem (srv b) \<le> DefaultMaxConnections"

definition route_ok :: "router \<Rightarrow> nat \<Rightarrow> cid set \<Rightarrow> close_pc set \<Rightarrow> cid set \<Rightarrow> bool" where
  "route_ok r n B R Ea \<longleftrightarrow>
     router_inv r \<and> (\<forall>c\<in>exposed r B R. c < n) \<and> (\<forall>c\<in>Ea. \<not> referenced r c)"

definition close_ok :: "router \<Rightarrow> cid set \<Rightarrow> cid set \<Rightarrow> close_pc set \<Rightarrow> cid set \<Rightarrow> bool" where
  "close_ok r L B R Ea \<longleftrightarrow>
     (\<forall>c\<in>Ea. c \<in> L \<and> c \<notin> exposed r B R) \<and>
     (\<forall>c. referenced r c \<longrightarrow> c \<in> L \<or> (\<exists>p. CloseRemove c p \<in> R))"

definition broker_inv :: "broker \<Rightarrow> bool" where
  "broker_inv b \<longleftrightarrow> own_inv b \<and>
     route_ok (router (hub (srv b))) (length (heap (hub (srv b)))) (beats (srv b)) (running b) (early_clients b) \<and>
     (closeCh (srv b) \<or>
      close_ok (router (hub (srv b))) (live (hub (srv b))) (beats (srv b)) (running b) (early_clients b))"

lemma route_ok_weaken:
  assumes "route_ok r n B R Ea" "n \<le> n'" "\<And>c. c \<in> Ea' \<Longrightarrow> c \<in> Ea \<or> \<not> referenced r c"
    and "\<And>c. c \<in> B' \<Longrightarrow> c \<in> B \<or> c < n'"
    and "\<And>c pc. pc \<in> R' \<Longrightarrow> c \<in> targets pc \<Longrightarrow> c \<in> exposed r B R \<or> c < n'"
  shows "route_ok r n' B' R' Ea'"
proof -
  have old: "c < n'" if "c \<in> exposed r B R" for c
    using that assms(1,2) unfolding route_ok_def by fastforce
  have "c < n'" if c: "c \<in> exposed r B' R'" for c
  proof -
    from c consider "referenced r c" | "c \<in> B'" | pc where "pc \<in> R'" "c \<in> targets pc"
      unfolding exposed_def by blast
    then show ?thesis
    proof cases
      case 1
      then have "c \<in> exposed r B R" unfolding exposed_def by blast
      then show ?thesis by (rule old)
    next
      case 2
      then have "c \<in> exposed r B R \<or> c < n'" using assms(4) unfolding exposed_def by blast
      then show ?thesis using old by blast
    next
      case 3
      then show ?thesis using assms(5) old by blast
    qed
  qed
  then show ?thesis using assms(1,3) unfolding route_ok_def by blast
qed

lemma close_ok_weaken:
  assumes "close_ok r L B R Ea" "L \<subseteq> L'"
    and "\<And>c. c \<in> Ea' \<Longrightarrow> c \<in> Ea \<or> c \<in> L' \<and> c \<notin> exposed r B R"
    and "\<And>c. c \<in> B' \<Longrightarrow> c \<in> B \<or> c \<notin> Ea'"
    and "\<And>c pc. pc \<in> R' \<Longrightarrow> c \<in> targets pc \<Longrightarrow> c \<in> exposed r B R \<or> c \<notin> Ea'"
    and "\<And>c p. CloseRemove c p \<in> R \<Longrightarrow> \<exists>p. CloseRemove c p \<in> R'"
  shows "close_ok r L' B' R' Ea'"
proof -
  have 1: "c \<in> L' \<and> c \<notin> exposed r B R" if "c \<in> Ea'" for c
    using assms(1,2) assms(3) [OF that] unfolding close_ok_def by blast
  have 2: "c \<notin> exposed r B' R'" if e: "c \<in> Ea'" for c
  proof
    assume "c \<in> exposed r B' R'"
    then consider "referenced r c" | "c \<in> B'" | pc where "pc \<in> R'" "c \<in> targets pc"
      unfolding exposed_def by blast
    then show False
    proof cases
      case 1
      then have "c \<in> exposed r B R" unfolding exposed_def by blast
      with \<open>c \<in> Ea'\<close> show False using that 1 assms(1,2) assms(3) [OF e] unfolding close_ok_def by blast
    next
      case 2
      then have "c \<in> exposed r B R" using assms(4) e unfolding exposed_def by blast
      then show False using assms(1,2) assms(3) [OF e] unfolding close_ok_def by blast
    next
      case 3
      then have "c \<in> exposed r B R" using assms(5) e by blast
      then show False using assms(1,2) assms(3) [OF e] unfolding close_ok_def by blast
    qed
  qed
  have "c \<in> L' \<or> (\<exists>p. CloseRemove c p \<in> R')" if "referenced r c" for c
    using that assms(1,2,6) unfolding close_ok_def by blast
  with 1 2 show ?thesis unfolding close_ok_def by blast
qed

text \<open>Replacing one handler.\<close>

lemma set_update_split:
  assumes "i < length xs"
  obtains Rest where "set xs = insert (xs ! i) Rest" "\<And>y. set (xs[i := y]) = insert y Rest"
    "\<And>z. z \<in> Rest \<Longrightarrow> \<exists>j. j < length xs \<and> j \<noteq> i \<and> xs ! j = z"
proof
  let ?Rest = "set (take i xs) \<union> set (drop (Suc i) xs)"
  show "set xs = insert (xs ! i) ?Rest"
    by (subst id_take_nth_drop [OF assms]) simp
  show "set (xs[i := y]) = insert y ?Rest" for y
    using assms by (simp add: upd_conv_take_nth_drop)
  show "\<exists>j. j < length xs \<and> j \<noteq> i \<and> xs ! j = z" if z: "z \<in> ?Rest" for z
  proof -
    from z consider j where "j < i" "xs ! j = z" | j where "j < length xs - Suc i" "xs ! (Suc i + j) = z"
      using assms by (auto simp: in_set_conv_nth)
    then show ?thesis
    proof cases
      case 1
      with assms show ?thesis by (intro exI [of _ j]) simp
    next
      case 2
      then show ?thesis by (intro exI [of _ "Suc i + j"]) simp
    qed
  qed
qed

lemma active_update:
  assumes "i < length hs"
  shows "active (hs[i := ph]) + (if hs ! i = Finished then 0 else 1) = active hs + (if ph = Finished then 0 else 1)"
proof -
  have "active hs = active (take i hs) + (if hs ! i = Finished then 0 else 1) + active (drop (Suc i) hs)"
    by (subst id_take_nth_drop [OF assms]) (simp add: active_def)
  moreover have "active (hs[i := ph]) = active (take i hs) + (if ph = Finished then 0 else 1) + active (drop (Suc i) hs)"
    using assms by (simp add: upd_conv_take_nth_drop active_def)
  ultimately show ?thesis by simp
qed

text \<open>What most steps leave alone.\<close>

definition quiet :: "server \<Rightarrow> server \<Rightarrow> bool" where
  "quiet s s' \<longleftrightarrow> router (hub s') = router (hub s) \<and> live (hub s') = live (hub s) \<and>
     length (heap (hub s')) = length (heap (hub s)) \<and> clients s' = clients s \<and> connSem s' = connSem s \<and>
     closeCh s' = closeCh s \<and> beats s' = beats s"

lemma quiet_refl [simp]: "quiet s s"
  by (simp add: quiet_def)

lemma quiet_trans: "quiet s t \<Longrightarrow> quiet t u \<Longrightarrow> quiet s u"
  unfolding quiet_def by metis

lemma quiet_hub:
  "router h = router (hub s) \<Longrightarrow> live h = live (hub s) \<Longrightarrow> length (heap h) = length (heap (hub s)) \<Longrightarrow>
    quiet s (set_hub s h)"
  by (simp add: quiet_def)

lemma quiet_warn [simp]: "quiet s (security_warn s tag msg)"
  by (simp add: quiet_def)

lemma quiet_send_to [simp]: "quiet s (send_to E s c e)"
proof -
  obtain r h where h: "cc_Send E (hub s) c e = (r, h)" by (cases "cc_Send E (hub s) c e")
  from cc_Send_facts(1-3) [OF h] show ?thesis by (simp add: send_to_def h quiet_hub)
qed

lemma quiet_authenticate: "authenticateClient E s c = (r, s') \<Longrightarrow> quiet s s'"
proof -
  assume a: "authenticateClient E s c = (r, s')"
  obtain raw x h1 where rr: "cc_ReceiveRaw E (hub s) c = (raw, x, h1)" by (cases "cc_ReceiveRaw E (hub s) c")
  have q: "quiet s (set_hub s h1)" "quiet s (set_hub s (cc_conn_Close c h1))" "quiet s (set_hub s (cc_conn_Close c (hub s)))"
    "quiet s (set_hub (security_warn (set_hub s h1) t m) (cc_conn_Close c h1))" for t m
    using cc_ReceiveRaw_facts(1-3) [OF rr] by (simp_all add: quiet_def)
  have "quiet s (snd (authenticateClient E s c))"
    unfolding authenticateClient_def rr Let_def
    by (auto simp only: split_conv snd_conv set_hub_simps(1,2) security_warn_hub log_defs q split: option.split sum.split if_split)
  with a show ?thesis by simp
qed

lemma quiet_first_message: "first_message E s c = (r, s') \<Longrightarrow> quiet s s'"
  by (auto simp: first_message_def Let_def quiet_def dest: cc_Receive_facts
      split: prod.splits sum.splits if_splits)

lemma quiet_relay_receive: "relay_receive E s c = (r, s') \<Longrightarrow> quiet s s'"
  by (auto simp: relay_receive_def Let_def quiet_def dest: cc_Receive_facts
      split: prod.splits sum.splits if_splits)

lemma quiet_relay_send: "relay_send E s p e = (r, s') \<Longrightarrow> quiet s s'"
  by (auto simp: relay_send_def quiet_def dest: cc_Send_facts split: prod.splits)

lemma quiet_rejects [simp]:
  "quiet s (unexpected_reject E s c)" "quiet s (listener_reject E s c i)" "quiet s (connector_reject E s c i)"
  using quiet_trans [OF quiet_warn quiet_send_to]
  by (simp_all add: unexpected_reject_def listener_reject_def connector_reject_def logInvalidConnectionID_def)


text \<open>The phases in which a step changes neither the router nor the set of open clients; such a handler keeps its client, and at most
  starts to close it.\<close>

fun quiet_phase :: "phase \<Rightarrow> bool" where
  "quiet_phase (Authenticating _) = True"
| "quiet_phase (AwaitingRole _) = True"
| "quiet_phase (Refusing _) = True"
| "quiet_phase (RejectingL _ _) = True"
| "quiet_phase (RejectingC _ _) = True"
| "quiet_phase (Relaying _) = True"
| "quiet_phase (Forwarding _ _) = True"
| "quiet_phase (Sending _ _ _) = True"
| "quiet_phase _ = False"

lemma quiet_step:
  assumes "handler_step E rnd sent ph s = (ph', s')" "quiet_phase ph"
  shows "quiet s s'"
  using assms by (cases ph) (auto intro: quiet_authenticate quiet_first_message quiet_relay_receive quiet_relay_send
    split: prod.splits option.splits role.splits relay_in.splits)

lemma quiet_step_phase:
  assumes "handler_step E rnd sent ph s = (ph', s')" "quiet_phase ph"
  obtains c where "owner ph = Some c" "owner ph' = Some c" "early ph' \<Longrightarrow> early ph" "closing_pc ph = CloseEnd"
    "closing_pc ph' = CloseEnd \<or> closing_pc ph' = CloseEnter c \<and> \<not> early ph'"
  using assms by (cases ph) (auto split: prod.splits option.splits role.splits relay_in.splits)

subsection \<open>Preservation\<close>

text \<open>The parts of the invariant around the handler \<open>i\<close> that moves.\<close>

lemma handler_split:
  assumes "own_inv b" "i < length (handlers b)"
  obtains Rest where "set (handlers b) = insert (handlers b ! i) Rest"
    "\<And>y. set ((handlers b)[i := y]) = insert y Rest"
    "\<And>c z. owner (handlers b ! i) = Some c \<Longrightarrow> z \<in> Rest \<Longrightarrow> owner z \<noteq> Some c"
proof -
  obtain Rest where R: "set (handlers b) = insert (handlers b ! i) Rest"
      "\<And>y. set ((handlers b)[i := y]) = insert y Rest"
      "\<And>z. z \<in> Rest \<Longrightarrow> \<exists>j. j < length (handlers b) \<and> j \<noteq> i \<and> handlers b ! j = z"
    using set_update_split [OF assms(2)] by metis
  moreover have "owner z \<noteq> Some c" if "owner (handlers b ! i) = Some c" "z \<in> Rest" for c z
    using R(3) [OF that(2)] that(1) assms unfolding own_inv_def by blast
  ultimately show thesis using that by blast
qed

text \<open>A handler that keeps its client.\<close>

lemma own_inv_keep:
  assumes "own_inv b" "i < length (handlers b)" "owner ph' = owner (handlers b ! i)"
    and "clients s' = clients (srv b)" "length (heap (hub (srv b))) \<le> length (heap (hub s'))"
    and "connSem s' + (if handlers b ! i = Finished then 0 else 1) = connSem (srv b) + (if ph' = Finished then 0 else 1)"
    and "connSem s' \<le> connSem (srv b)"
  shows "own_inv (b\<lparr>srv := s', handlers := (handlers b)[i := ph']\<rparr>)"
proof -
  have "owner ((handlers b)[i := ph'] ! j) = owner (handlers b ! j)" if "j < length (handlers b)" for j
    using that assms(3) by (cases "j = i") simp_all
  moreover have "(\<exists>ph\<in>set ((handlers b)[i := ph']). owner ph = Some c) \<longleftrightarrow> (\<exists>ph\<in>set (handlers b). owner ph = Some c)" for c
    using handler_split [OF assms(1,2)] assms(3) by (metis insert_iff)
  moreover have "active ((handlers b)[i := ph']) = connSem s'"
    using active_update [OF assms(2), of ph'] assms(1,6) unfolding own_inv_def by simp
  ultimately show ?thesis
    using assms(1,4,5,7) unfolding own_inv_def by (auto intro: order_less_le_trans)
qed

lemma own_inv_quiet:
  assumes "own_inv b" "i < length (handlers b)" "owner ph' = owner (handlers b ! i)" "quiet (srv b) s'"
    and "handlers b ! i \<noteq> Finished" "ph' \<noteq> Finished"
  shows "own_inv (b\<lparr>srv := s', handlers := (handlers b)[i := ph']\<rparr>)"
  using assms by (intro own_inv_keep) (simp_all add: quiet_def)

lemma inv_quiet_handler:
  assumes "broker_inv b" "i < length (handlers b)" "quiet (srv b) s'"
    and "owner (handlers b ! i) = Some c" "owner ph' = Some c" "early ph' \<Longrightarrow> early (handlers b ! i)"
    and "closing_pc (handlers b ! i) = CloseEnd"
    and "closing_pc ph' = CloseEnd \<or> closing_pc ph' = CloseEnter c \<and> \<not> early ph'"
  shows "broker_inv (b\<lparr>srv := s', handlers := (handlers b)[i := ph']\<rparr>)"
proof -
  let ?b' = "b\<lparr>srv := s', handlers := (handlers b)[i := ph']\<rparr>"
  from assms(1) have own: "own_inv b" unfolding broker_inv_def by blast
  obtain Rest where R: "set (handlers b) = insert (handlers b ! i) Rest"
      "\<And>y. set ((handlers b)[i := y]) = insert y Rest" "\<And>z. z \<in> Rest \<Longrightarrow> owner z \<noteq> Some c"
    using handler_split [OF own assms(2)] assms(4) by metis
  have lt: "c < length (heap (hub (srv b)))"
    using own R(1) assms(4) unfolding own_inv_def by blast
  have early: "early_clients ?b' \<subseteq> early_clients b" "\<not> early ph' \<Longrightarrow> c \<notin> early_clients ?b'"
    using R assms(4-6) unfolding early_clients_def by auto
  have run: "running ?b' = insert (closing_pc ph') (closing_pc ` Rest \<union> set (closers b))"
      "running b = insert CloseEnd (closing_pc ` Rest \<union> set (closers b))"
    using R(1,2) assms(7) unfolding running_def by auto
  have tgt: "d \<in> exposed r (beats (srv b)) (running b) \<or> d = c \<and> \<not> early ph'"
    if "pc \<in> running ?b'" "d \<in> targets pc" for pc d r
    using that assms(8) unfolding run exposed_def by auto
  have rem: "CloseRemove d p \<in> running ?b'" if "CloseRemove d p \<in> running b" for d p
    using that unfolding run by auto
  have own': "own_inv ?b'"
    using assms(4,5) by (intro own_inv_quiet [OF own assms(2) _ assms(3)]) auto
  have q: "router (hub s') = router (hub (srv b))" "live (hub s') = live (hub (srv b))"
    "length (heap (hub s')) = length (heap (hub (srv b)))" "beats s' = beats (srv b)" "closeCh s' = closeCh (srv b)"
    using assms(3) unfolding quiet_def by auto
  have "route_ok (router (hub s')) (length (heap (hub s'))) (beats s') (running ?b') (early_clients ?b')"
    unfolding q
  proof (rule route_ok_weaken)
    show "route_ok (router (hub (srv b))) (length (heap (hub (srv b)))) (beats (srv b)) (running b) (early_clients b)"
      using assms(1) unfolding broker_inv_def by blast
  qed (use early tgt lt in auto)
  moreover have "closeCh s' \<or> close_ok (router (hub s')) (live (hub s')) (beats s') (running ?b') (early_clients ?b')"
  proof (cases "closeCh s'")
    case False
    then have "close_ok (router (hub (srv b))) (live (hub (srv b))) (beats (srv b)) (running b) (early_clients b)"
      using assms(1) q unfolding broker_inv_def by blast
    then have "close_ok (router (hub s')) (live (hub s')) (beats s') (running ?b') (early_clients ?b')"
      unfolding q by (rule close_ok_weaken) (use early tgt rem in blast)+
    then show ?thesis ..
  qed simp
  ultimately show ?thesis using own' unfolding broker_inv_def by simp
qed

lemma exposed_mono:
  assumes "\<And>x d. x \<in> R' \<Longrightarrow> d \<in> targets x \<Longrightarrow> d \<in> exposed r B R"
  shows "exposed r B R' \<subseteq> exposed r B R"
proof
  fix d assume "d \<in> exposed r B R'"
  then consider "referenced r d \<or> d \<in> B" | x where "x \<in> R'" "d \<in> targets x" unfolding exposed_def by blast
  then show "d \<in> exposed r B R" using assms by cases (auto simp: exposed_def)
qed

lemma referenced_remove:
  assumes "order_ok E" "router_inv (router h)" "referenced (router (close_remove E c h)) d"
  shows "referenced (router h) d \<and> d \<noteq> c"
proof -
  note r = close_remove_router(2,3) [OF assms(1,2)]
  from assms(3) consider i where "listeners (router (close_remove E c h)) i = Some d"
    | e where "peers (router (close_remove E c h)) d = Some e"
    unfolding referenced_def ran_def dom_def by blast
  then show ?thesis
  proof cases
    case 1
    then have "listeners (router h) i = Some d" "d \<noteq> c" unfolding r by (auto split: if_splits)
    then show ?thesis unfolding referenced_def ran_def by blast
  next
    case 2
    then have "peers (router h) d = Some e" "d \<noteq> c" unfolding r by (auto split: if_splits)
    then show ?thesis unfolding referenced_def dom_def by blast
  qed
qed

lemma referenced_peer:
  assumes "router_inv r" "peers r c = Some p"
  shows "referenced r p"
  using router_inv_sym [OF assms] unfolding referenced_def by blast

text \<open>One piece of a running \<^verbatim>\<open>Close\<close>, whoever runs it.\<close>

lemma close_enter_inv:
  assumes "close_begin c h = (p, h')" "route_ok (router h) n B (insert (CloseEnter c) Rest) Ea"
  shows "route_ok (router h') n B (insert (CloseRemove c p) Rest) Ea"
    and "close_ok (router h) (live h) B (insert (CloseEnter c) Rest) Ea \<Longrightarrow> close_ok (router h') (live h') B (insert (CloseRemove c p) Rest) Ea"
proof -
  note f = close_begin_facts [OF assms(1)]
  have inv: "router_inv (router h)" using assms(2) unfolding route_ok_def by blast
  have tgt: "d \<in> exposed (router h) B (insert (CloseEnter c) Rest)" if "x \<in> insert (CloseRemove c p) Rest" "d \<in> targets x" for x d
  proof -
    have "referenced (router h) d" if "p = Some d" using that referenced_peer [OF inv] f(3) by simp
    moreover from that consider "d = c" | "p = Some d" | "x \<in> Rest" by auto
    ultimately show ?thesis using that(2) unfolding exposed_def by cases auto
  qed
  show "route_ok (router h') n B (insert (CloseRemove c p) Rest) Ea"
    unfolding f(2) by (rule route_ok_weaken [OF assms(2)]) (use tgt in blast)+
  assume c: "close_ok (router h) (live h) B (insert (CloseEnter c) Rest) Ea"
  have "c \<notin> Ea" using c unfolding close_ok_def exposed_def by auto
  moreover have "exposed (router h) B (insert (CloseRemove c p) Rest) \<subseteq> exposed (router h) B (insert (CloseEnter c) Rest)"
    using tgt by (rule exposed_mono)
  then have "d \<notin> exposed (router h) B (insert (CloseRemove c p) Rest)" if "d \<in> Ea" for d
    using c that unfolding close_ok_def by blast
  moreover have "d \<in> live h - {c} \<or> (\<exists>q. CloseRemove d q \<in> insert (CloseRemove c p) Rest)" if "referenced (router h) d" for d
    using c that unfolding close_ok_def by blast
  ultimately show "close_ok (router h') (live h') B (insert (CloseRemove c p) Rest) Ea"
    using c unfolding close_ok_def f(1,2) by blast
qed

lemma close_remove_inv:
  assumes "order_ok E" "route_ok (router h) n B (insert (CloseRemove c p) Rest) Ea" "targets pc' \<subseteq> targets (CloseRemove c p)"
  shows "route_ok (router (close_remove E c h)) n B (insert pc' Rest) Ea"
    and "close_ok (router h) (live h) B (insert (CloseRemove c p) Rest) Ea \<Longrightarrow>
      close_ok (router (close_remove E c h)) (live (close_remove E c h)) B (insert pc' Rest) Ea"
proof -
  have inv: "router_inv (router h)" using assms(2) unfolding route_ok_def by blast
  note less = referenced_remove [OF assms(1) inv]
  have sub: "exposed (router (close_remove E c h)) B (insert pc' Rest) \<subseteq> exposed (router h) B (insert (CloseRemove c p) Rest)"
    using less assms(3) unfolding exposed_def by blast
  show "route_ok (router (close_remove E c h)) n B (insert pc' Rest) Ea"
    using assms(2) sub close_remove_router(1) [OF assms(1) inv] less unfolding route_ok_def by blast
  assume c: "close_ok (router h) (live h) B (insert (CloseRemove c p) Rest) Ea"
  have "d \<in> live h \<or> (\<exists>q. CloseRemove d q \<in> insert pc' Rest)" if "referenced (router (close_remove E c h)) d" for d
    using that c less [of c d] unfolding close_ok_def by blast
  then show "close_ok (router (close_remove E c h)) (live (close_remove E c h)) B (insert pc' Rest) Ea"
    using c sub unfolding close_ok_def close_remove_facts by blast
qed

lemma close_step_inv:
  assumes "order_ok E" "close_step E pc h = (pc', h')"
    and "route_ok (router h) (length (heap h)) B (insert pc Rest) Ea"
  shows "route_ok (router h') (length (heap h')) B (insert pc' Rest) Ea \<and>
    (close_ok (router h) (live h) B (insert pc Rest) Ea \<longrightarrow> close_ok (router h') (live h') B (insert pc' Rest) Ea)"
proof (cases pc)
  case (CloseEnter c)
  show ?thesis
  proof (cases "Done h c")
    case True
    then have eq: "h' = h" "pc' = CloseEnd" using assms(2) CloseEnter by auto
    have "route_ok (router h) (length (heap h)) B (insert CloseEnd Rest) Ea"
      by (rule route_ok_weaken [OF assms(3)]) (auto simp: exposed_def)
    moreover have "close_ok (router h) (live h) B (insert CloseEnd Rest) Ea" if "close_ok (router h) (live h) B (insert pc Rest) Ea"
      using that by (rule close_ok_weaken) (auto simp: exposed_def CloseEnter)
    ultimately show ?thesis unfolding eq by blast
  next
    case False
    then obtain p where b: "close_begin c h = (p, h')" "pc' = CloseRemove c p"
      using assms(2) CloseEnter by (auto split: prod.splits)
    show ?thesis using close_enter_inv [OF b(1)] assms(3) unfolding b(2) CloseEnter close_begin_facts(4) [OF b(1)] by blast
  qed
next
  case (CloseRemove c p)
  then have eq: "h' = close_remove E c h" "targets pc' \<subseteq> targets (CloseRemove c p)"
    using assms(2) by (auto split: option.splits)
  show ?thesis
    using close_remove_inv [OF assms(1) assms(3) [unfolded CloseRemove] eq(2)] unfolding eq(1) CloseRemove close_remove_facts by blast
next
  case (CloseNotify q)
  then have eq: "h' = close_notify E q h" "pc' = CloseEnter q" using assms(2) by auto
  have "route_ok (router h) (length (heap h)) B (insert (CloseEnter q) Rest) Ea"
    by (rule route_ok_weaken [OF assms(3)]) (auto simp: exposed_def CloseNotify)
  moreover have "close_ok (router h) (live h) B (insert (CloseEnter q) Rest) Ea" if "close_ok (router h) (live h) B (insert pc Rest) Ea"
    using that by (rule close_ok_weaken) (auto simp: exposed_def CloseNotify)
  ultimately show ?thesis unfolding eq close_notify_facts by blast
next
  case CloseEnd
  then show ?thesis using assms(2,3) by simp
qed

definition early_of :: "phase \<Rightarrow> cid set" where
  "early_of ph = (if early ph then set_option (owner ph) else {})"

text \<open>The invariant seen from handler \<open>i\<close>: \<open>R\<close> and \<open>Ea\<close> are what the other goroutines contribute.\<close>

lemma inv_focus:
  assumes inv: "broker_inv b" and i: "i < length (handlers b)"
    and own': "own_inv (b\<lparr>srv := s', handlers := (handlers b)[i := ph']\<rparr>)"
    and closeCh: "closeCh s' = closeCh (srv b)"
    and new: "\<And>R Ea. (\<And>c. owner (handlers b ! i) = Some c \<Longrightarrow> c \<notin> Ea) \<Longrightarrow> Ea \<subseteq> clients (srv b) \<Longrightarrow>
      route_ok (router (hub (srv b))) (length (heap (hub (srv b)))) (beats (srv b))
        (insert (closing_pc (handlers b ! i)) R) (early_of (handlers b ! i) \<union> Ea) \<Longrightarrow>
      route_ok (router (hub s')) (length (heap (hub s'))) (beats s') (insert (closing_pc ph') R) (early_of ph' \<union> Ea) \<and>
      (close_ok (router (hub (srv b))) (live (hub (srv b))) (beats (srv b))
        (insert (closing_pc (handlers b ! i)) R) (early_of (handlers b ! i) \<union> Ea) \<longrightarrow>
       close_ok (router (hub s')) (live (hub s')) (beats s') (insert (closing_pc ph') R) (early_of ph' \<union> Ea))"
  shows "broker_inv (b\<lparr>srv := s', handlers := (handlers b)[i := ph']\<rparr>)"
proof -
  let ?b' = "b\<lparr>srv := s', handlers := (handlers b)[i := ph']\<rparr>"
  from inv have own: "own_inv b" unfolding broker_inv_def by blast
  obtain Rest where Rest: "set (handlers b) = insert (handlers b ! i) Rest"
      "\<And>y. set ((handlers b)[i := y]) = insert y Rest"
      "\<And>c z. owner (handlers b ! i) = Some c \<Longrightarrow> z \<in> Rest \<Longrightarrow> owner z \<noteq> Some c"
    using handler_split [OF own i] by metis
  define R where "R = closing_pc ` Rest \<union> set (closers b)"
  define Ea where "Ea = {c. \<exists>ph\<in>Rest. early ph \<and> owner ph = Some c}"
  have run: "running b = insert (closing_pc (handlers b ! i)) R" "running ?b' = insert (closing_pc ph') R"
    using Rest(1,2) by (simp_all add: running_def R_def)
  have ear: "early_clients b = early_of (handlers b ! i) \<union> Ea" "early_clients ?b' = early_of ph' \<union> Ea"
    using Rest(1,2) by (auto simp: early_clients_def Ea_def early_of_def)
  have "\<And>c. owner (handlers b ! i) = Some c \<Longrightarrow> c \<notin> Ea" using Rest(3) unfolding Ea_def by blast
  moreover have "Ea \<subseteq> clients (srv b)" using own Rest(1) unfolding own_inv_def Ea_def by blast
  ultimately show ?thesis
    using new [of Ea R] inv own' closeCh unfolding broker_inv_def run ear by simp blast
qed

lemma Collect_owner_update:
  assumes "own_inv b" "i < length (handlers b)" "owner (handlers b ! i) = Some c"
  shows "{d. \<exists>ph\<in>set ((handlers b)[i := ph']). owner ph = Some d} = set_option (owner ph') \<union> (clients (srv b) - {c})"
proof -
  obtain Rest where "set (handlers b) = insert (handlers b ! i) Rest"
      "\<And>y. set ((handlers b)[i := y]) = insert y Rest"
      "\<And>z. z \<in> Rest \<Longrightarrow> owner z \<noteq> Some c"
    using handler_split [OF assms(1,2)] assms(3) by metis
  then show ?thesis using assms(1,3) unfolding own_inv_def by auto
qed

text \<open>Closing, whether by a handler or by another goroutine.\<close>

lemma inv_handler_closing:
  assumes "order_ok E" "broker_inv b" "i < length (handlers b)" "handlers b ! i = Closing c pc"
    and "close_step E pc (hub (srv b)) = (pc', h')"
  shows "broker_inv (b\<lparr>srv := set_hub (srv b) h', handlers := (handlers b)[i := Closing c pc']\<rparr>)"
proof (rule inv_focus [OF assms(2,3)])
  have len: "length (heap h') = length (heap (hub (srv b)))"
    using assms(5) close_begin_facts(4) by (cases pc) (auto split: if_splits prod.splits)
  show "own_inv (b\<lparr>srv := set_hub (srv b) h', handlers := (handlers b)[i := Closing c pc']\<rparr>)"
    using assms(2-4) len by (intro own_inv_keep) (simp_all add: broker_inv_def)
  show "closeCh (set_hub (srv b) h') = closeCh (srv b)" by simp
  fix R Ea
  assume r: "route_ok (router (hub (srv b))) (length (heap (hub (srv b)))) (beats (srv b))
        (insert (closing_pc (handlers b ! i)) R) (early_of (handlers b ! i) \<union> Ea)"
  note st = close_step_inv [OF assms(1,5), of "beats (srv b)" R Ea]
  show "route_ok (router (hub (set_hub (srv b) h'))) (length (heap (hub (set_hub (srv b) h')))) (beats (set_hub (srv b) h'))
       (insert (closing_pc (Closing c pc')) R) (early_of (Closing c pc') \<union> Ea) \<and>
      (close_ok (router (hub (srv b))) (live (hub (srv b))) (beats (srv b))
        (insert (closing_pc (handlers b ! i)) R) (early_of (handlers b ! i) \<union> Ea) \<longrightarrow>
       close_ok (router (hub (set_hub (srv b) h'))) (live (hub (set_hub (srv b) h'))) (beats (set_hub (srv b) h'))
        (insert (closing_pc (Closing c pc')) R) (early_of (Closing c pc') \<union> Ea))"
    using st r by (simp add: assms(4) early_of_def)
qed

lemma inv_closer:
  assumes "order_ok E" "broker_inv b" "i < length (closers b)"
    and "close_step E (closers b ! i) (hub (srv b)) = (pc', h')"
  shows "broker_inv (b\<lparr>srv := set_hub (srv b) h', closers := (closers b)[i := pc']\<rparr>)"
proof -
  let ?b' = "b\<lparr>srv := set_hub (srv b) h', closers := (closers b)[i := pc']\<rparr>"
  obtain Rest where Rest: "set (closers b) = insert (closers b ! i) Rest"
      "\<And>y. set ((closers b)[i := y]) = insert y Rest"
    using set_update_split [OF assms(3)] by metis
  define R where "R = closing_pc ` set (handlers b) \<union> Rest"
  have run: "running b = insert (closers b ! i) R" "running ?b' = insert pc' R"
    using Rest by (simp_all add: running_def R_def)
  have len: "length (heap h') = length (heap (hub (srv b)))"
    using assms(4) close_begin_facts(4) by (cases "closers b ! i") (auto split: if_splits prod.splits)
  have "own_inv ?b'" "early_clients ?b' = early_clients b"
    using assms(2) len by (simp_all add: broker_inv_def own_inv_def early_clients_def)
  then show ?thesis
    using close_step_inv [OF assms(1,4), of "beats (srv b)" R "early_clients b"] assms(2) len
    by (simp add: broker_inv_def run) blast
qed

text \<open>A new client.\<close>

lemma own_inv_new:
  assumes "own_inv b" "i < length (handlers b)" "handlers b ! i = Handshaking cn addr" "c = length (heap (hub (srv b)))"
    and "length (heap (hub s')) = Suc c" "clients s' = insert c (clients (srv b))" "connSem s' = connSem (srv b)"
  shows "own_inv (b\<lparr>srv := s', handlers := (handlers b)[i := Authenticating c]\<rparr>)"
proof -
  let ?hs = "(handlers b)[i := Authenticating c]"
  have lt: "\<forall>d\<in>clients (srv b). d < c" using assms(1,4) unfolding own_inv_def by blast
  then have none: "owner (handlers b ! j) \<noteq> Some c" if "j < length (handlers b)" for j
    using assms(1) that nth_mem [OF that] unfolding own_inv_def by blast
  obtain Rest where Rest: "set (handlers b) = insert (handlers b ! i) Rest" "\<And>y. set ((handlers b)[i := y]) = insert y Rest"
    using handler_split [OF assms(1,2)] by metis
  have "j = k" if "j < length ?hs" "k < length ?hs" "owner (?hs ! j) = Some d" "owner (?hs ! k) = Some d" for j k d
    using that assms(1) none unfolding own_inv_def by (cases "j = i"; cases "k = i") auto
  moreover have "clients s' = {d. \<exists>ph\<in>set ?hs. owner ph = Some d}"
    using assms(1,3,6) Rest unfolding own_inv_def by auto
  moreover have "\<forall>d\<in>clients s'. d < length (heap (hub s'))" using lt assms(5,6) by (auto intro: less_SucI)
  moreover have "connSem s' = active ?hs" "connSem s' \<le> DefaultMaxConnections"
    using assms(1,3,7) active_update [OF assms(2), of "Authenticating c"] unfolding own_inv_def by simp_all
  ultimately show ?thesis unfolding own_inv_def by simp
qed

lemma inv_handshake:
  assumes "broker_inv b" "i < length (handlers b)" "handlers b ! i = Handshaking cn addr"
    and "new_client E rnd sent (srv b) cn addr = (Inr c, cn', s')"
  shows "broker_inv (b\<lparr>srv := s', handlers := (handlers b)[i := Authenticating c]\<rparr>)"
proof -
  let ?h = "hub (srv b)"
  obtain s where s: "c = length (heap ?h)"
      "s' = trackClient (set_hub (srv b) (?h\<lparr>heap := heap ?h @ [\<lparr>cc_session = s, remote = addr,
         connectionID = [], lastSeen = now ?h, cc_done = False\<rparr>]\<rparr>)) c"
    using assms(4) by (auto simp: new_client_def NewClientConn_def split: prod.splits sum.splits)
  have live: "live (hub s') = insert c (live ?h)"
    using s by (auto simp: live_def trackClient_def nth_append)
  have simps: "router (hub s') = router ?h" "length (heap (hub s')) = Suc c" "beats s' = beats (srv b)"
    "clients s' = insert c (clients (srv b))" "connSem s' = connSem (srv b)" "closeCh s' = closeCh (srv b)"
    using s by (simp_all add: trackClient_def)
  show ?thesis
  proof (rule inv_focus [OF assms(1,2)])
    show "own_inv (b\<lparr>srv := s', handlers := (handlers b)[i := Authenticating c]\<rparr>)"
      using assms(1) unfolding broker_inv_def by (intro own_inv_new [OF _ assms(2,3) s(1) simps(2,4,5)]) blast
    show "closeCh s' = closeCh (srv b)" by (rule simps(6))
    fix R Ea
    assume r: "route_ok (router ?h) (length (heap ?h)) (beats (srv b))
        (insert (closing_pc (handlers b ! i)) R) (early_of (handlers b ! i) \<union> Ea)"
    have out: "c \<notin> exposed (router ?h) (beats (srv b)) (insert (closing_pc (handlers b ! i)) R)"
      using r s(1) unfolding route_ok_def by blast
    then have "\<not> referenced (router ?h) c" unfolding exposed_def by blast
    with r out show "route_ok (router (hub s')) (length (heap (hub s'))) (beats s')
        (insert (closing_pc (Authenticating c)) R) (early_of (Authenticating c) \<union> Ea) \<and>
      (close_ok (router ?h) (live ?h) (beats (srv b))
        (insert (closing_pc (handlers b ! i)) R) (early_of (handlers b ! i) \<union> Ea) \<longrightarrow>
       close_ok (router (hub s')) (live (hub s')) (beats s') (insert (closing_pc (Authenticating c)) R)
        (early_of (Authenticating c) \<union> Ea))"
      unfolding simps live s(1) [symmetric]
      by (auto simp: assms(3) early_of_def s(1) intro!: route_ok_weaken [OF r] elim!: close_ok_weaken
          simp: exposed_def)
  qed
qed

lemma referenced_iff:
  "referenced r c \<longleftrightarrow> (\<exists>i. listeners r i = Some c) \<or> peers r c \<noteq> None"
  by (auto simp: referenced_def ran_def)

text \<open>Entering the router: the handler's own client is the only one that can become referenced.\<close>

lemma inv_enter_router:
  assumes inv: "broker_inv b" and i: "i < length (handlers b)"
    and ph: "owner (handlers b ! i) = Some c" "early (handlers b ! i)" "closing_pc (handlers b ! i) = CloseEnd"
    and ph': "owner ph' = Some c" "\<not> early ph'" "closing_pc ph' = CloseEnd"
    and rt: "router_inv (router h')"
      "\<And>d. referenced (router h') d \<Longrightarrow> d = c \<or> referenced (router (hub (srv b))) d"
    and h': "length (heap h') = length (heap (hub (srv b)))" "live h' = live (hub (srv b))"
  shows "broker_inv (b\<lparr>srv := set_hub (srv b) h', handlers := (handlers b)[i := ph']\<rparr>)"
proof (rule inv_focus [OF inv i])
  from inv have own: "own_inv b" unfolding broker_inv_def by blast
  have c: "c < length (heap (hub (srv b)))"
    using own ph(1) nth_mem [OF i] unfolding own_inv_def by blast
  show "own_inv (b\<lparr>srv := set_hub (srv b) h', handlers := (handlers b)[i := ph']\<rparr>)"
    using own i ph(1,2) ph' h' by (intro own_inv_keep) auto
  show "closeCh (set_hub (srv b) h') = closeCh (srv b)" by simp
  fix R Ea
  let ?B = "beats (srv b)" and ?r = "router (hub (srv b))"
  assume Ea: "\<And>d. owner (handlers b ! i) = Some d \<Longrightarrow> d \<notin> Ea"
    and r: "route_ok ?r (length (heap (hub (srv b)))) ?B (insert (closing_pc (handlers b ! i)) R)
        (early_of (handlers b ! i) \<union> Ea)"
  have cEa: "c \<notin> Ea" using Ea ph(1) by blast
  have exp: "d = c \<or> d \<in> exposed ?r ?B (insert CloseEnd R)" if "d \<in> exposed (router h') ?B (insert CloseEnd R)" for d
    using that rt(2) [of d] unfolding exposed_def by blast
  have e: "early_of (handlers b ! i) = {c}" "early_of ph' = {}" using ph ph' by (simp_all add: early_of_def)
  have "route_ok (router h') (length (heap (hub (srv b)))) ?B (insert CloseEnd R) Ea"
    using r rt(1) exp c cEa rt(2) unfolding route_ok_def ph(3) e by blast
  moreover have "close_ok (router h') (live (hub (srv b))) ?B (insert CloseEnd R) Ea"
    if "close_ok ?r (live (hub (srv b))) ?B (insert CloseEnd R) ({c} \<union> Ea)"
    using that exp cEa rt(2) unfolding close_ok_def by blast
  ultimately show "route_ok (router (hub (set_hub (srv b) h'))) (length (heap (hub (set_hub (srv b) h'))))
        (beats (set_hub (srv b) h')) (insert (closing_pc ph') R) (early_of ph' \<union> Ea) \<and>
      (close_ok ?r (live (hub (srv b))) ?B (insert (closing_pc (handlers b ! i)) R) (early_of (handlers b ! i) \<union> Ea) \<longrightarrow>
       close_ok (router (hub (set_hub (srv b) h'))) (live (hub (set_hub (srv b) h'))) (beats (set_hub (srv b) h'))
        (insert (closing_pc ph') R) (early_of ph' \<union> Ea))"
    by (simp add: h' ph(3) ph'(3) e)
qed

lemma early_unreferenced:
  assumes "broker_inv b" "i < length (handlers b)" "owner (handlers b ! i) = Some c" "early (handlers b ! i)"
  shows "\<not> referenced (router (hub (srv b))) c" "router_inv (router (hub (srv b)))"
proof -
  have "c \<in> early_clients b" using assms(3,4) nth_mem [OF assms(2)] unfolding early_clients_def by blast
  with assms(1) show "\<not> referenced (router (hub (srv b))) c" "router_inv (router (hub (srv b)))"
    unfolding broker_inv_def route_ok_def by blast+
qed

lemma inv_register:
  assumes "broker_inv b" "i < length (handlers b)" "handlers b ! i = Registering c k"
    and "listener_register (srv b) c k = (r, s')"
  shows "broker_inv (b\<lparr>srv := s', handlers := (handlers b)[i := if r = None then AckingL c else RejectingL c k]\<rparr>)"
proof -
  let ?h = "hub (srv b)"
  obtain rt where reg: "RegisterListener (router ?h) k c = (r, rt)"
      "s' = set_hub (srv b) ((SetConnectionID c k ?h)\<lparr>router := rt\<rparr>)"
    using assms(4) by (auto simp: listener_register_def Let_def split: prod.splits)
  have un: "\<not> referenced (router ?h) c" and inv: "router_inv (router ?h)"
    using early_unreferenced [OF assms(1,2), of c] assms(3) by simp_all
  show ?thesis
  proof (cases r)
    case None
    have "c \<notin> ran (listeners (router ?h))" using un by (simp add: referenced_def)
    then have "router_inv rt" using router_inv_Register [OF inv reg(1)] by blast
    moreover have "rt = (router ?h)\<lparr>listeners := (listeners (router ?h))(k \<mapsto> c)\<rparr>"
      using reg(1) None by (cases rule: RegisterListener_cases) auto
    then have "referenced rt d \<Longrightarrow> d = c \<or> referenced (router ?h) d" for d
      by (auto simp: referenced_iff split: if_splits)
    ultimately show ?thesis
      using inv_enter_router [OF assms(1,2), of c "AckingL c" "(SetConnectionID c k ?h)\<lparr>router := rt\<rparr>"]
      by (simp add: None reg(2) assms(3))
  next
    case (Some e)
    have "rt = router ?h" using reg(1) Some by (cases rule: RegisterListener_cases) auto
    then have "quiet (srv b) s'" using reg(2) by (simp add: quiet_def)
    then show ?thesis
      using inv_quiet_handler [OF assms(1,2), of s' c "RejectingL c k"] by (simp add: Some assms(3))
  qed
qed

lemma inv_link:
  assumes "broker_inv b" "i < length (handlers b)" "handlers b ! i = Linking c k"
    and "connector_link (srv b) c k = (r, s')"
  shows "broker_inv (b\<lparr>srv := s', handlers := (handlers b)[i := if r = None then AckingC c else RejectingC c k]\<rparr>)"
proof -
  let ?h = "hub (srv b)"
  obtain rt where lnk: "LinkConnector (router ?h) k c = (r, rt)"
      "s' = set_hub (srv b) ((SetConnectionID c k ?h)\<lparr>router := rt\<rparr>)"
    using assms(4) by (auto simp: connector_link_def Let_def split: prod.splits)
  have un: "\<not> referenced (router ?h) c" and inv: "router_inv (router ?h)"
    using early_unreferenced [OF assms(1,2), of c] assms(3) by simp_all
  show ?thesis
  proof (cases r)
    case None
    have "peers (router ?h) c = None" using un by (simp add: referenced_iff)
    then have "router_inv rt" using router_inv_Link [OF inv lnk(1)] by blast
    moreover obtain l where "listeners (router ?h) k = Some l"
        "rt = (router ?h)\<lparr>peers := (peers (router ?h))(l \<mapsto> c, c \<mapsto> l)\<rparr>"
      using lnk(1) None by (cases rule: LinkConnector_cases) auto
    then have "referenced rt d \<Longrightarrow> d = c \<or> referenced (router ?h) d" for d
      by (auto simp: referenced_iff split: if_splits)
    ultimately show ?thesis
      using inv_enter_router [OF assms(1,2), of c "AckingC c" "(SetConnectionID c k ?h)\<lparr>router := rt\<rparr>"]
      by (simp add: None lnk(2) assms(3))
  next
    case (Some e)
    have "rt = router ?h" using lnk(1) Some by (cases rule: LinkConnector_cases) auto
    then have "quiet (srv b) s'" using lnk(2) by (simp add: quiet_def)
    then show ?thesis
      using inv_quiet_handler [OF assms(1,2), of s' c "RejectingC c k"] by (simp add: Some assms(3))
  qed
qed

text \<open>Leaving \<open>AckingL\<close> or \<open>AckingC\<close> starts the heartbeat.\<close>

lemma inv_ack:
  assumes inv: "broker_inv b" and i: "i < length (handlers b)"
    and ph: "owner (handlers b ! i) = Some c" "\<not> early (handlers b ! i)" "closing_pc (handlers b ! i) = CloseEnd"
    and q: "quiet (srv b) s'"
  shows "broker_inv (b\<lparr>srv := StartHeartbeat s' c, handlers := (handlers b)[i := Relaying c]\<rparr>)"
proof (rule inv_focus [OF inv i])
  from inv have own: "own_inv b" unfolding broker_inv_def by blast
  have c: "c < length (heap (hub (srv b)))"
    using own ph(1) nth_mem [OF i] unfolding own_inv_def by blast
  show "own_inv (b\<lparr>srv := StartHeartbeat s' c, handlers := (handlers b)[i := Relaying c]\<rparr>)"
    using own i ph(1) q by (intro own_inv_keep) (auto simp: StartHeartbeat_def quiet_def)
  show "closeCh (StartHeartbeat s' c) = closeCh (srv b)" using q by (simp add: StartHeartbeat_def quiet_def)
  fix R Ea
  assume Ea: "\<And>d. owner (handlers b ! i) = Some d \<Longrightarrow> d \<notin> Ea"
    and r: "route_ok (router (hub (srv b))) (length (heap (hub (srv b)))) (beats (srv b))
        (insert (closing_pc (handlers b ! i)) R) (early_of (handlers b ! i) \<union> Ea)"
  have cEa: "c \<notin> Ea" using Ea ph(1) by blast
  have e: "early_of (handlers b ! i) = {}" "early_of (Relaying c) = {}" using ph by (simp_all add: early_of_def)
  have s: "router (hub (StartHeartbeat s' c)) = router (hub (srv b))" "live (hub (StartHeartbeat s' c)) = live (hub (srv b))"
    "length (heap (hub (StartHeartbeat s' c))) = length (heap (hub (srv b)))"
    "beats (StartHeartbeat s' c) = insert c (beats (srv b))"
    using q by (simp_all add: StartHeartbeat_def quiet_def)
  show "route_ok (router (hub (StartHeartbeat s' c))) (length (heap (hub (StartHeartbeat s' c)))) (beats (StartHeartbeat s' c))
        (insert (closing_pc (Relaying c)) R) (early_of (Relaying c) \<union> Ea) \<and>
      (close_ok (router (hub (srv b))) (live (hub (srv b))) (beats (srv b))
        (insert (closing_pc (handlers b ! i)) R) (early_of (handlers b ! i) \<union> Ea) \<longrightarrow>
       close_ok (router (hub (StartHeartbeat s' c))) (live (hub (StartHeartbeat s' c))) (beats (StartHeartbeat s' c))
        (insert (closing_pc (Relaying c)) R) (early_of (Relaying c) \<union> Ea))"
    unfolding s e
  proof (intro conjI impI)
    show "route_ok (router (hub (srv b))) (length (heap (hub (srv b)))) (insert c (beats (srv b)))
        (insert (closing_pc (Relaying c)) R) ({} \<union> Ea)"
      by (rule route_ok_weaken [OF r]) (auto simp: c ph(3) e exposed_def)
    assume "close_ok (router (hub (srv b))) (live (hub (srv b))) (beats (srv b))
        (insert (closing_pc (handlers b ! i)) R) ({} \<union> Ea)"
    then show "close_ok (router (hub (srv b))) (live (hub (srv b))) (insert c (beats (srv b)))
        (insert (closing_pc (Relaying c)) R) ({} \<union> Ea)"
      by (rule close_ok_weaken) (auto simp: cEa ph(3) exposed_def)
  qed
qed

text \<open>The deferred calls at the end of a handler, and a failed handshake.\<close>

lemma inv_exit:
  assumes inv: "broker_inv b" and i: "i < length (handlers b)"
    and ph: "\<not> early (handlers b ! i)" "closing_pc (handlers b ! i) = CloseEnd"
    and ph': "\<not> early ph'" "closing_pc ph' = CloseEnd"
    and own': "own_inv (b\<lparr>srv := s', handlers := (handlers b)[i := ph']\<rparr>)"
    and same: "hub s' = hub (srv b)" "beats s' = beats (srv b)" "closeCh s' = closeCh (srv b)"
  shows "broker_inv (b\<lparr>srv := s', handlers := (handlers b)[i := ph']\<rparr>)"
  by (rule inv_focus [OF inv i own' same(3)]) (simp add: same ph ph' early_of_def)

lemma inv_untrack:
  assumes "broker_inv b" "i < length (handlers b)" "handlers b ! i = Untracking c"
  shows "broker_inv (b\<lparr>srv := untrackClient (srv b) c, handlers := (handlers b)[i := Releasing]\<rparr>)"
proof (rule inv_exit [OF assms(1,2)])
  from assms(1) have own: "own_inv b" unfolding broker_inv_def by blast
  have one: "owner ((handlers b)[i := Releasing] ! j) = (if j = i then None else owner (handlers b ! j))"
    if "j < length (handlers b)" for j using that by (cases "j = i") simp_all
  have "clients (srv b) - {c} = {d. \<exists>ph\<in>set ((handlers b)[i := Releasing]). owner ph = Some d}"
    using Collect_owner_update [OF own assms(2), of c Releasing] assms(3) by simp
  moreover have "active ((handlers b)[i := Releasing]) = active (handlers b)"
    using active_update [OF assms(2), of Releasing] assms(3) by simp
  moreover have lt: "\<forall>d. (\<exists>ph\<in>set ((handlers b)[i := Releasing]). owner ph = Some d) \<longrightarrow> d < length (heap (hub (srv b)))"
    using own calculation(1) unfolding own_inv_def by blast
  ultimately show "own_inv (b\<lparr>srv := untrackClient (srv b) c, handlers := (handlers b)[i := Releasing]\<rparr>)"
    using own one lt by (simp add: own_inv_def untrackClient_def)
qed (use assms(3) in \<open>simp_all add: untrackClient_def\<close>)

lemma inv_release:
  assumes "broker_inv b" "i < length (handlers b)" "handlers b ! i = Releasing"
  shows "broker_inv (b\<lparr>srv := release_slot (srv b), handlers := (handlers b)[i := Finished]\<rparr>)"
proof (rule inv_exit [OF assms(1,2)])
  from assms(1) have own: "own_inv b" unfolding broker_inv_def by blast
  have "active ((handlers b)[i := Finished]) + 1 = active (handlers b)"
    using active_update [OF assms(2), of Finished] assms(3) by simp
  then have "connSem (srv b) - 1 + 1 = connSem (srv b)" using own by (simp add: own_inv_def)
  then show "own_inv (b\<lparr>srv := release_slot (srv b), handlers := (handlers b)[i := Finished]\<rparr>)"
    using own assms(2,3) by (intro own_inv_keep) (auto simp: release_slot_def)
qed (use assms(3) in \<open>simp_all add: release_slot_def\<close>)

lemma inv_handshaking:
  assumes "broker_inv b" "i < length (handlers b)" "handlers b ! i = Handshaking cn addr"
    and "handler_step E rnd sent (handlers b ! i) (srv b) = (ph', s')"
  shows "broker_inv (b\<lparr>srv := s', handlers := (handlers b)[i := ph']\<rparr>)"
proof -
  obtain r cn' s1 where n: "new_client E rnd sent (srv b) cn addr = (r, cn', s1)" by (metis prod_cases3)
  show ?thesis
  proof (cases r)
    case (Inl err)
    with n assms(3,4) have eq: "ph' = Releasing" "s' = srv b"
      by (auto simp: new_client_def NewClientConn_def set_hub_def split: prod.splits sum.splits)
    have "own_inv (b\<lparr>srv := srv b, handlers := (handlers b)[i := Releasing]\<rparr>)"
      using assms(1-3) by (intro own_inv_keep) (auto simp: broker_inv_def)
    then show ?thesis unfolding eq by (intro inv_exit [OF assms(1,2)]) (auto simp: assms(3))
  next
    case (Inr c)
    with n assms(3,4) have "ph' = Authenticating c" "s' = s1" by auto
    then show ?thesis using inv_handshake [OF assms(1-3)] n Inr by blast
  qed
qed

lemma inv_handler_closes:
  assumes "order_ok E" "broker_inv b" "i < length (handlers b)" "handlers b ! i = Closing c pc"
    and st: "handler_step E rnd sent (handlers b ! i) (srv b) = (ph', s')"
  shows "broker_inv (b\<lparr>srv := s', handlers := (handlers b)[i := ph']\<rparr>)"
proof (cases "pc = CloseEnd")
  case True
  with st assms(4) have "s' = srv b" "ph' = Untracking c" by auto
  then show ?thesis using inv_quiet_handler [OF assms(2,3) quiet_refl, of c ph'] assms(4) True by auto
next
  case False
  with st assms(4) obtain pc' h' where "close_step E pc (hub (srv b)) = (pc', h')"
      "ph' = Closing c pc'" "s' = set_hub (srv b) h'" by (auto split: prod.splits)
  then show ?thesis using inv_handler_closing [OF assms(1-4)] by blast
qed

lemma inv_handler_step:
  assumes "order_ok E" "broker_inv b" "i < length (handlers b)"
    and st: "handler_step E rnd sent (handlers b ! i) (srv b) = (ph', s')"
  shows "broker_inv (b\<lparr>srv := s', handlers := (handlers b)[i := ph']\<rparr>)"
proof (cases "quiet_phase (handlers b ! i)")
  case True
  from quiet_step_phase [OF st True] obtain c where "owner (handlers b ! i) = Some c" "owner ph' = Some c" "early ph' \<Longrightarrow> early (handlers b ! i)"
    "closing_pc (handlers b ! i) = CloseEnd" "closing_pc ph' = CloseEnd \<or> closing_pc ph' = CloseEnter c \<and> \<not> early ph'" by blast
  then show ?thesis by (intro inv_quiet_handler [OF assms(2,3) quiet_step [OF st True]])
next
  case False
  then show ?thesis
  proof (cases "handlers b ! i")
    case (Handshaking cn addr)
    then show ?thesis by (rule inv_handshaking [OF assms(2,3) _ st])
  next
    case (Registering c k)
    with st obtain r where "listener_register (srv b) c k = (r, s')" "ph' = (if r = None then AckingL c else RejectingL c k)"
      by (auto split: prod.splits option.splits)
    then show ?thesis using inv_register [OF assms(2,3) Registering] by simp
  next
    case (Linking c k)
    with st obtain r where "connector_link (srv b) c k = (r, s')" "ph' = (if r = None then AckingC c else RejectingC c k)"
      by (auto split: prod.splits option.splits)
    then show ?thesis using inv_link [OF assms(2,3) Linking] by simp
  next
    case (AckingL c)
    with st show ?thesis using inv_ack [OF assms(2,3) _ _ _ quiet_send_to, of c] by (auto simp: listener_ack_def)
  next
    case (AckingC c)
    with st show ?thesis using inv_ack [OF assms(2,3) _ _ _ quiet_send_to, of c] by (auto simp: connector_ack_def)
  next
    case (Closing c pc)
    then show ?thesis by (rule inv_handler_closes [OF assms(1-3) _ st])
  next
    case (Untracking c)
    with st show ?thesis using inv_untrack [OF assms(2,3) Untracking] by simp
  next
    case Releasing
    with st show ?thesis using inv_release [OF assms(2,3) Releasing] by simp
  next
    case Finished
    with st have "s' = srv b" "(handlers b)[i := ph'] = handlers b" by (auto simp: list_update_same_conv assms(3))
    then show ?thesis using assms(2) by simp
  qed simp_all
qed

text \<open>Steps of the rest of the system.\<close>

lemma inv_same_handlers:
  assumes inv: "broker_inv b" and q: "quiet (srv b) (s'\<lparr>beats := beats (srv b)\<rparr>)"
    and B: "beats s' \<subseteq> beats (srv b)"
    and cl: "set cs = set (closers b) \<union> CloseEnter ` X" "X \<subseteq> beats (srv b)"
  shows "broker_inv (b\<lparr>srv := s', closers := cs\<rparr>)"
proof -
  let ?b' = "b\<lparr>srv := s', closers := cs\<rparr>"
  have s: "router (hub s') = router (hub (srv b))" "live (hub s') = live (hub (srv b))"
    "length (heap (hub s')) = length (heap (hub (srv b)))" "clients s' = clients (srv b)"
    "connSem s' = connSem (srv b)" "closeCh s' = closeCh (srv b)"
    using q by (simp_all add: quiet_def)
  have run: "running ?b' = running b \<union> CloseEnter ` X" "early_clients ?b' = early_clients b"
    using cl(1) by (auto simp: running_def early_clients_def)
  have tgt: "d \<in> exposed r (beats (srv b)) (running b)" if "pc \<in> running b \<union> CloseEnter ` X" "d \<in> targets pc" for pc d r
    using that cl(2) by (auto simp: exposed_def)
  have "own_inv ?b'" using inv by (simp add: broker_inv_def own_inv_def s)
  moreover have "route_ok (router (hub (srv b))) (length (heap (hub (srv b)))) (beats s')
      (running b \<union> CloseEnter ` X) (early_clients b)"
    by (rule route_ok_weaken [where B = "beats (srv b)" and R = "running b"])
       (use inv B tgt in \<open>auto simp: broker_inv_def\<close>)
  moreover have "close_ok (router (hub (srv b))) (live (hub (srv b))) (beats s')
      (running b \<union> CloseEnter ` X) (early_clients b)"
    if "close_ok (router (hub (srv b))) (live (hub (srv b))) (beats (srv b)) (running b) (early_clients b)"
    using that by (rule close_ok_weaken) (use B tgt in auto)
  ultimately show ?thesis using inv by (auto simp: broker_inv_def run s)
qed

lemma accept_cases:
  assumes "acceptLoop_round s acc = (r, s')"
  shows "(\<exists>cn. r = Spawn cn) \<Longrightarrow> s' = s\<lparr>connSem := connSem s + 1\<rparr> \<and> connSem s < DefaultMaxConnections"
    and "(\<forall>cn. r \<noteq> Spawn cn) \<Longrightarrow> quiet s s'"
proof -
  have q: "ip_blocked s x = Some t \<Longrightarrow> quiet s t" "geo_blocked s x = Some t \<Longrightarrow> quiet s t" for t x
    by (auto simp: ip_blocked_def geo_blocked_def log_defs split: option.splits sum.splits prod.splits bool.splits)
  show "(\<exists>cn. r = Spawn cn) \<Longrightarrow> s' = s\<lparr>connSem := connSem s + 1\<rparr> \<and> connSem s < DefaultMaxConnections"
    using assms by (auto simp: acceptLoop_round_def split: sum.splits option.splits if_splits)
  show "(\<forall>cn. r \<noteq> Spawn cn) \<Longrightarrow> quiet s s'"
    using assms q by (auto simp: acceptLoop_round_def split: sum.splits option.splits if_splits)
qed

lemma inv_spawn:
  assumes "broker_inv b" "connSem (srv b) < DefaultMaxConnections"
  shows "broker_inv (b\<lparr>srv := (srv b)\<lparr>connSem := connSem (srv b) + 1\<rparr>, handlers := handlers b @ [Handshaking cn addr]\<rparr>)"
proof -
  let ?b' = "b\<lparr>srv := (srv b)\<lparr>connSem := connSem (srv b) + 1\<rparr>, handlers := handlers b @ [Handshaking cn addr]\<rparr>"
  have own: "own_inv b" using assms(1) by (simp add: broker_inv_def)
  have "running ?b' = insert CloseEnd (running b)" "early_clients ?b' = early_clients b"
    by (auto simp: running_def early_clients_def)
  moreover have "own_inv ?b'"
    using own assms(2) by (auto simp: own_inv_def active_def nth_append less_Suc_eq split: if_splits)
  moreover have "exposed r B (insert CloseEnd R) = exposed r B R" for r B R
    by (simp add: exposed_def)
  ultimately show ?thesis
    using assms(1) by (auto simp: broker_inv_def route_ok_def close_ok_def)
qed

lemma inv_stop:
  assumes "broker_inv b" "set cs = clients (srv b)"
  shows "broker_inv (b\<lparr>srv := (srv b)\<lparr>closeCh := True, accepting := False\<rparr>, closers := closers b @ map CloseEnter cs\<rparr>)"
proof -
  let ?b' = "b\<lparr>srv := (srv b)\<lparr>closeCh := True, accepting := False\<rparr>, closers := closers b @ map CloseEnter cs\<rparr>"
  have own: "own_inv b" using assms(1) by (simp add: broker_inv_def)
  have lt: "\<forall>c\<in>set cs. c < length (heap (hub (srv b)))" using own assms(2) by (simp add: own_inv_def)
  have run: "running ?b' = running b \<union> CloseEnter ` set cs" "early_clients ?b' = early_clients b"
    by (auto simp: running_def early_clients_def)
  have "route_ok (router (hub (srv b))) (length (heap (hub (srv b)))) (beats (srv b))
      (running b \<union> CloseEnter ` set cs) (early_clients b)"
    by (rule route_ok_weaken [where B = "beats (srv b)" and R = "running b"])
       (use assms(1) lt in \<open>auto simp: broker_inv_def exposed_def\<close>)
  moreover have "own_inv ?b'" using own by (simp add: own_inv_def)
  ultimately show ?thesis by (simp add: broker_inv_def run)
qed

lemma heartbeat_quiet:
  assumes "heartbeat_round E pick c (hub s) = (t, h')"
  shows "quiet s (set_hub s h')"
proof (cases "t = Beat")
  case True
  then have "h' = snd (cc_Send E (hub s) c heartbeat_env)"
    using assms by (auto simp: heartbeat_round_def split: if_splits)
  then show ?thesis using quiet_send_to [of s E c heartbeat_env] by (simp add: send_to_def)
next
  case False
  then have "h' = hub s" using assms by (auto simp: heartbeat_round_def split: if_splits)
  then show ?thesis by (simp add: set_hub_def)
qed

lemma inv_step:
  assumes "order_ok E" "broker_step E b b'" "broker_inv b"
  shows "broker_inv b'"
  using assms(2)
proof cases
  case (accept_spawn cn addr cn' s')
  then show ?thesis using accept_cases(1) [OF accept_spawn(3)] inv_spawn [OF assms(3)] by auto
next
  case (accept_other acc r s')
  then have "quiet (srv b) s'" using accept_cases(2) by blast
  then show ?thesis
    using inv_same_handlers [OF assms(3), of s' "closers b" "{}"] accept_other(1) by (simp add: quiet_def)
next
  case (handler i rnd sent ph' s')
  then show ?thesis using inv_handler_step [OF assms(1,3)] by blast
next
  case (closer i pc' h')
  then show ?thesis using inv_closer [OF assms(1,3)] by blast
next
  case (beat c pick t h')
  have "quiet (srv b) (set_hub (srv b) h')" by (rule heartbeat_quiet [OF beat(3)])
  then show ?thesis
    unfolding beat(1) using beat(2)
    by (intro inv_same_handlers [OF assms(3), where X = "if t = Stale then {c} else {}"]) (auto simp: quiet_def)
next
  case (network c cn)
  then show ?thesis
    using inv_same_handlers [OF assms(3), of "set_hub (srv b) (set_conn c cn (hub (srv b)))" "closers b" "{}"]
    by (simp add: quiet_def set_conn_def live_cc_upd)
next
  case (clock t w)
  then show ?thesis
    using inv_same_handlers [OF assms(3), of "(set_hub (srv b) ((hub (srv b))\<lparr>now := t\<rparr>))\<lparr>wall := w\<rparr>" "closers b" "{}"]
    by (simp add: quiet_def live_def)
next
  case (stop cs)
  then show ?thesis using inv_stop [OF assms(3)] by blast
qed

lemma init_server:
  assumes "broker_init b"
  shows "heap (hub (srv b)) = []" "router (hub (srv b)) = NewRouter" "clients (srv b) = {}" "connSem (srv b) = 0"
    "beats (srv b) = {}"
proof -
  obtain fs w t addr opts listen e where b:
      "\<forall>f\<in>set opts. \<exists>pw l ip geo. f \<in> {WithPassphrase pw, WithLogger l, WithIPFilter ip, WithGeoFilter geo}"
      "Start listen (NewServer fs w t addr opts) = (e, srv b)"
    using assms unfolding broker_init_def by blast
  have keep: "hub (foldl (\<lambda>s opt. opt s) s opts) = hub s \<and> clients (foldl (\<lambda>s opt. opt s) s opts) = clients s \<and>
      connSem (foldl (\<lambda>s opt. opt s) s opts) = connSem s \<and> beats (foldl (\<lambda>s opt. opt s) s opts) = beats s" for s
    using b(1)
    by (induction opts arbitrary: s)
       (auto simp: WithPassphrase_def WithLogger_def WithIPFilter_def WithGeoFilter_def)
  have new: "hub (NewServer fs w t addr opts) = \<lparr>router = NewRouter, heap = [], now = t\<rparr>"
    "clients (NewServer fs w t addr opts) = {}" "connSem (NewServer fs w t addr opts) = 0"
    "beats (NewServer fs w t addr opts) = {}"
    using keep by (simp_all add: NewServer_def Let_def)
  have "NewServer fs w t addr opts = srv b \<or>
      (\<exists>a. (NewServer fs w t addr opts)\<lparr>listener := Some a, accepting := True\<rparr> = srv b)"
    using b(2) by (auto simp: Start_def split: sum.splits)
  then have eq: "hub (srv b) = hub (NewServer fs w t addr opts)" "clients (srv b) = clients (NewServer fs w t addr opts)"
    "connSem (srv b) = connSem (NewServer fs w t addr opts)" "beats (srv b) = beats (NewServer fs w t addr opts)"
    by (elim disjE exE; simp add: eq_commute [of _ "srv b"])+
  show "heap (hub (srv b)) = []" "router (hub (srv b)) = NewRouter" "clients (srv b) = {}" "connSem (srv b) = 0"
    "beats (srv b) = {}" by (simp_all add: eq new)
qed

lemma inv_init:
  assumes "broker_init b"
  shows "broker_inv b"
proof -
  have "handlers b = []" "closers b = []" using assms by (auto simp: broker_init_def)
  moreover have "\<not> referenced NewRouter c" for c by (simp add: referenced_def NewRouter_def)
  ultimately show ?thesis
    using router_inv_New init_server [OF assms]
    by (simp add: broker_inv_def own_inv_def route_ok_def close_ok_def running_def early_clients_def
        exposed_def active_def)
qed

lemma inv_init_empty:
  assumes "broker_init b"
  shows "\<not> referenced (router (hub (srv b))) c"
  using init_server [OF assms] by (simp add: referenced_def NewRouter_def)

interpretation broker_sys: step_system "\<lambda>b b'. order_ok E \<and> broker_step E b b'" broker_init broker_inv for E
  by unfold_locales (auto intro: inv_init inv_step)

lemma reachable_inv: "order_ok E \<Longrightarrow> reachable E b \<Longrightarrow> broker_inv b"
  using broker_sys.reachable_keeps [of _ E b] by (auto simp: reachable_def)

subsection \<open>Only authenticated clients are routed\<close>

fun admitted :: "phase \<Rightarrow> bool" where
  "admitted (Handshaking _ _) = False"
| "admitted (Authenticating _) = False"
| "admitted (Untracking _) = False"
| "admitted ph = (owner ph \<noteq> None)"

lemma handler_step_admit:
  assumes "handler_step E rnd sent ph s = (ph', s')" "admitted ph'" "owner ph' = Some c"
  shows "admitted ph \<and> owner ph = Some c \<or>
    ph = Authenticating c \<and> ph' = AwaitingRole c \<and> authenticateClient E s c = (None, s')"
  using assms
  by (cases ph) (auto split: prod.splits sum.splits option.splits role.splits relay_in.splits if_splits)

lemma referenced_router_cong: "quiet s s' \<Longrightarrow> router (hub s') = router (hub s)"
  by (simp add: quiet_def)

lemma close_step_referenced:
  assumes "order_ok E" "router_inv (router h)" "close_step E pc h = (pc', h')" "referenced (router h') c"
  shows "referenced (router h) c"
proof (cases pc)
  case (CloseEnter d)
  then have "router h' = router h"
    using assms(3) close_begin_facts(2) by (auto split: if_splits prod.splits)
  then show ?thesis using assms(4) by simp
next
  case (CloseRemove d p)
  then have "h' = close_remove E d h" using assms(3) by simp
  then show ?thesis using referenced_remove [OF assms(1,2)] assms(4) by blast
qed (use assms in auto)

lemma handler_step_referenced:
  assumes "order_ok E" "router_inv (router (hub s))" "handler_step E rnd sent ph s = (ph', s')"
    and "referenced (router (hub s')) c"
  shows "referenced (router (hub s)) c \<or> admitted ph \<and> owner ph = Some c"
proof (cases ph)
  case (Handshaking cn addr)
  then have "router (hub s') = router (hub s)" using assms(3)
    by (auto simp: new_client_def NewClientConn_def trackClient_def split: prod.splits sum.splits)
  then show ?thesis using assms(4) by simp
next
  case (Registering d k)
  with assms(3) have "s' = snd (listener_register s d k)" by (auto split: prod.splits option.splits)
  then show ?thesis
    using assms(4) Registering
    by (auto simp: listener_register_def RegisterListener_def Let_def referenced_iff split: option.splits if_splits)
next
  case (Linking d k)
  with assms(3) have "s' = snd (connector_link s d k)" by (auto split: prod.splits option.splits)
  then show ?thesis
    using assms(4) Linking
    by (auto simp: connector_link_def LinkConnector_def Let_def referenced_iff split: option.splits if_splits)
next
  case (Closing d pc)
  then show ?thesis
    using assms(3,4) close_step_referenced [OF assms(1,2), of pc] by (auto split: if_splits prod.splits)
next
  case (AckingL d)
  then have "s' = StartHeartbeat (send_to E s d (register_ack True)) d" using assms(3) by (simp add: listener_ack_def)
  then show ?thesis using assms(4) quiet_send_to [of s E d "register_ack True"] by (simp add: StartHeartbeat_def quiet_def)
next
  case (AckingC d)
  then have "s' = StartHeartbeat (send_to E s d (connect_ack True)) d" using assms(3) by (simp add: connector_ack_def)
  then show ?thesis using assms(4) quiet_send_to [of s E d "connect_ack True"] by (simp add: StartHeartbeat_def quiet_def)
qed (use assms(3,4) quiet_step [OF assms(3)] in \<open>auto simp: untrackClient_def release_slot_def quiet_def\<close>)

definition routed :: "broker \<Rightarrow> cid \<Rightarrow> bool" where
  "routed b c \<longleftrightarrow> referenced (router (hub (srv b))) c \<or> (\<exists>ph\<in>set (handlers b). admitted ph \<and> owner ph = Some c)"

text \<open>The step in which a handler lets its client in: the handler waits for the client's first message, and the message the
  broker reads from it is an Authenticate message with the hash of the passphrase.\<close>

definition logs_in :: "broker_env \<Rightarrow> cid \<Rightarrow> broker \<Rightarrow> broker \<Rightarrow> bool" where
  "logs_in E c b b' \<longleftrightarrow>
     (\<exists>i e h. i < length (handlers b) \<and> handlers b ! i = Authenticating c \<and>
        cc_Receive E (hub (srv b)) c = (Inr e, h) \<and>
        GetAuthenticate e = Some \<lparr>Authenticate_PassphraseHash = passphraseHash (srv b)\<rparr> \<and>
        b' = b\<lparr>srv := set_hub (srv b) h, handlers := (handlers b)[i := AwaitingRole c]\<rparr>)"

lemma routed_handler:
  assumes "order_ok E" "broker_inv b" "i < length (handlers b)"
    and "handler_step E rnd sent (handlers b ! i) (srv b) = (ph', s')"
    and "routed (b\<lparr>srv := s', handlers := (handlers b)[i := ph']\<rparr>) c"
  shows "routed b c \<or> logs_in E c b (b\<lparr>srv := s', handlers := (handlers b)[i := ph']\<rparr>)"
proof -
  have r: "router_inv (router (hub (srv b)))" using assms(2) by (simp add: broker_inv_def route_ok_def)
  have "z \<in> set (handlers b)" if "z \<in> set ((handlers b)[i := ph'])" "z \<noteq> ph'" for z
    using that set_update_subset_insert by fastforce
  then have "referenced (router (hub s')) c \<or> admitted ph' \<and> owner ph' = Some c \<or> routed b c"
    using assms(5) unfolding routed_def by auto
  then show ?thesis
  proof (elim disjE)
    assume "referenced (router (hub s')) c"
    then show ?thesis
      using handler_step_referenced [OF assms(1) r assms(4)] nth_mem [OF assms(3)] unfolding routed_def by blast
  next
    assume "admitted ph' \<and> owner ph' = Some c"
    then consider "admitted (handlers b ! i) \<and> owner (handlers b ! i) = Some c"
      | "handlers b ! i = Authenticating c" "ph' = AwaitingRole c" "authenticateClient E (srv b) c = (None, s')"
      using handler_step_admit [OF assms(4), of c] by blast
    then show ?thesis
    proof cases
      case 1
      then show ?thesis using nth_mem [OF assms(3)] unfolding routed_def by metis
    next
      case 2
      have "c \<in> clients (srv b)" using 2(1) assms(2) nth_mem [OF assms(3)] unfolding broker_inv_def own_inv_def by fastforce
      then have "c < length (heap (hub (srv b)))" using assms(2) unfolding broker_inv_def own_inv_def by blast
      with 2(3) show ?thesis
      proof (cases rule: authenticateClient_cases)
        case (ok e h1)
        then show ?thesis using 2(1,2) assms(3) unfolding logs_in_def by blast
      qed simp
    qed
  qed simp
qed

lemma routed_step:
  assumes "order_ok E" "broker_inv b" "broker_step E b b'" "routed b' c"
  shows "routed b c \<or> logs_in E c b b'"
proof -
  have inv: "router_inv (router (hub (srv b)))" using assms(2) by (simp add: broker_inv_def route_ok_def)
  from assms(3) show ?thesis
  proof cases
    case (handler i rnd sent ph' s')
    from routed_handler [OF assms(1,2) handler(2,3) assms(4) [unfolded handler(1)]] show ?thesis unfolding handler(1) .
  next
    case (closer i pc' h')
    then have "referenced (router h') c \<or> routed b c" using assms(4) unfolding routed_def by auto
    then show ?thesis
      using close_step_referenced [OF assms(1) inv closer(3)] unfolding routed_def by blast
  next
    case (beat d pick t h')
    have "router h' = router (hub (srv b))"
      using heartbeat_quiet [OF beat(3)] by (simp add: quiet_def)
    then show ?thesis using assms(4) beat(1) unfolding routed_def by simp
  next
    case (accept_spawn cn addr cn' s')
    then show ?thesis
      using assms(4) accept_cases(1) [OF accept_spawn(3)] unfolding routed_def by auto
  next
    case (accept_other acc r s')
    then have "router (hub s') = router (hub (srv b))" using accept_cases(2) by (auto simp: quiet_def)
    then show ?thesis using assms(4) accept_other(1) unfolding routed_def by simp
  next
    case (network d cn)
    then show ?thesis using assms(4) unfolding routed_def by (simp add: set_conn_def)
  next
    case (clock t w)
    then show ?thesis using assms(4) unfolding routed_def by simp
  next
    case (stop cs)
    then show ?thesis using assms(4) unfolding routed_def by simp
  qed
qed

lemma init_not_routed:
  assumes "broker_init b"
  shows "\<not> routed b c"
  using inv_init_empty [OF assms] assms by (auto simp: routed_def broker_init_def)

interpretation auth_sys: caused_system "\<lambda>b b'. order_ok E \<and> broker_step E b b'" broker_init broker_inv
    "\<lambda>b. routed b c" "logs_in E c" for E c
proof unfold_locales
  fix b b'
  assume "broker_inv b" "order_ok E \<and> broker_step E b b'" "routed b' c"
  then show "routed b c \<or> logs_in E c b b'" using routed_step [of E b b' c] by blast
qed (rule init_not_routed)

text \<open>Nothing changes the passphrase and the filters the broker was started with.\<close>

definition config :: "server \<Rightarrow> bytes \<times> DB option \<times> geo_DB option" where
  "config s = (passphraseHash s, ipFilter s, geoFilter s)"

lemma set_hub_filters [simp]: "ipFilter (set_hub s h) = ipFilter s" "geoFilter (set_hub s h) = geoFilter s"
  by (simp_all add: set_hub_def)

lemma handler_step_config: "handler_step E rnd sent ph s = (ph', s') \<Longrightarrow> config s' = config s"
  by (cases ph) (auto simp: config_def new_client_def trackClient_def untrackClient_def release_slot_def
      first_message_def listener_register_def listener_reject_def listener_ack_def
      connector_link_def connector_reject_def connector_ack_def unexpected_reject_def relay_receive_def relay_send_def
      send_to_def StartHeartbeat_def logInvalidConnectionID_def security_warn_def Let_def authenticateClient_def
      logInvalidAuthPayload_def logPassphraseMismatch_def
      split: prod.splits sum.splits option.splits role.splits relay_in.splits if_splits)

lemma accept_config: "acceptLoop_round s acc = (r, s') \<Longrightarrow> config s' = config s"
  by (auto simp: config_def acceptLoop_round_def ip_blocked_def geo_blocked_def logBlockedIP_def logGeoBlockedIP_def security_warn_def
      split: sum.splits option.splits prod.splits if_splits bool.splits)

lemma broker_step_config: "broker_step E b b' \<Longrightarrow> config (srv b') = config (srv b)"
  by (induction rule: broker_step.induct) (auto dest: handler_step_config accept_config simp: set_hub_def config_def)

lemma trace_config:
  "successively (broker_step E) bs \<Longrightarrow> b \<in> set bs \<Longrightarrow> config (srv b) = config (srv (hd bs))"
proof (induction bs rule: induct_list012)
  case (3 b1 b2 bs)
  then show ?case using broker_step_config [of E b1 b2] by auto
qed simp_all

text \<open>C17: in every reachable state of the broker, whatever the goroutines, the network and the
  clients do, links are mutual and a client listens under at most one ID; the slots in use are exactly
  the handlers that have not finished, at most 1024; and the tracked clients are exactly those a
  handler is responsible for, each client by one handler.\<close>

theorem broker_invariant:
  assumes "order_ok E" "reachable E b"
  shows "router_inv (router (hub (srv b))) \<and>
    connSem (srv b) = length (filter (\<lambda>ph. ph \<noteq> Finished) (handlers b)) \<and> connSem (srv b) \<le> 1024 \<and>
    clients (srv b) = {c. \<exists>ph\<in>set (handlers b). owner ph = Some c} \<and>
    (\<forall>i j c. i < length (handlers b) \<longrightarrow> j < length (handlers b) \<longrightarrow>
       owner (handlers b ! i) = Some c \<longrightarrow> owner (handlers b ! j) = Some c \<longrightarrow> i = j)"
  using reachable_inv [OF assms]
  unfolding broker_inv_def own_inv_def route_ok_def active_def DefaultMaxConnections_def by blast

text \<open>C19: no route goes stale. Until the broker is stopped, a client the router still refers to
  is either open or a goroutine is just about to remove it; so once no \<^verbatim>\<open>Close\<close> is
  running, every registered listener and every linked client is open.\<close>

theorem no_stale_routes:
  assumes "order_ok E" "reachable E b" "\<not> closeCh (srv b)"
    and "listeners (router (hub (srv b))) k = Some c \<or> peers (router (hub (srv b))) d = Some c"
  shows "c \<in> live (hub (srv b)) \<or> (\<exists>p. CloseRemove c p \<in> running b)"
proof -
  have inv: "broker_inv b" by (rule reachable_inv [OF assms(1,2)])
  then have r: "router_inv (router (hub (srv b)))" by (simp add: broker_inv_def route_ok_def)
  have "referenced (router (hub (srv b))) c"
    using assms(4) referenced_peer [OF r] by (auto simp: referenced_iff)
  then show ?thesis using inv assms(3) unfolding broker_inv_def close_ok_def by blast
qed

text \<open>C18: no client gets into the router, and none gets past the authentication phase, without
  having logged in: in every run of the broker at whose end a client is registered, linked or handled further, there are two
  consecutive states between which the handler of this client, waiting for its first message, read from it an Authenticate
  message with the hash of the passphrase the broker was started with, and nothing else changed.\<close>

theorem only_authenticated_routed:
  assumes "order_ok E" "successively (broker_step E) bs" "bs \<noteq> []" "broker_init (hd bs)" "routed (last bs) c"
  shows "\<exists>before b1 b2 behind i e h. bs = before @ b1 # b2 # behind \<and>
    i < length (handlers b1) \<and> handlers b1 ! i = Authenticating c \<and> cc_Receive E (hub (srv b1)) c = (Inr e, h) \<and>
    GetAuthenticate e = Some \<lparr>Authenticate_PassphraseHash = passphraseHash (srv (hd bs))\<rparr> \<and>
    b2 = b1\<lparr>srv := set_hub (srv b1) h, handlers := (handlers b1)[i := AwaitingRole c]\<rparr>"
proof -
  obtain before b1 b2 behind where bs: "bs = before @ b1 # b2 # behind" and "logs_in E c b1 b2"
    using auth_sys.has_cause [of E bs c] assms by auto
  then obtain i e h where "i < length (handlers b1)" "handlers b1 ! i = Authenticating c"
      "cc_Receive E (hub (srv b1)) c = (Inr e, h)"
      "GetAuthenticate e = Some \<lparr>Authenticate_PassphraseHash = passphraseHash (srv b1)\<rparr>"
      "b2 = b1\<lparr>srv := set_hub (srv b1) h, handlers := (handlers b1)[i := AwaitingRole c]\<rparr>"
    unfolding logs_in_def by blast
  moreover have "passphraseHash (srv b1) = passphraseHash (srv (hd bs))"
    using trace_config [OF assms(2), of b1] bs by (simp add: config_def)
  ultimately show ?thesis using bs by (intro exI [of _ before] exI [of _ b1] exI [of _ b2] exI [of _ behind]
      exI [of _ i] exI [of _ e] exI [of _ h]) simp
qed

subsection \<open>A concrete run\<close>

definition run_payloads :: "Payload list" where
  "run_payloads =
     [Envelope_Authenticate \<lparr>Authenticate_PassphraseHash = sha256_Sum256 (bytes_of_string ''secret'')\<rparr>,
      Envelope_Register \<lparr>Register_ConnectionId = ''web''\<rparr>]"

definition run_conn :: "bytes \<Rightarrow> net_conn" where
  "run_conn key = sample_conn\<lparr>rx := frame_bytes (sample_hello 1) @ wire (aes_NewGCM key) 0 (map proto_payload run_payloads)\<rparr>"

definition run_start :: broker where
  "run_start = \<lparr>srv = snd (Start (\<lambda>a. Inr a) (NewServer sample_fs sample_now 0 '':1781'' [WithPassphrase ''secret''])),
     handlers = [], closers = []\<rparr>"

lemma broker_initI:
  "Start listen (NewServer fs w t addr opts) = (e, srv b) \<Longrightarrow> handlers b = [] \<Longrightarrow> closers b = [] \<Longrightarrow>
    (\<And>f. f \<in> set opts \<Longrightarrow> \<exists>pw l ip geo. f \<in> {WithPassphrase pw, WithLogger l, WithIPFilter ip, WithGeoFilter geo}) \<Longrightarrow>
    broker_init b"
  unfolding broker_init_def by blast

lemma run_start_init: "broker_init run_start"
proof (rule broker_initI)
  show "Start (\<lambda>a. Inr a) (NewServer sample_fs sample_now 0 '':1781'' [WithPassphrase ''secret'']) = (None, srv run_start)"
    by (simp add: run_start_def Start_def)
qed (auto simp: run_start_def)

lemma run_handshake:
  "\<exists>key s. PerformHandshake proto_codec sample_curve (Inr (replicate 32 2)) True (run_conn key) = (Inr s, conn s) \<and>
     \<not> conn_closed (conn s) \<and> gcm (recvEnc s) = aes_NewGCM key \<and> counter (recvEnc s) = 0 \<and>
     rx (conn s) = wire (aes_NewGCM key) 0 (map proto_payload run_payloads)"
proof -
  let ?K = "\<lparr>PrivateKey = replicate 32 2, PublicKey = public_of sample_curve (replicate 32 2)\<rparr>"
  obtain ks where ks: "DeriveDirectionalKeys sample_curve ?K (replicate 32 1) = Inr ks"
    using DeriveDirectionalKeys_mirror [of "\<lparr>PrivateKey = replicate 32 1, PublicKey = replicate 32 1\<rparr>" ?K sample_curve "replicate 32 3"]
    by (auto simp: sample_curve_def zip_replicate)
  let ?cn = "run_conn (RecvKey ks)" and ?rest = "wire (aes_NewGCM (RecvKey ks)) 0 (map proto_payload run_payloads)"
  have "healthy ?cn" by (simp add: run_conn_def healthy_def sample_conn_def)
  moreover have "Marshal proto_codec (handshake_env ?K) = Inr (sample_hello 2)"
    by (simp add: handshake_env_def PublicKeyBytes_def sample_curve_def sample_hello)
  moreover note sample_hello(3) [of 2] sample_hello(3) [of 1]
  moreover have "rx ?cn = frame_bytes (sample_hello 1) @ ?rest" by (simp add: run_conn_def)
  moreover have "Unmarshal proto_codec (sample_hello 1) =
      Inr (env (Envelope_Handshake \<lparr>Handshake_PublicKey = replicate 32 1\<rparr>))"
    by (rule sample_hello(2))
  ultimately have h: "PerformHandshake proto_codec sample_curve (Inr (replicate 32 2)) True ?cn =
      (Inr \<lparr>conn = ?cn\<lparr>rx := ?rest, tx := tx ?cn @ frame_bytes (sample_hello 2)\<rparr>,
          sendEnc = \<lparr>gcm = aes_NewGCM (SendKey ks), counter = 0\<rparr>,
          recvEnc = \<lparr>gcm = aes_NewGCM (RecvKey ks), counter = 0\<rparr>\<rparr>,
       ?cn\<lparr>rx := ?rest, tx := tx ?cn @ frame_bytes (sample_hello 2)\<rparr>)"
    using ks by (intro PerformHandshake_ok) simp_all
  define S where "S = \<lparr>conn = ?cn\<lparr>rx := ?rest, tx := tx ?cn @ frame_bytes (sample_hello 2)\<rparr>,
      sendEnc = \<lparr>gcm = aes_NewGCM (SendKey ks), counter = 0\<rparr>, recvEnc = \<lparr>gcm = aes_NewGCM (RecvKey ks), counter = 0\<rparr>\<rparr>"
  have "PerformHandshake proto_codec sample_curve (Inr (replicate 32 2)) True ?cn = (Inr S, conn S)"
    using h by (simp add: S_def)
  moreover have "\<not> conn_closed (conn S)" "gcm (recvEnc S) = aes_NewGCM (RecvKey ks)" "counter (recvEnc S) = 0" "rx (conn S) = ?rest"
    by (simp_all add: S_def run_conn_def sample_conn_def)
  ultimately show ?thesis by blast
qed

text \<open>What the client of the run sends.\<close>

abbreviation run_auth :: Envelope where
  "run_auth \<equiv> env (Envelope_Authenticate \<lparr>Authenticate_PassphraseHash = sha256_Sum256 (bytes_of_string ''secret'')\<rparr>)"

abbreviation run_register :: Envelope where
  "run_register \<equiv> env (Envelope_Register \<lparr>Register_ConnectionId = ''web''\<rparr>)"

lemma run_sessions:
  obtains key s s1 s2 where "PerformHandshake proto_codec sample_curve (Inr (replicate 32 2)) True (run_conn key) = (Inr s, conn s)"
    "Receive proto_codec s = (Inr run_auth, s1)" "Receive proto_codec s1 = (Inr run_register, s2)"
proof -
  obtain key s where h: "PerformHandshake proto_codec sample_curve (Inr (replicate 32 2)) True (run_conn key) = (Inr s, conn s)"
    and s: "\<not> conn_closed (conn s)" "gcm (recvEnc s) = aes_NewGCM key" "counter (recvEnc s) = 0"
      "rx (conn s) = wire (aes_NewGCM key) 0 (map proto_payload run_payloads)"
    using run_handshake by blast
  let ?auth = "Envelope_Authenticate \<lparr>Authenticate_PassphraseHash = sha256_Sum256 (bytes_of_string ''secret'')\<rparr>"
  let ?reg = "Envelope_Register \<lparr>Register_ConnectionId = ''web''\<rparr>"
  have len: "sendable ?auth" "sendable ?reg"
    by (simp_all add: sendable_simps)
  define s1 where "s1 = s\<lparr>conn := (conn s)\<lparr>rx := wire (aes_NewGCM key) 1 [proto_payload ?reg]\<rparr>,
      recvEnc := (recvEnc s)\<lparr>counter := 1\<rparr>\<rparr>"
  have rx: "rx (conn s) = wire (aes_NewGCM key) (counter (recvEnc s)) (proto_payload ?auth # [proto_payload ?reg]) @ []"
    unfolding s(3,4) by (simp add: run_payloads_def)
  have r1: "Receive proto_codec s = (Inr run_auth, s1)"
    using Receive_wire [OF s(1,2) rx sendable_fits [OF len(1)] sendable_Unmarshal [OF len(1)]] s(3) by (simp add: s1_def)
  have s1: "\<not> conn_closed (conn s1)" "gcm (recvEnc s1) = aes_NewGCM key" using s by (simp_all add: s1_def)
  have "rx (conn s1) = wire (aes_NewGCM key) (counter (recvEnc s1)) (proto_payload ?reg # []) @ []"
    by (simp add: s1_def)
  from Receive_wire [OF s1 this sendable_fits [OF len(2)] sendable_Unmarshal [OF len(2)]] show thesis using that [OF h r1] by blast
qed

lemma run_start_server:
  "hub (srv run_start) = \<lparr>router = NewRouter, heap = [], now = 0\<rparr>" "connSem (srv run_start) = 0" "accepting (srv run_start)"
  "ipFilter (srv run_start) = None" "geoFilter (srv run_start) = None" "closeCh (srv run_start) = False"
  "passphraseHash (srv run_start) = sha256_Sum256 (bytes_of_string ''secret'')"
proof -
  have "sha256_Sum256 (bytes_of_string ''secret'') \<noteq> []" by (metis length_sha256 list.size(3) zero_neq_numeral)
  then show "hub (srv run_start) = \<lparr>router = NewRouter, heap = [], now = 0\<rparr>" "connSem (srv run_start) = 0" "accepting (srv run_start)"
    "ipFilter (srv run_start) = None" "geoFilter (srv run_start) = None" "closeCh (srv run_start) = False"
    "passphraseHash (srv run_start) = sha256_Sum256 (bytes_of_string ''secret'')"
    by (simp_all add: run_start_def Start_def NewServer_def WithPassphrase_def Let_def)
qed

abbreviation run_hub :: "session \<Rightarrow> hub" where
  "run_hub s \<equiv> \<lparr>router = NewRouter,
     heap = [\<lparr>cc_session = s, remote = ''10.0.0.1:5000'', connectionID = [], lastSeen = 0, cc_done = False\<rparr>], now = 0\<rparr>"

text \<open>A connection is accepted.\<close>

abbreviation run_accepted :: "net_conn \<Rightarrow> broker" where
  "run_accepted cn \<equiv> run_start\<lparr>srv := (srv run_start)\<lparr>connSem := 1\<rparr>, handlers := [Handshaking cn ''10.0.0.1:5000'']\<rparr>"

lemma run_accepts: "broker_step sample_env run_start (run_accepted cn)"
  using accept_spawn [of run_start cn "''10.0.0.1:5000''" cn "(srv run_start)\<lparr>connSem := 1\<rparr>" sample_env] run_start_server
  by (simp add: acceptLoop_round_def ip_blocked_def geo_blocked_def DefaultMaxConnections_def run_start_def)

text \<open>The connection is accepted and the handshake done.\<close>

lemma run_joins:
  obtains b s s1 s2 where "(broker_step sample_env)\<^sup>*\<^sup>* run_start b" "handlers b = [Authenticating 0]" "hub (srv b) = run_hub s"
    "closeCh (srv b) = False" "passphraseHash (srv b) = sha256_Sum256 (bytes_of_string ''secret'')"
    "Receive proto_codec s = (Inr run_auth, s1)" "Receive proto_codec s1 = (Inr run_register, s2)"
proof -
  obtain key s s1 s2 where h: "PerformHandshake proto_codec sample_curve (Inr (replicate 32 2)) True (run_conn key) = (Inr s, conn s)"
    and r: "Receive proto_codec s = (Inr run_auth, s1)" "Receive proto_codec s1 = (Inr run_register, s2)"
    by (rule run_sessions)
  have cd: "env_codec sample_env = proto_codec" "env_curve sample_env = sample_curve" by (simp_all add: sample_env_def)
  note S0 = run_start_server
  define S1 where "S1 = (srv run_start)\<lparr>connSem := 1\<rparr>"
  define b1 where "b1 = run_start\<lparr>srv := S1, handlers := [Handshaking (run_conn key) ''10.0.0.1:5000'']\<rparr>"
  have st1: "broker_step sample_env run_start b1"
    unfolding b1_def S1_def by (rule run_accepts)
  define S2 where "S2 = trackClient (set_hub S1 (run_hub s)) 0"
  define b2 where "b2 = b1\<lparr>srv := S2, handlers := [Authenticating 0]\<rparr>"
  have "new_client sample_env (Inr (replicate 32 2)) True S1 (run_conn key) ''10.0.0.1:5000'' = (Inr 0, conn s, S2)"
    using S0 by (simp add: new_client_def NewClientConn_def cd h S2_def S1_def)
  then have "broker_step sample_env b1 b2"
    using handler [of 0 b1 sample_env "Inr (replicate 32 2)" True "Authenticating 0" S2] by (simp add: b1_def b2_def)
  with st1 have "(broker_step sample_env)\<^sup>*\<^sup>* run_start b2" by (meson rtranclp.rtrancl_into_rtrancl rtranclp.rtrancl_refl)
  moreover have "handlers b2 = [Authenticating 0]" "hub (srv b2) = run_hub s" "closeCh (srv b2) = False"
    "passphraseHash (srv b2) = sha256_Sum256 (bytes_of_string ''secret'')"
    by (simp_all add: b2_def S2_def S1_def trackClient_def S0)
  ultimately show thesis using r by (rule that)
qed

text \<open>The client is authenticated and registered as ''web''.\<close>

lemma run_registers:
  "\<exists>b. (broker_step sample_env)\<^sup>*\<^sup>* run_start b \<and> handlers b = [AckingL 0] \<and> \<not> closeCh (srv b) \<and>
     listeners (router (hub (srv b))) ''web'' = Some 0"
proof -
  obtain b s s1 s2 where b: "(broker_step sample_env)\<^sup>*\<^sup>* run_start b" "handlers b = [Authenticating 0]" "hub (srv b) = run_hub s"
    "closeCh (srv b) = False" "passphraseHash (srv b) = sha256_Sum256 (bytes_of_string ''secret'')"
    and r: "Receive proto_codec s = (Inr run_auth, s1)" "Receive proto_codec s1 = (Inr run_register, s2)" by (rule run_joins)
  have cd: "env_codec sample_env = proto_codec" by (simp add: sample_env_def)
  have q1: "cc_Receive sample_env (hub (srv b)) 0 = (Inr run_auth, run_hub s1)"
    by (simp add: cc_Receive_def cd r(1) b(3) sess_of_def cc_upd_def)
  define S3 where "S3 = set_hub (srv b) (run_hub s1)"
  obtain x S where rx: "authenticateClient sample_env (srv b) 0 = (x, S)" by (cases "authenticateClient sample_env (srv b) 0")
  have "0 < length (heap (hub (srv b)))" by (simp add: b(3))
  with rx have "authenticateClient sample_env (srv b) 0 = (None, S3)"
  proof (cases rule: authenticateClient_cases)
    case (ok e h1)
    then show ?thesis using q1 rx by (simp add: S3_def)
  next
    case (refused err)
    have "GetAuthenticate run_auth = Some \<lparr>Authenticate_PassphraseHash = passphraseHash (srv b)\<rparr>"
      by (simp add: GetAuthenticate_def b(5))
    then show ?thesis using refused(3) [OF q1] by blast
  qed
  then have st3: "broker_step sample_env b (b\<lparr>srv := S3, handlers := [AwaitingRole 0]\<rparr>)"
    using handler [of 0 b sample_env "Inr []" True "AwaitingRole 0" S3] by (simp add: b(2))
  have q2: "cc_Receive sample_env (hub S3) 0 = (Inr run_register, run_hub s2)"
    by (simp add: cc_Receive_def cd r(2) S3_def sess_of_def cc_upd_def)
  define S4 where "S4 = set_hub S3 (run_hub s2)"
  have "first_message sample_env S3 0 = (Listener ''web'', S4)"
    by (simp add: first_message_def q2 GetRegister_def Register_GetConnectionId_def S4_def UpdateLastSeen_def cc_upd_def)
  then have st4: "broker_step sample_env (b\<lparr>srv := S3, handlers := [AwaitingRole 0]\<rparr>) (b\<lparr>srv := S4, handlers := [Registering 0 ''web'']\<rparr>)"
    using handler [of 0 "b\<lparr>srv := S3, handlers := [AwaitingRole 0]\<rparr>" sample_env "Inr []" True "Registering 0 ''web''" S4] by simp
  obtain S5 where S5: "listener_register S4 0 ''web'' = (None, S5)" "listeners (router (hub S5)) ''web'' = Some 0" "\<not> closeCh S5"
    by (simp add: listener_register_def S4_def RegisterListener_def NewRouter_def SetConnectionID_def cc_upd_def S3_def b(4))
  then have "broker_step sample_env (b\<lparr>srv := S4, handlers := [Registering 0 ''web'']\<rparr>) (b\<lparr>srv := S5, handlers := [AckingL 0]\<rparr>)"
    using handler [of 0 "b\<lparr>srv := S4, handlers := [Registering 0 ''web'']\<rparr>" sample_env "Inr []" True "AckingL 0" S5] by simp
  with b(1) st3 st4 have "(broker_step sample_env)\<^sup>*\<^sup>* run_start (b\<lparr>srv := S5, handlers := [AckingL 0]\<rparr>)"
    by (meson rtranclp.rtrancl_into_rtrancl)
  with S5 show ?thesis by (intro exI [of _ "b\<lparr>srv := S5, handlers := [AckingL 0]\<rparr>"]) simp
qed

theorem broker_invariant_witness:
  "\<exists>b. reachable sample_env b \<and> handlers b = [AckingL 0] \<and> connSem (srv b) = 1 \<and> clients (srv b) = {0}"
proof -
  obtain b where b: "(broker_step sample_env)\<^sup>*\<^sup>* run_start b" "handlers b = [AckingL 0]" using run_registers by blast
  then have r: "reachable sample_env b" using run_start_init unfolding reachable_def by blast
  note inv = broker_invariant [OF sample_env_ok this]
  have "connSem (srv b) = 1" using inv by (simp add: b(2))
  moreover have "clients (srv b) = {0}" using inv by (simp add: b(2))
  ultimately show ?thesis using b(2) r by blast
qed

theorem no_stale_routes_witness:
  "\<exists>b. reachable sample_env b \<and> (0 \<in> live (hub (srv b)) \<or> (\<exists>p. CloseRemove 0 p \<in> running b))"
proof -
  obtain b where b: "(broker_step sample_env)\<^sup>*\<^sup>* run_start b" "\<not> closeCh (srv b)"
      "listeners (router (hub (srv b))) ''web'' = Some 0" using run_registers by blast
  then have r: "reachable sample_env b" using run_start_init unfolding reachable_def by blast
  from no_stale_routes [OF sample_env_ok r b(2) disjI1 [OF b(3)]] r show ?thesis by blast
qed

theorem only_authenticated_routed_witness:
  "\<exists>bs before b1 b2 behind. successively (broker_step sample_env) bs \<and> hd bs = run_start \<and> routed (last bs) 0 \<and>
     bs = before @ b1 # b2 # behind \<and> Authenticating 0 \<in> set (handlers b1) \<and> AwaitingRole 0 \<in> set (handlers b2)"
proof -
  obtain b where b: "(broker_step sample_env)\<^sup>*\<^sup>* run_start b" "handlers b = [AckingL 0]" using run_registers by blast
  obtain bs where bs: "successively (broker_step sample_env) bs" "bs \<noteq> []" "hd bs = run_start" "last bs = b"
    by (rule successively_of_rtranclp [OF b(1)])
  have r: "routed (last bs) 0" using b(2) bs(4) by (simp add: routed_def)
  have "broker_init (hd bs)" using run_start_init bs(3) by simp
  from only_authenticated_routed [OF sample_env_ok bs(1,2) this r] obtain before b1 b2 behind i e h where
    t: "bs = before @ b1 # b2 # behind" "i < length (handlers b1)" "handlers b1 ! i = Authenticating 0"
      "b2 = b1\<lparr>srv := set_hub (srv b1) h, handlers := (handlers b1)[i := AwaitingRole 0]\<rparr>" by blast
  have "Authenticating 0 \<in> set (handlers b1)" using t(2,3) by (metis nth_mem)
  moreover have "AwaitingRole 0 \<in> set (handlers b2)" using t(2,4) by (simp add: set_update_memI)
  ultimately show ?thesis using bs r t(1) by blast
qed

end
