(* ===== verification/Broker_Adequacy.thy ===== *)
theory Broker_Adequacy
  imports Broker_Invariant
begin

text \<open>
  A handler on its own. The pieces a handler is cut into for the concurrent broker are the functions of
  \<^verbatim>\<open>server.go\<close>: run without interruption they do exactly what \<^term>\<open>handleClient\<close>, as it is written, does. So such
  a handler comes to an end; what it leaves behind follows from the invariant of the broker and an invariant of its own.
\<close>

definition handler_run :: "broker_env \<Rightarrow> bytes result \<Rightarrow> bool \<Rightarrow> phase \<times> server \<Rightarrow> phase \<times> server \<Rightarrow> bool" where
  "handler_run E rnd sent = (\<lambda>x y. handler_step E rnd sent (fst x) (snd x) = y)\<^sup>*\<^sup>*"

named_theorems run_intros \<open>runs of the parts of a handler\<close>

lemma run_refl [run_intros]: "handler_run E rnd sent x x"
  by (simp add: handler_run_def)

lemma handler_run_step: "handler_step E rnd sent ph s = y \<Longrightarrow> handler_run E rnd sent y z \<Longrightarrow> handler_run E rnd sent (ph, s) z"
  unfolding handler_run_def by (rule converse_rtranclp_into_rtranclp) simp_all

lemma run_trans: "handler_run E rnd sent x y \<Longrightarrow> handler_run E rnd sent y z \<Longrightarrow> handler_run E rnd sent x z"
  unfolding handler_run_def by (rule rtranclp_trans)

lemma run_one: "handler_step E rnd sent ph s = y \<Longrightarrow> handler_run E rnd sent (ph, s) y"
  by (rule handler_run_step [OF _ run_refl])

text \<open>Closing: the pieces of \<^verbatim>\<open>Close\<close>, then the end of the handler.\<close>

lemma run_close_pieces:
  "close_run E n pc (hub s) = (CloseEnd, h') \<Longrightarrow> handler_run E rnd sent (Closing c pc, s) (Untracking c, set_hub s h')"
proof (induction n arbitrary: pc s)
  case 0
  then show ?case by (intro run_one) (simp add: set_hub_def)
next
  case (Suc n)
  obtain pc' h where st: "close_step E pc (hub s) = (pc', h)" by fastforce
  show ?case
  proof (cases "pc = CloseEnd")
    case True
    then have "h = hub s" "pc' = CloseEnd" using st by auto
    then show ?thesis using Suc.IH [of pc' s] Suc.prems st True by simp
  next
    case False
    have "handler_run E rnd sent (Closing c pc', set_hub s h) (Untracking c, set_hub (set_hub s h) h')"
      using Suc.prems st by (intro Suc.IH) simp
    then show ?thesis using False st by (intro handler_run_step [of E rnd sent "Closing c pc" s "(Closing c pc', set_hub s h)"]) simp_all
  qed
qed

lemma run_close [run_intros]:
  "handler_run E rnd sent (Closing c (CloseEnter c), s) (Untracking c, close_client E s c)"
  using close_run_cc_Close [of "hub s" E c] run_close_pieces [of E _ "CloseEnter c" s] by (auto simp: close_client_def)

lemma run_then_close:
  "handler_step E rnd sent ph s = (Closing c (CloseEnter c), s1) \<Longrightarrow> handler_run E rnd sent (ph, s) (Untracking c, close_client E s1 c)"
  by (rule handler_run_step [OF _ run_close])

text \<open>The relay loop.\<close>

lemma run_relay_round:
  assumes "relay_round E s c = (True, s')"
  shows "handler_run E rnd sent (Relaying c, s) (Relaying c, s')"
proof -
  obtain r s1 where r: "relay_receive E s c = (r, s1)" by fastforce
  show ?thesis
  proof (cases r)
    case RelaySkip
    then show ?thesis using assms r by (intro run_one) (simp add: relay_round_def)
  next
    case (RelayForward e)
    then obtain p where p: "GetPeer (router (hub s1)) c = Some p" "relay_send E s1 p e = (None, s')"
      using assms r by (auto simp: relay_round_def split: option.splits prod.splits)
    show ?thesis
      by (rule handler_run_step [of _ _ _ _ _ "(Forwarding c e, s1)"], use r RelayForward in simp,
          rule handler_run_step [of _ _ _ _ _ "(Sending c p e, s1)"], use p in simp, rule run_one, use p in simp)
  qed (use assms r in \<open>simp add: relay_round_def\<close>)
qed

lemma run_relay_end:
  assumes "relay_round E s c = (False, s')"
  shows "handler_run E rnd sent (Relaying c, s) (Untracking c, s')"
proof -
  obtain r s1 where r: "relay_receive E s c = (r, s1)" by fastforce
  show ?thesis
  proof (cases r)
    case RelayFail
    then have "s' = close_client E s1 c" using assms r by (simp add: relay_round_def)
    moreover have "handler_step E rnd sent (Relaying c) s = (Closing c (CloseEnter c), s1)" using r RelayFail by simp
    ultimately show ?thesis using run_then_close by blast
  next
    case (RelayForward e)
    have fwd: "handler_step E rnd sent (Relaying c) s = (Forwarding c e, s1)" using r RelayForward by simp
    show ?thesis
    proof (cases "GetPeer (router (hub s1)) c")
      case None
      then have "s' = close_client E s1 c" using assms r RelayForward by (simp add: relay_round_def)
      moreover have "handler_step E rnd sent (Forwarding c e) s1 = (Closing c (CloseEnter c), s1)" using None by simp
      ultimately show ?thesis using handler_run_step [OF fwd] run_then_close by blast
    next
      case (Some p)
      then obtain err s2 where s2: "relay_send E s1 p e = (Some err, s2)" "s' = close_client E s2 c"
        using assms r RelayForward by (auto simp: relay_round_def split: option.splits prod.splits)
      have "handler_step E rnd sent (Forwarding c e) s1 = (Sending c p e, s1)" using Some by simp
      moreover have "handler_step E rnd sent (Sending c p e) s1 = (Closing c (CloseEnter c), s2)" using s2 by simp
      ultimately show ?thesis unfolding s2(2) by (rule handler_run_step [OF fwd handler_run_step [OF _ run_then_close]])
    qed
  qed (use assms r in \<open>simp add: relay_round_def\<close>)
qed

lemma run_relay [run_intros]:
  "c < length (heap (hub s)) \<Longrightarrow> handler_run E rnd sent (Relaying c, s) (Untracking c, relayMessages E s c)"
proof (induction E s c rule: relayMessages.induct)
  case (1 E s c)
  obtain go s1 where r: "relay_round E s c = (go, s1)" by fastforce
  have eq: "relayMessages E s c = (if go then relayMessages E s1 c else s1)"
    using "1.prems" r by (subst relayMessages.simps) (simp split: bool.split)
  show ?case
  proof (cases go)
    case True
    have "c < length (heap (hub s1))" using relay_round_progress(2) [of E s c s1] r True "1.prems" by simp
    then have "handler_run E rnd sent (Relaying c, s1) (Untracking c, relayMessages E s1 c)"
      using 1 r True by (auto simp: not_le)
    then show ?thesis using run_trans [OF run_relay_round] r True eq by simp
  next
    case False
    then show ?thesis using run_relay_end r eq by simp
  qed
qed

text \<open>The handlers of the two roles, once the client is known.\<close>

lemma run_listener [run_intros]:
  "c < length (heap (hub s)) \<Longrightarrow> handler_run E rnd sent (Registering c i, s) (Untracking c, handleListener E s c i)"
proof -
  assume c: "c < length (heap (hub s))"
  obtain r s1 where r: "listener_register s c i = (r, s1)" by fastforce
  then have l: "length (heap (hub (listener_ack E s1 c))) = length (heap (hub s))"
    by (auto simp: listener_register_def listener_ack_def send_to_def StartHeartbeat_def cc_Send_def Let_def split: prod.splits)
  show ?thesis
  proof (cases r)
    case None
    then have "handleListener E s c i = relayMessages E (listener_ack E s1 c) c" using r by (simp add: handleListener_def)
    moreover have "handler_step E rnd sent (Registering c i) s = (AckingL c, s1)" using r None by simp
    moreover have "handler_run E rnd sent (Relaying c, listener_ack E s1 c) (Untracking c, relayMessages E (listener_ack E s1 c) c)"
      using c l by (intro run_relay) simp
    ultimately show ?thesis using handler_run_step [of E rnd sent "AckingL c" s1] handler_run_step by simp
  next
    case (Some err)
    then have "handleListener E s c i = close_client E (listener_reject E s1 c i) c" using r by (simp add: handleListener_def)
    moreover have "handler_step E rnd sent (Registering c i) s = (RejectingL c i, s1)" using r Some by simp
    ultimately show ?thesis using run_then_close [of E rnd sent "RejectingL c i" s1] handler_run_step by simp
  qed
qed

lemma run_connector [run_intros]:
  "c < length (heap (hub s)) \<Longrightarrow> handler_run E rnd sent (Linking c i, s) (Untracking c, handleConnector E s c i)"
proof -
  assume c: "c < length (heap (hub s))"
  obtain r s1 where r: "connector_link s c i = (r, s1)" by fastforce
  then have l: "length (heap (hub (connector_ack E s1 c))) = length (heap (hub s))"
    by (auto simp: connector_link_def connector_ack_def send_to_def StartHeartbeat_def cc_Send_def Let_def split: prod.splits)
  show ?thesis
  proof (cases r)
    case None
    then have "handleConnector E s c i = relayMessages E (connector_ack E s1 c) c" using r by (simp add: handleConnector_def)
    moreover have "handler_step E rnd sent (Linking c i) s = (AckingC c, s1)" using r None by simp
    moreover have "handler_run E rnd sent (Relaying c, connector_ack E s1 c) (Untracking c, relayMessages E (connector_ack E s1 c) c)"
      using c l by (intro run_relay) simp
    ultimately show ?thesis using handler_run_step [of E rnd sent "AckingC c" s1] handler_run_step by simp
  next
    case (Some err)
    then have "handleConnector E s c i = close_client E (connector_reject E s1 c i) c" using r by (simp add: handleConnector_def)
    moreover have "handler_step E rnd sent (Linking c i) s = (RejectingC c i, s1)" using r Some by simp
    ultimately show ?thesis using run_then_close [of E rnd sent "RejectingC c i" s1] handler_run_step by simp
  qed
qed

lemma run_untrack: "handler_run E rnd sent (Untracking c, s) (Finished, release_slot (untrackClient s c))"
proof -
  have "handler_run E rnd sent (Releasing, untrackClient s c) (Finished, release_slot (untrackClient s c))" by (rule run_one) simp
  then show ?thesis by (rule handler_run_step [rotated]) simp
qed

lemma run_role:
  assumes "c < length (heap (hub s))"
  shows "handler_run E rnd sent (AwaitingRole c, s)
    (Untracking c, case first_message E s c of
       (NoMessage, s3) \<Rightarrow> close_client E s3 c
     | (Listener i, s3) \<Rightarrow> handleListener E s3 c i
     | (Connector i, s3) \<Rightarrow> handleConnector E s3 c i
     | (Unexpected, s3) \<Rightarrow> close_client E (unexpected_reject E s3 c) c)"
proof -
  obtain r s3 where r: "first_message E s c = (r, s3)" by fastforce
  have l: "length (heap (hub s3)) = length (heap (hub s))"
    using r by (auto simp: first_message_def cc_Receive_def Let_def split: prod.splits sum.splits if_splits)
  show ?thesis
  proof (cases r)
    case NoMessage
    then show ?thesis using r run_then_close [of E rnd sent "AwaitingRole c" s] by simp
  next
    case (Listener i)
    have "handler_run E rnd sent (Registering c i, s3) (Untracking c, handleListener E s3 c i)"
      using assms l by (intro run_listener) simp
    then show ?thesis using r Listener handler_run_step [of E rnd sent "AwaitingRole c" s] by simp
  next
    case (Connector i)
    have "handler_run E rnd sent (Linking c i, s3) (Untracking c, handleConnector E s3 c i)"
      using assms l by (intro run_connector) simp
    then show ?thesis using r Connector handler_run_step [of E rnd sent "AwaitingRole c" s] by simp
  next
    case Unexpected
    then show ?thesis using r run_then_close [of E rnd sent "Refusing c" s3] handler_run_step [of E rnd sent "AwaitingRole c" s] by simp
  qed
qed

lemma run_handler:
  "handler_run E rnd sent (Handshaking cn addr, s) (Finished, release_slot (handleClient E rnd sent s cn addr))"
proof -
  obtain r cn' s1 where n: "new_client E rnd sent s cn addr = (r, cn', s1)" by (metis prod_cases3)
  show ?thesis
  proof (cases r)
    case (Inl err)
    then show ?thesis using n handler_run_step [OF _ run_one, of E rnd sent "Handshaking cn addr" s Releasing s1]
      by (simp add: handleClient_def)
  next
    case (Inr c)
    have c: "c < length (heap (hub s1))"
      using n Inr by (auto simp: new_client_def NewClientConn_def trackClient_def split: prod.splits sum.splits)
    obtain a s2 where a: "authenticateClient E s1 c = (a, s2)" by fastforce
    have l: "length (heap (hub s2)) = length (heap (hub s1))"
      using quiet_authenticate [OF a] by (simp add: quiet_def)
    have start: "handler_run E rnd sent (Handshaking cn addr, s) (Authenticating c, s1)" using n Inr by (intro run_one) simp
    show ?thesis
    proof (cases a)
      case (Some err)
      have "handler_run E rnd sent (Authenticating c, s1) (Untracking c, s2)" using a Some by (intro run_one) simp
      then show ?thesis using n Inr a Some run_trans [OF start run_trans [OF _ run_untrack]] by (simp add: handleClient_def)
    next
      case None
      have auth: "handler_run E rnd sent (Authenticating c, s1) (AwaitingRole c, s2)" using a None by (intro run_one) simp
      have "c < length (heap (hub s2))" using c l by simp
      from run_trans [OF start run_trans [OF auth run_trans [OF run_role [OF this] run_untrack]]] show ?thesis
        using n Inr a None by (simp add: handleClient_def split: prod.splits role.splits)
    qed
  qed
qed

subsection \<open>What a handler leaves behind\<close>

text \<open>The client \<open>c\<close> on its way through its handler, as long as nobody else interferes: it is open until the handler
  closes it, and from then on it is closed and the router does not know it.\<close>

definition gone :: "cid \<Rightarrow> hub \<Rightarrow> bool" where
  "gone c h \<longleftrightarrow> conn_closed (conn (sess_of h c)) \<and> \<not> referenced (router h) c"

fun on_track :: "cid \<Rightarrow> phase \<Rightarrow> hub \<Rightarrow> bool" where
  "on_track c (Handshaking _ _) h \<longleftrightarrow> length (heap h) = c \<and> \<not> referenced (router h) c"
| "on_track c (Authenticating d) h \<longleftrightarrow> d = c \<and> c \<in> live h \<and> \<not> referenced (router h) c"
| "on_track c (Closing d pc) h \<longleftrightarrow> d = c \<and> c < length (heap h) \<and>
     (case pc of CloseEnter q \<Rightarrow> q = c \<and> c \<in> live h \<or> gone c h
      | CloseRemove q p \<Rightarrow> q = c \<and> conn_closed (conn (sess_of h c)) \<or> gone c h
      | _ \<Rightarrow> gone c h)"
| "on_track c (Untracking d) h \<longleftrightarrow> d = c \<and> c < length (heap h) \<and> gone c h"
| "on_track c Releasing h \<longleftrightarrow> (c < length (heap h) \<longrightarrow> gone c h)"
| "on_track c Finished h \<longleftrightarrow> (c < length (heap h) \<longrightarrow> gone c h)"
| "on_track c ph h \<longleftrightarrow> owner ph = Some c \<and> c \<in> live h"

text \<open>The pieces of Close never reopen a connection.\<close>

lemma close_step_closed:
  assumes "close_step E pc h = (pc', h')" "c < length (heap h)"
  shows "conn_closed (conn (sess_of h c)) \<Longrightarrow> conn_closed (conn (sess_of h' c))" "length (heap h') = length (heap h)"
proof -
  show l: "length (heap h') = length (heap h)"
    using assms(1) by (cases pc) (auto dest: close_begin_facts(4) split: if_splits prod.splits)
  assume cl: "conn_closed (conn (sess_of h c))"
  show "conn_closed (conn (sess_of h' c))"
  proof (cases pc)
    case (CloseEnter d)
    then have "h' = h \<or> h' = snd (close_begin d h)" using assms(1) by (auto split: if_splits prod.splits)
    then show ?thesis using cl close_begin_heap [OF assms(2), of d] by (auto simp: sess_of_def conn_Close_def)
  next
    case (CloseRemove d p)
    then show ?thesis using assms(1) cl by (auto simp: sess_of_def)
  next
    case (CloseNotify d)
    then have "h' = close_notify E d h" using assms(1) by simp
    moreover have "conn_closed (conn (snd (Send (env_codec E) (sess_of h d) disconnect_env))) = conn_closed (conn (sess_of h d))" for d
      using Send_conn by (cases "Send (env_codec E) (sess_of h d) disconnect_env") auto
    ultimately show ?thesis using cl close_notify_heap [OF assms(2), of E d] by (auto simp: sess_of_def)
  qed (use assms cl in simp)
qed

lemma close_step_gone:
  assumes "order_ok E" "router_inv (router h)" "close_step E pc h = (pc', h')" "c < length (heap h)" "gone c h"
  shows "gone c h'"
  using assms close_step_closed(1) [OF assms(3,4)] close_step_referenced [OF assms(1-3), of c] by (auto simp: gone_def)

lemma close_step_on_track:
  assumes "order_ok E" "router_inv (router h)" "close_step E pc h = (pc', h')" "on_track c (Closing c pc) h"
  shows "on_track c (Closing c pc') h'"
proof -
  have lt: "c < length (heap h)" "c < length (heap h')" using assms(4) close_step_closed(2) [OF assms(3)] by auto
  show ?thesis
  proof (cases "gone c h")
    case True
    then show ?thesis using close_step_gone [OF assms(1-3) lt(1)] lt by (simp split: close_pc.split)
  next
    case False
    then consider "pc = CloseEnter c" "c \<in> live h" | p where "pc = CloseRemove c p" "conn_closed (conn (sess_of h c))"
      using assms(4) by (auto split: close_pc.splits)
    then show ?thesis
    proof cases
      case 1
      then have "h' = snd (close_begin c h)" "\<exists>p. pc' = CloseRemove c p" using assms(3) by (auto simp: Done_live split: prod.splits)
      then show ?thesis using lt close_begin_heap [OF lt(1), of c] by (auto simp: sess_of_def conn_Close_def)
    next
      case 2
      then have h': "h' = close_remove E c h" using assms(3) by simp
      have "\<not> referenced (router h') c" using referenced_remove [OF assms(1,2), of c c] unfolding h' by blast
      moreover have "conn_closed (conn (sess_of h' c))" using 2 unfolding h' by (simp add: sess_of_def)
      ultimately show ?thesis using lt by (auto simp: gone_def split: close_pc.split)
    qed
  qed
qed

lemma live_listener_register: "listener_register s c i = (r, s') \<Longrightarrow> live (hub s') = live (hub s) \<and> length (heap (hub s')) = length (heap (hub s))"
  by (auto simp: listener_register_def Let_def split: prod.splits option.splits)

lemma live_connector_link: "connector_link s c i = (r, s') \<Longrightarrow> live (hub s') = live (hub s) \<and> length (heap (hub s')) = length (heap (hub s))"
  by (auto simp: connector_link_def Let_def split: prod.splits option.splits)

lemma quiet_live: "quiet s s' \<Longrightarrow> live (hub s') = live (hub s) \<and> length (heap (hub s')) = length (heap (hub s)) \<and> router (hub s') = router (hub s)"
  by (simp add: quiet_def)

lemma step_on_track:
  assumes "order_ok E" "router_inv (router (hub s))" "handler_step E rnd sent ph s = (ph', s')" "on_track c ph (hub s)"
    and "length (heap (hub s)) \<le> Suc c"
  shows "on_track c ph' (hub s') \<and> length (heap (hub s')) \<le> Suc c"
proof (cases "quiet_phase ph \<and> ph \<noteq> Authenticating c")
  case True
  then have own: "owner ph = Some c" "c \<in> live (hub s)" using assms(4) by (cases ph; auto)+
  have q: "live (hub s') = live (hub s)" "length (heap (hub s')) = length (heap (hub s))"
    using quiet_step [OF assms(3)] True by (auto simp: quiet_def)
  have "on_track c ph' h" if "c \<in> live h" for h
    using assms(3) own(1) True that live_less [OF that] by (cases ph)
      (auto split: prod.splits option.splits role.splits relay_in.splits)
  then show ?thesis using own(2) q assms(5) by simp
next
  case False
  show ?thesis
  proof (cases ph)
    case (Handshaking cn addr)
    then show ?thesis using assms(3-5)
      by (auto simp: new_client_def NewClientConn_def trackClient_def live_def Done_def split: prod.splits sum.splits)
  next
    case (Authenticating d)
    then have d: "d = c" "c \<in> live (hub s)" "c < length (heap (hub s))" "\<not> referenced (router (hub s)) c"
      using assms(4) live_less by auto
    obtain r s1 where a: "authenticateClient E s c = (r, s1)" by fastforce
    have q: "live (hub s1) = live (hub s)" "length (heap (hub s1)) = length (heap (hub s))" "router (hub s1) = router (hub s)"
      using quiet_authenticate [OF a] by (auto simp: quiet_def)
    from a d(3) show ?thesis
    proof (cases rule: authenticateClient_cases)
      case (ok e h1)
      then show ?thesis using assms(3,5) d q a Authenticating by auto
    next
      case (refused err)
      then show ?thesis using assms(3,5) d q a Authenticating by (auto simp: gone_def)
    qed
  next
    case (Closing d pc)
    show ?thesis
    proof (cases "pc = CloseEnd")
      case True
      then show ?thesis using assms(3-5) Closing by auto
    next
      case False
      obtain pc' h where st: "close_step E pc (hub s) = (pc', h)" by fastforce
      have "d = c" using assms(4) Closing by simp
      then show ?thesis using close_step_on_track [OF assms(1,2) st, of c] close_step_closed(2) [OF st, of c] assms(3-5) Closing st False
        by (auto split: if_splits)
    qed
  qed (use assms(3-5) False live_listener_register [of s] live_connector_link [of s] quiet_live [OF quiet_send_to, of E s] in
      \<open>auto simp: listener_ack_def connector_ack_def StartHeartbeat_def untrackClient_def release_slot_def gone_def
        split: prod.splits option.splits dest: live_less\<close>)
qed


text \<open>One handler, run on its own.\<close>

lemma handler_run_iterate:
  assumes "handler_run E rnd sent x y"
  shows "\<exists>n. ((\<lambda>(ph, s). handler_step E rnd sent ph s) ^^ n) x = y"
  using assms unfolding handler_run_def
proof (induction rule: rtranclp_induct)
  case base
  show ?case by (rule exI [of _ 0]) simp
next
  case (step y z)
  then obtain n where "((\<lambda>(ph, s). handler_step E rnd sent ph s) ^^ n) x = y" by blast
  then have "((\<lambda>(ph, s). handler_step E rnd sent ph s) ^^ Suc n) x = (case y of (ph, s) \<Rightarrow> handler_step E rnd sent ph s)"
    by (simp only: funpow.simps comp_def)
  also have "\<dots> = z" using step.hyps(2) by (simp add: case_prod_beta)
  finally show ?case by blast
qed

abbreviation at_phase :: "broker \<Rightarrow> nat \<Rightarrow> phase \<times> server \<Rightarrow> broker" where
  "at_phase b i x \<equiv> b\<lparr>srv := snd x, handlers := (handlers b)[i := fst x]\<rparr>"

lemma run_on_track:
  assumes "order_ok E" "reachable E b" "i < length (handlers b)" "handlers b ! i = fst x" "srv b = snd x"
    and "on_track c (fst x) (hub (snd x))" "length (heap (hub (snd x))) \<le> Suc c" "handler_run E rnd sent x y"
  shows "reachable E (at_phase b i y) \<and> on_track c (fst y) (hub (snd y)) \<and> length (heap (hub (snd y))) \<le> Suc c"
  using assms(8) unfolding handler_run_def
proof (induction rule: rtranclp_induct)
  case base
  have "at_phase b i x = b" using assms(4,5) by (metis broker.surjective broker.update_convs(1,2) list_update_id)
  then show ?case using assms(2,6,7) by simp
next
  case (step y z)
  then have r: "reachable E (at_phase b i y)" by blast
  have "broker_step E (at_phase b i y) (at_phase (at_phase b i y) i z)"
    using step.hyps(2) assms(3) by (intro broker_step.handler [where rnd = rnd and sent = sent]) simp_all
  then have "reachable E (at_phase b i z)" using r unfolding reachable_def by (auto intro: rtranclp.rtrancl_into_rtrancl)
  moreover have "router_inv (router (hub (snd y)))"
    using reachable_inv [OF assms(1) r] by (simp add: broker_inv_def route_ok_def)
  ultimately show ?case using step_on_track [OF assms(1), of "snd y" rnd sent "fst y" "fst z" "snd z" c] step by simp
qed

text \<open>C6: whatever a client sends and however its connection behaves, the handler of a connection accepted in any reachable
  state comes to an end when nothing interrupts it, and leaves nothing behind: its slot is free again, the tracked clients are
  those of before, and the client is closed and in no registration and no link. A connection whose handshake fails is
  closed and changes nothing else of the hub, and a client that fails authentication never touches the router.\<close>

theorem handler_ends_clean:
  assumes "order_ok E" "reachable E b" "i < length (handlers b)" "handlers b ! i = Handshaking cn addr"
  shows "\<exists>n s'. ((\<lambda>(ph, s). handler_step E rnd sent ph s) ^^ n) (Handshaking cn addr, srv b) = (Finished, s') \<and>
    connSem s' + 1 = connSem (srv b) \<and> clients s' = clients (srv b) \<and>
    length (heap (hub s')) \<le> length (heap (hub (srv b))) + 1 \<and>
    (\<forall>c. length (heap (hub (srv b))) \<le> c \<and> c < length (heap (hub s')) \<longrightarrow>
       conn_closed (conn (sess_of (hub s') c)) \<and> GetPeer (router (hub s')) c = None \<and>
       (\<forall>k. listeners (router (hub s')) k \<noteq> Some c)) \<and>
    (\<forall>err cn' s1. new_client E rnd sent (srv b) cn addr = (Inl err, cn', s1) \<longrightarrow>
       conn_closed cn' \<and> hub s' = hub (srv b)) \<and>
    (\<forall>c cn' s1. new_client E rnd sent (srv b) cn addr = (Inr c, cn', s1) \<and> fst (authenticateClient E s1 c) \<noteq> None \<longrightarrow>
       router (hub s') = router (hub (srv b)))"
proof -
  let ?c = "length (heap (hub (srv b)))" and ?x = "(Handshaking cn addr, srv b)"
  define s' where "s' = release_slot (handleClient E rnd sent (srv b) cn addr)"
  have run: "handler_run E rnd sent ?x (Finished, s')" unfolding s'_def by (rule run_handler)
  then obtain n where n: "((\<lambda>(ph, s). handler_step E rnd sent ph s) ^^ n) ?x = (Finished, s')" using handler_run_iterate by blast
  note inv = reachable_inv [OF assms(1,2)]
  have "\<not> referenced (router (hub (srv b))) ?c" using inv unfolding broker_inv_def route_ok_def exposed_def by blast
  then have r: "reachable E (at_phase b i (Finished, s'))" and t: "on_track ?c Finished (hub s')"
    and l: "length (heap (hub s')) \<le> Suc ?c"
    using run_on_track [OF assms(1-3) _ _ _ _ run, of ?c] assms(4) by auto
  have gone: "conn_closed (conn (sess_of (hub s') c)) \<and> GetPeer (router (hub s')) c = None \<and>
      (\<forall>k. listeners (router (hub s')) k \<noteq> Some c)" if c: "?c \<le> c" "c < length (heap (hub s'))" for c
  proof -
    have "c = ?c" using c l by simp
    then have "gone c (hub s')" using t c by auto
    then show ?thesis unfolding gone_def referenced_def GetPeer_def by (auto simp: ran_def domIff)
  qed
  have own: "own_inv b" "own_inv (at_phase b i (Finished, s'))"
    using inv reachable_inv [OF assms(1) r] by (simp_all add: broker_inv_def)
  obtain Rest where R: "set (handlers b) = insert (handlers b ! i) Rest"
      "set ((handlers b)[i := Finished]) = insert Finished Rest" using set_update_split [OF assms(3)] by metis
  have "clients (srv b) = {d. \<exists>ph\<in>set (handlers b). owner ph = Some d}" using own(1) unfolding own_inv_def by blast
  moreover have "clients s' = {d. \<exists>ph\<in>set ((handlers b)[i := Finished]). owner ph = Some d}" using own(2) unfolding own_inv_def by simp
  ultimately have cl: "clients s' = clients (srv b)" unfolding R assms(4) by simp
  have sem: "connSem s' + 1 = connSem (srv b)"
    using own active_update [OF assms(3), of Finished] assms(4) unfolding own_inv_def by simp
  have nc: "conn_closed cn' \<and> hub s' = hub (srv b)" if "new_client E rnd sent (srv b) cn addr = (Inl err, cn', s1)" for err cn' s1
    using that by (auto simp: s'_def handleClient_def new_client_def NewClientConn_def release_slot_def conn_Close_def
        split: prod.splits sum.splits)
  have ra: "router (hub s') = router (hub (srv b))"
    if nw: "new_client E rnd sent (srv b) cn addr = (Inr c, cn', s1)" "fst (authenticateClient E s1 c) \<noteq> None" for c cn' s1
  proof -
    obtain e s2 where a: "authenticateClient E s1 c = (Some e, s2)" using nw(2) by (cases "authenticateClient E s1 c") auto
    have "router (hub s1) = router (hub (srv b))" using nw(1)
      by (auto simp: new_client_def NewClientConn_def trackClient_def split: prod.splits sum.splits)
    moreover have "hub s' = hub s2" using nw(1) a by (simp add: s'_def handleClient_def release_slot_def untrackClient_def)
    ultimately show ?thesis using authenticateClient_frame [OF a] by simp
  qed
  show ?thesis using n sem cl l gone nc ra by (intro exI [of _ n] exI [of _ s']) auto
qed

theorem handler_ends_clean_witness:
  "\<exists>key b n s'. reachable sample_env b \<and> handlers b = [Handshaking (run_conn key) ''10.0.0.1:5000''] \<and>
     ((\<lambda>(ph, s). handler_step sample_env (Inr (replicate 32 2)) True ph s) ^^ n)
       (Handshaking (run_conn key) ''10.0.0.1:5000'', srv b) = (Finished, s') \<and>
     connSem s' = 0 \<and> clients s' = {} \<and>
     (0 < length (heap (hub s')) \<longrightarrow> conn_closed (conn (sess_of (hub s') 0)) \<and> GetPeer (router (hub s')) 0 = None)"
proof -
  fix key
  define b where "b = run_accepted (run_conn key)"
  have r: "reachable sample_env b"
    unfolding b_def reachable_def using run_start_init run_accepts by (blast intro: r_into_rtranclp)
  have b: "handlers b = [Handshaking (run_conn key) ''10.0.0.1:5000'']" "connSem (srv b) = 1" "heap (hub (srv b)) = []"
    by (simp_all add: b_def run_start_server)
  have c: "clients (srv b) = {}"
    using reachable_inv [OF sample_env_ok r] by (simp add: broker_inv_def own_inv_def b(1))
  have "0 < length (handlers b)" "handlers b ! 0 = Handshaking (run_conn key) ''10.0.0.1:5000''" by (simp_all add: b(1))
  from handler_ends_clean [OF sample_env_ok r this, of "Inr (replicate 32 2)" True] obtain n s' where
    s': "((\<lambda>(ph, s). handler_step sample_env (Inr (replicate 32 2)) True ph s) ^^ n)
       (Handshaking (run_conn key) ''10.0.0.1:5000'', srv b) = (Finished, s')" "connSem s' + 1 = connSem (srv b)"
      "clients s' = clients (srv b)"
      "\<forall>c. length (heap (hub (srv b))) \<le> c \<and> c < length (heap (hub s')) \<longrightarrow>
         conn_closed (conn (sess_of (hub s') c)) \<and> GetPeer (router (hub s')) c = None \<and>
         (\<forall>k. listeners (router (hub s')) k \<noteq> Some c)"
    by blast
  then have "connSem s' = 0" "clients s' = {}" "0 < length (heap (hub s')) \<longrightarrow> conn_closed (conn (sess_of (hub s') 0)) \<and> GetPeer (router (hub s')) 0 = None"
    using b c by simp_all
  with r b(1) s'(1) show ?thesis by blast
qed

end
