(* ===== verification/Login.thy ===== *)
theory Login
  imports Tunnel_EndToEnd Broker_Adequacy
begin

text \<open>
  How a client and the broker get to know each other: \<^term>\<open>Listener_Start\<close> and \<^term>\<open>Connector_Start\<close> on one
  side, the handler goroutine of the broker on the other. The two run at the same time and wait for each other's messages, so they are
  put together by their bytes: each reads exactly what the other one writes.
\<close>

text \<open>Two private keys that agree on a secret, and the encodings of the two handshake messages.\<close>

definition keys_agree :: "codec \<Rightarrow> curve \<Rightarrow> bytes \<Rightarrow> bytes \<Rightarrow> bytes \<Rightarrow> bytes \<Rightarrow> bool" where
  "keys_agree cd cv privA privB da db \<longleftrightarrow>
     codec_ok cd \<and> length (public_of cv privA) = 32 \<and> length (public_of cv privB) = 32 \<and>
     public_of cv privA \<noteq> public_of cv privB \<and>
     (\<exists>secret. ECDH cv privA (public_of cv privB) = Inr secret \<and> ECDH cv privB (public_of cv privA) = Inr secret) \<and>
     Marshal cd (handshake_env \<lparr>PrivateKey = privA, PublicKey = public_of cv privA\<rparr>) = Inr da \<and>
     Marshal cd (handshake_env \<lparr>PrivateKey = privB, PublicKey = public_of cv privB\<rparr>) = Inr db \<and>
     length da \<le> MaxFrameSize \<and> length db \<le> MaxFrameSize"

text \<open>A session after \<open>n\<close> messages sent and \<open>m\<close> received, with nothing left to read.\<close>

definition session_at :: "net_conn \<Rightarrow> bytes \<Rightarrow> bytes \<Rightarrow> bytes \<Rightarrow> bytes \<Rightarrow> u64 \<Rightarrow> u64 \<Rightarrow> session" where
  "session_at cn inp out sk rk n m =
     \<lparr>conn = cn\<lparr>rx := inp, tx := out\<rparr>, sendEnc = \<lparr>gcm = aes_NewGCM sk, counter = n\<rparr>, recvEnc = \<lparr>gcm = aes_NewGCM rk, counter = m\<rparr>\<rparr>"

lemma session_at_sel [simp]:
  "conn (session_at cn inp out sk rk n m) = cn\<lparr>rx := inp, tx := out\<rparr>"
  "sendEnc (session_at cn inp out sk rk n m) = \<lparr>gcm = aes_NewGCM sk, counter = n\<rparr>"
  "recvEnc (session_at cn inp out sk rk n m) = \<lparr>gcm = aes_NewGCM rk, counter = m\<rparr>"
  by (simp_all add: session_at_def)

lemma keys_agree_meet:
  assumes "keys_agree cd cv privA privB da db"
  obtains sk rk where
    "\<And>cn rest sent. healthy cn \<Longrightarrow> rx cn = frame_bytes db @ rest \<Longrightarrow> PerformHandshake cd cv (Inr privA) sent cn =
      (Inr (session_at cn rest (tx cn @ frame_bytes da) sk rk 0 0), cn\<lparr>rx := rest, tx := tx cn @ frame_bytes da\<rparr>)"
    "\<And>cn rest sent. healthy cn \<Longrightarrow> rx cn = frame_bytes da @ rest \<Longrightarrow> PerformHandshake cd cv (Inr privB) sent cn =
      (Inr (session_at cn rest (tx cn @ frame_bytes db) rk sk 0 0), cn\<lparr>rx := rest, tx := tx cn @ frame_bytes db\<rparr>)"
proof -
  let ?A = "\<lparr>PrivateKey = privA, PublicKey = public_of cv privA\<rparr>"
  let ?B = "\<lparr>PrivateKey = privB, PublicKey = public_of cv privB\<rparr>"
  note a = assms [unfolded keys_agree_def]
  obtain ka kb where keys: "DeriveDirectionalKeys cv ?A (public_of cv privB) = Inr ka"
      "DeriveDirectionalKeys cv ?B (public_of cv privA) = Inr kb" "SendKey ka = RecvKey kb" "RecvKey ka = SendKey kb"
    using DeriveDirectionalKeys_mirror [of ?A ?B cv] a by auto
  have ua: "Unmarshal cd db = Inr (env (Envelope_Handshake \<lparr>Handshake_PublicKey = public_of cv privB\<rparr>))"
    and ub: "Unmarshal cd da = Inr (env (Envelope_Handshake \<lparr>Handshake_PublicKey = public_of cv privA\<rparr>))"
    using codec_okD [of cd] a by (simp_all add: handshake_env_def PublicKeyBytes_def)
  show thesis
  proof (rule that [of "SendKey ka" "RecvKey ka"])
    fix cn :: net_conn and rest sent assume "healthy cn" "rx cn = frame_bytes db @ rest"
    then show "PerformHandshake cd cv (Inr privA) sent cn =
      (Inr (session_at cn rest (tx cn @ frame_bytes da) (SendKey ka) (RecvKey ka) 0 0), cn\<lparr>rx := rest, tx := tx cn @ frame_bytes da\<rparr>)"
      using PerformHandshake_ok [OF _ _ refl _ _ _ ua keys(1)] a unfolding session_at_def by blast
  next
    fix cn :: net_conn and rest sent assume "healthy cn" "rx cn = frame_bytes da @ rest"
    then show "PerformHandshake cd cv (Inr privB) sent cn =
      (Inr (session_at cn rest (tx cn @ frame_bytes db) (RecvKey ka) (SendKey ka) 0 0), cn\<lparr>rx := rest, tx := tx cn @ frame_bytes db\<rparr>)"
      using PerformHandshake_ok [OF _ _ refl _ _ _ ub keys(2)] a keys(3,4) unfolding session_at_def by metis
  qed
qed

lemma Send_at:
  assumes "healthy cn" "Marshal cd e = Inr d" "length d \<le> max_plaintext"
  shows "Send cd (session_at cn inp out sk rk n m) e = (None, session_at cn inp (out @ wire (aes_NewGCM sk) n [d]) sk rk (n + 1) m)"
  using Send_healthy [of "session_at cn inp out sk rk n m" cd e d sk] assms by (simp add: healthy_def session_at_def)

lemma ReceiveRaw_at:
  assumes "healthy cn" "codec_ok cd" "Marshal cd e = Inr d" "length d \<le> max_plaintext"
  shows "\<exists>raw. ReceiveRaw cd (session_at cn (wire (aes_NewGCM rk) m (d # ds)) out sk rk n m) =
    (raw, Inr e, session_at cn (wire (aes_NewGCM rk) (m + 1) ds) out sk rk n (m + 1))"
proof -
  have "Receive cd (session_at cn (wire (aes_NewGCM rk) m (d # ds)) out sk rk n m) =
    (Inr e, session_at cn (wire (aes_NewGCM rk) (m + 1) ds) out sk rk n (m + 1))"
    using Receive_wire [of "session_at cn (wire (aes_NewGCM rk) m (d # ds)) out sk rk n m" rk d ds "[]" cd e]
      assms codec_okD [OF assms(2,3)] by (simp add: healthy_def session_at_def del: wire.simps)
  then show ?thesis by (auto simp: Receive_def split: prod.splits)
qed

lemma Receive_at:
  assumes "healthy cn" "codec_ok cd" "Marshal cd e = Inr d" "length d \<le> max_plaintext"
  shows "Receive cd (session_at cn (wire (aes_NewGCM rk) m (d # ds)) out sk rk n m) =
    (Inr e, session_at cn (wire (aes_NewGCM rk) (m + 1) ds) out sk rk n (m + 1))"
  using ReceiveRaw_at [OF assms, of rk m ds out sk n] by (auto simp: Receive_def)

subsection \<open>The broker's side\<close>

definition fresh_client :: "server \<Rightarrow> session \<Rightarrow> string \<Rightarrow> string \<Rightarrow> client_conn" where
  "fresh_client s x addr i = \<lparr>cc_session = x, remote = addr, connectionID = i, lastSeen = now (hub s), cc_done = False\<rparr>"

text \<open>The server with one more client.\<close>

definition joined :: "server \<Rightarrow> session \<Rightarrow> string \<Rightarrow> string \<Rightarrow> server" where
  "joined s x addr i = s\<lparr>clients := insert (length (heap (hub s))) (clients s),
     hub := (hub s)\<lparr>heap := heap (hub s) @ [fresh_client s x addr i]\<rparr>\<rparr>"

lemma joined_sel [simp]:
  "sess_of (hub (joined s x addr i)) (length (heap (hub s))) = x" "router (hub (joined s x addr i)) = router (hub s)"
  "now (hub (joined s x addr i)) = now (hub s)" "passphraseHash (joined s x addr i) = passphraseHash s"
  "length (heap (hub (joined s x addr i))) = Suc (length (heap (hub s)))" "beats (joined s x addr i) = beats s"
  by (simp_all add: joined_def sess_of_def fresh_client_def)

lemma joined_seen: "UpdateLastSeen (length (heap (hub s))) (hub (joined s x addr i)) = hub (joined s x addr i)"
  by (simp add: UpdateLastSeen_def joined_def cc_upd_def fresh_client_def)

lemma joined_receive:
  assumes "Receive (env_codec E) x = (r, x')"
  shows "cc_Receive E (hub (joined s x addr i)) (length (heap (hub s))) = (r, hub (joined s x' addr i))"
  using assms by (simp add: cc_Receive_def) (simp add: joined_def cc_upd_def fresh_client_def)

lemma joined_send:
  assumes "Send (env_codec E) x e = (r, x')"
  shows "send_to E (joined s x addr i) (length (heap (hub s))) e = joined s x' addr i"
  using assms by (simp add: send_to_def cc_Send_def) (simp add: joined_def cc_upd_def set_hub_def fresh_client_def)

lemma joined_new:
  assumes "PerformHandshake (env_codec E) (env_curve E) rnd sent bn = (Inr x, cn')"
  shows "new_client E rnd sent s bn addr = (Inr (length (heap (hub s))), cn', joined s x addr [])"
  using assms by (simp add: new_client_def NewClientConn_def trackClient_def set_hub_def joined_def fresh_client_def)

lemma joined_authenticate:
  assumes "ReceiveRaw (env_codec E) x = (raw, Inr (auth_env pw), x')" "\<not> conn_closed (conn x)" "\<not> conn_closed (conn x')"
    and "passphraseHash s = sha256_Sum256 (bytes_of_string pw)"
  shows "authenticateClient E (joined s x addr []) (length (heap (hub s))) = (None, joined s x' addr [])"
proof -
  let ?c = "length (heap (hub s))"
  have r: "cc_ReceiveRaw E (hub (joined s x addr [])) ?c = (raw, Inr (auth_env pw), hub (joined s x' addr []))"
    using assms(1) by (simp add: cc_ReceiveRaw_def) (simp add: joined_def cc_upd_def fresh_client_def)
  have h: "set_hub (joined s x addr []) (hub (joined s x' addr [])) = joined s x' addr []"
    by (simp add: joined_def set_hub_def)
  show ?thesis
    using assms(2-4)
    by (simp add: authenticateClient_def conn_SetReadDeadline_def r h Let_def auth_env_def getter_defs Authenticate_GetPassphraseHash_def)
qed

lemma joined_first:
  assumes "Receive (env_codec E) x = (Inr e, x')"
  shows "first_message E (joined s x addr []) (length (heap (hub s))) =
    (if GetRegister e \<noteq> None then Listener (Register_GetConnectionId (GetRegister e))
     else if GetConnectRequest e \<noteq> None then Connector (ConnectRequest_GetConnectionId (GetConnectRequest e)) else Unexpected,
     joined s x' addr [])"
proof -
  have "set_hub (joined s x addr []) (hub (joined s x' addr [])) = joined s x' addr []" by (simp add: joined_def set_hub_def)
  then show ?thesis using joined_receive [OF assms] by (simp add: first_message_def Let_def joined_seen)
qed

lemma joined_id:
  "set_hub (joined s x addr []) (SetConnectionID (length (heap (hub s))) i (hub (joined s x addr []))) = joined s x addr i"
  by (simp add: joined_def SetConnectionID_def cc_upd_def set_hub_def fresh_client_def)

definition set_router :: "server \<Rightarrow> router \<Rightarrow> server" where
  "set_router s r = set_hub s ((hub s)\<lparr>router := r\<rparr>)"

lemma joined_router:
  "set_hub (joined s x addr []) ((SetConnectionID (length (heap (hub s))) i (hub (joined s x addr [])))\<lparr>router := r\<rparr>) =
     joined (set_router s r) x addr i"
  by (simp add: joined_def SetConnectionID_def cc_upd_def set_hub_def set_router_def fresh_client_def)

text \<open>From the accepted connection to the role of the client, when the passphrase is right.\<close>

lemma broker_greets:
  assumes hs: "\<And>cn rest sent. healthy cn \<Longrightarrow> rx cn = frame_bytes da @ rest \<Longrightarrow>
      PerformHandshake (env_codec E) (env_curve E) (Inr privB) sent cn =
        (Inr (session_at cn rest (tx cn @ frame_bytes db) rk sk 0 0), cn\<lparr>rx := rest, tx := tx cn @ frame_bytes db\<rparr>)"
    and "healthy bn" "tx bn = []" "codec_ok (env_codec E)" "Marshal (env_codec E) (auth_env pw) = Inr d1" "length d1 \<le> max_plaintext"
      "Marshal (env_codec E) m = Inr d2" "length d2 \<le> max_plaintext" "passphraseHash s = sha256_Sum256 (bytes_of_string pw)"
    and x: "x = session_at bn [] (frame_bytes db) rk sk 0 2"
  shows "handler_run E (Inr privB) sent (Handshaking (bn\<lparr>rx := frame_bytes da @ wire (aes_NewGCM sk) 0 [d1, d2]\<rparr>) addr, s)
    (AwaitingRole (length (heap (hub s))), joined s (session_at bn (wire (aes_NewGCM sk) 1 [d2]) (frame_bytes db) rk sk 0 1) addr [])"
    and "first_message E (joined s (session_at bn (wire (aes_NewGCM sk) 1 [d2]) (frame_bytes db) rk sk 0 1) addr []) (length (heap (hub s))) =
      (if GetRegister m \<noteq> None then Listener (Register_GetConnectionId (GetRegister m))
       else if GetConnectRequest m \<noteq> None then Connector (ConnectRequest_GetConnectionId (GetConnectRequest m)) else Unexpected,
       joined s x addr [])"
proof -
  let ?bn = "bn\<lparr>rx := frame_bytes da @ wire (aes_NewGCM sk) 0 [d1, d2]\<rparr>"
  let ?x0 = "session_at bn (wire (aes_NewGCM sk) 0 [d1, d2]) (frame_bytes db) rk sk 0 0"
  let ?x1 = "session_at bn (wire (aes_NewGCM sk) 1 [d2]) (frame_bytes db) rk sk 0 1"
  have "session_at ?bn (wire (aes_NewGCM sk) 0 [d1, d2]) (frame_bytes db) rk sk 0 0 = ?x0" by (simp add: session_at_def)
  then have "new_client E (Inr privB) sent s ?bn addr =
      (Inr (length (heap (hub s))), bn\<lparr>rx := wire (aes_NewGCM sk) 0 [d1, d2], tx := frame_bytes db\<rparr>, joined s ?x0 addr [])"
    using hs [of ?bn "wire (aes_NewGCM sk) 0 [d1, d2]" sent] assms(2,3) by (intro joined_new) (simp add: healthy_def)
  then have 1: "handler_step E (Inr privB) sent (Handshaking ?bn addr) s = (Authenticating (length (heap (hub s))), joined s ?x0 addr [])" by simp
  obtain raw where "ReceiveRaw (env_codec E) ?x0 = (raw, Inr (auth_env pw), ?x1)"
    using ReceiveRaw_at [OF assms(2,4,5,6), of sk 0 "[d2]" "frame_bytes db" rk 0] by auto
  then have 2: "authenticateClient E (joined s ?x0 addr []) (length (heap (hub s))) = (None, joined s ?x1 addr [])"
    using assms(2,9) by (intro joined_authenticate) (simp_all add: healthy_def)
  show "handler_run E (Inr privB) sent (Handshaking ?bn addr, s) (AwaitingRole (length (heap (hub s))), joined s ?x1 addr [])"
    by (rule handler_run_step [OF 1 run_one]) (simp add: 2 del: wire.simps)
  have "Receive (env_codec E) ?x1 = (Inr m, x)"
    using Receive_at [OF assms(2,4,7,8), of sk 1 "[]" "frame_bytes db" rk 0] by (simp add: x)
  then show "first_message E (joined s ?x1 addr []) (length (heap (hub s))) =
      (if GetRegister m \<noteq> None then Listener (Register_GetConnectionId (GetRegister m))
       else if GetConnectRequest m \<noteq> None then Connector (ConnectRequest_GetConnectionId (GetConnectRequest m)) else Unexpected,
       joined s x addr [])"
    by (rule joined_first)
qed

text \<open>The rest of a handler's start: registering, or linking, and the acknowledgement.\<close>

lemma broker_registers:
  assumes "Send (env_codec E) x (register_ack True) = (None, x')" "listeners (router (hub s)) i = None" "c = length (heap (hub s))"
    and "r = (router (hub s))\<lparr>listeners := (listeners (router (hub s)))(i \<mapsto> c)\<rparr>"
  shows "handler_run E rnd sent (Registering c i, joined s x addr []) (Relaying c, StartHeartbeat (joined (set_router s r) x' addr i) c)"
proof -
  have n: "length (heap (hub (set_router s r))) = c" by (simp add: set_router_def assms(3))
  have "SetConnectionID c i (hub (joined s x addr [])) = SetConnectionID (length (heap (hub s))) i (hub (joined s x addr []))"
    by (simp add: assms(3))
  then have "listener_register (joined s x addr []) c i = (None, joined (set_router s r) x addr i)"
    using assms(2,4) joined_router [of s x addr r i] by (simp add: listener_register_def RegisterListener_def Let_def)
  then have 1: "handler_step E rnd sent (Registering c i) (joined s x addr []) = (AckingL c, joined (set_router s r) x addr i)" by simp
  from joined_send [OF assms(1), of "set_router s r" addr i]
  have "listener_ack E (joined (set_router s r) x addr i) c = StartHeartbeat (joined (set_router s r) x' addr i) c"
    by (simp add: listener_ack_def n)
  then show ?thesis by (intro handler_run_step [OF 1] run_one) simp
qed

lemma broker_links:
  assumes "Send (env_codec E) x (connect_ack True) = (None, x')" "listeners (router (hub s)) i = Some y" "peers (router (hub s)) y = None"
    and "c = length (heap (hub s))" "r = (router (hub s))\<lparr>peers := (peers (router (hub s)))(y \<mapsto> c, c \<mapsto> y)\<rparr>"
  shows "handler_run E rnd sent (Linking c i, joined s x addr []) (Relaying c, StartHeartbeat (joined (set_router s r) x' addr i) c)"
proof -
  have n: "length (heap (hub (set_router s r))) = c" by (simp add: set_router_def assms(4))
  have "SetConnectionID c i (hub (joined s x addr [])) = SetConnectionID (length (heap (hub s))) i (hub (joined s x addr []))"
    by (simp add: assms(4))
  then have "connector_link (joined s x addr []) c i = (None, joined (set_router s r) x addr i)"
    using assms(2,3,5) joined_router [of s x addr r i] by (simp add: connector_link_def LinkConnector_def Let_def)
  then have 1: "handler_step E rnd sent (Linking c i) (joined s x addr []) = (AckingC c, joined (set_router s r) x addr i)" by simp
  from joined_send [OF assms(1), of "set_router s r" addr i]
  have "connector_ack E (joined (set_router s r) x addr i) c = StartHeartbeat (joined (set_router s r) x' addr i) c"
    by (simp add: connector_ack_def n)
  then show ?thesis by (intro handler_run_step [OF 1] run_one) simp
qed

subsection \<open>The client's side\<close>

lemma client_greets:
  assumes "healthy cn" "codec_ok cd" "Marshal cd m1 = Inr d1" "length d1 \<le> max_plaintext" "Marshal cd m2 = Inr d2" "length d2 \<le> max_plaintext"
    "Marshal cd ack = Inr dk" "length dk \<le> max_plaintext"
  shows "Send cd (session_at cn (wire (aes_NewGCM rk) 0 [dk]) out sk rk 0 0) m1 =
      (None, session_at cn (wire (aes_NewGCM rk) 0 [dk]) (out @ wire (aes_NewGCM sk) 0 [d1]) sk rk 1 0)"
    "Send cd (session_at cn (wire (aes_NewGCM rk) 0 [dk]) (out @ wire (aes_NewGCM sk) 0 [d1]) sk rk 1 0) m2 =
      (None, session_at cn (wire (aes_NewGCM rk) 0 [dk]) (out @ wire (aes_NewGCM sk) 0 [d1, d2]) sk rk 2 0)"
    "Receive cd (session_at cn (wire (aes_NewGCM rk) 0 [dk]) (out @ wire (aes_NewGCM sk) 0 [d1, d2]) sk rk 2 0) =
      (Inr ack, session_at cn [] (out @ wire (aes_NewGCM sk) 0 [d1, d2]) sk rk 2 1)"
  using Send_at [OF assms(1,3,4), of "wire (aes_NewGCM rk) 0 [dk]" out sk rk 0 0]
    Send_at [OF assms(1,5,6), of "wire (aes_NewGCM rk) 0 [dk]" "out @ wire (aes_NewGCM sk) 0 [d1]" sk rk 1 0]
    Receive_at [OF assms(1,2,7,8), of rk 0 "[]" "out @ wire (aes_NewGCM sk) 0 [d1, d2]" sk 2]
  by simp_all

subsection \<open>The login of a listener and of a connector\<close>

text \<open>What has been written is delivered: nothing is under way any more.\<close>

definition delivered :: "session \<Rightarrow> session" where
  "delivered x = x\<lparr>conn := (conn x)\<lparr>tx := []\<rparr>\<rparr>"

definition l_settle :: "listener \<Rightarrow> listener" where
  "l_settle l = l\<lparr>l_session := map_option delivered (l_session l)\<rparr>"

definition c_settle :: "connector \<Rightarrow> connector" where
  "c_settle c = c\<lparr>c_session := map_option delivered (c_session c)\<rparr>"

definition settle :: "cid \<Rightarrow> server \<Rightarrow> server" where
  "settle c s = set_hub s (cc_upd c (\<lambda>z. z\<lparr>cc_session := delivered (cc_session z)\<rparr>) (hub s))"

text \<open>Two sessions on working connections, in step in both directions, with nothing under way.\<close>

definition talking :: "codec \<Rightarrow> session \<Rightarrow> session \<Rightarrow> bool" where
  "talking cd a b \<longleftrightarrow> healthy (conn a) \<and> healthy (conn b) \<and>
     in_sync (cd, a, b) \<and> in_flight (cd, a, b) = [] \<and> in_sync (cd, b, a) \<and> in_flight (cd, b, a) = []"

text \<open>
  A client and the broker run against each other: the client reads \<open>down\<close> and writes \<open>up\<close>, the handler the other
  way round, until it relays. \<open>l'\<close> and \<open>s'\<close> are the two sides when all that has been delivered.
\<close>

definition listener_logs_in ::
  "tunnel_env \<Rightarrow> broker_env \<Rightarrow> bytes \<Rightarrow> bytes \<Rightarrow> bool \<Rightarrow> bool \<Rightarrow> net_conn \<Rightarrow> net_conn \<Rightarrow> string \<Rightarrow> listener \<Rightarrow> server \<Rightarrow>
     listener \<Rightarrow> cid \<Rightarrow> server \<Rightarrow> bool" where
  "listener_logs_in E B privA privB sentA sentB cn bn addr l s l' c s' \<longleftrightarrow>
     (\<exists>up down cl l1 s1.
        Listener_Start E (\<lambda>_. Inr (cn\<lparr>rx := down\<rparr>)) (Inr privA) sentA l = (None, Some cl, l1) \<and> tx cl = up \<and>
        handler_run B (Inr privB) sentB (Handshaking (bn\<lparr>rx := up\<rparr>) addr, s) (Relaying c, s1) \<and> tx (conn (sess_of (hub s1) c)) = down \<and>
        l' = l_settle l1 \<and> s' = settle c s1)"

definition connector_logs_in ::
  "tunnel_env \<Rightarrow> broker_env \<Rightarrow> bytes \<Rightarrow> bytes \<Rightarrow> bool \<Rightarrow> bool \<Rightarrow> net_conn \<Rightarrow> net_conn \<Rightarrow> string \<Rightarrow> (string \<Rightarrow> error option) \<Rightarrow> connector \<Rightarrow> server \<Rightarrow>
     connector \<Rightarrow> cid \<Rightarrow> server \<Rightarrow> bool" where
  "connector_logs_in E B privA privB sentA sentB cn bn addr listen k s k' c s' \<longleftrightarrow>
     (\<exists>up down cl k1 s1.
        Connector_Start E (\<lambda>_. Inr (cn\<lparr>rx := down\<rparr>)) listen (Inr privA) sentA k = (None, Some cl, k1) \<and> tx cl = up \<and>
        handler_run B (Inr privB) sentB (Handshaking (bn\<lparr>rx := up\<rparr>) addr, s) (Relaying c, s1) \<and> tx (conn (sess_of (hub s1) c)) = down \<and>
        k' = c_settle k1 \<and> s' = settle c s1)"

text \<open>What both sides need for it: keys, codec, working connections, messages that fit, and the right passphrase.\<close>

definition can_meet :: "tunnel_env \<Rightarrow> broker_env \<Rightarrow> bytes \<Rightarrow> bytes \<Rightarrow> net_conn \<Rightarrow> net_conn \<Rightarrow> string \<Rightarrow> Envelope \<Rightarrow> bool" where
  "can_meet E B privA privB cn bn pw m \<longleftrightarrow>
     (\<exists>da db. keys_agree (te_codec E) (te_curve E) privA privB da db) \<and>
     env_codec B = te_codec E \<and> env_curve B = te_curve E \<and>
     healthy cn \<and> healthy bn \<and> tx cn = [] \<and> tx bn = [] \<and>
     fits (te_codec E) (auth_env pw) \<and> fits (te_codec E) m"

definition can_login :: "tunnel_env \<Rightarrow> broker_env \<Rightarrow> bytes \<Rightarrow> bytes \<Rightarrow> net_conn \<Rightarrow> net_conn \<Rightarrow> string \<Rightarrow> server \<Rightarrow> Envelope \<Rightarrow> Envelope \<Rightarrow> bool" where
  "can_login E B privA privB cn bn pw s m ack \<longleftrightarrow>
     can_meet E B privA privB cn bn pw m \<and> fits (te_codec E) ack \<and> passphraseHash s = sha256_Sum256 (bytes_of_string pw)"

lemma session_at_talking:
  assumes "codec_ok cd" "healthy cn" "healthy bn"
  shows "talking cd (session_at cn [] [] sk rk n m) (session_at bn [] [] rk sk m n)"
proof -
  note sub = in_sync_fresh [OF assms(1)] and h = assms(2,3) [unfolded healthy_def]
  have "in_sync (cd, session_at cn [] [] sk rk n m, session_at bn [] [] rk sk m n)" "in_flight (cd, session_at cn [] [] sk rk n m, session_at bn [] [] rk sk m n) = []"
    by (rule sub [where key = sk]; simp add: h)+
  moreover have "in_sync (cd, session_at bn [] [] rk sk m n, session_at cn [] [] sk rk n m)" "in_flight (cd, session_at bn [] [] rk sk m n, session_at cn [] [] sk rk n m) = []"
    by (rule sub [where key = rk]; simp add: h)+
  ultimately show ?thesis using assms(2,3) by (simp add: talking_def healthy_def)
qed

lemma delivered_at [simp]: "delivered (session_at cn inp out sk rk n m) = session_at cn inp [] sk rk n m"
  by (simp add: delivered_def session_at_def)

lemma settle_joined:
  "settle (length (heap (hub s))) (StartHeartbeat (joined s x addr i) c) = StartHeartbeat (joined s (delivered x) addr i) c"
  by (simp add: settle_def StartHeartbeat_def joined_def set_hub_def cc_upd_def fresh_client_def)

abbreviation register_env :: "string \<Rightarrow> Envelope" where
  "register_env i \<equiv> env (Envelope_Register \<lparr>Register_ConnectionId = i\<rparr>)"

abbreviation request_env :: "string \<Rightarrow> Envelope" where
  "request_env i \<equiv> env (Envelope_ConnectRequest \<lparr>ConnectRequest_ConnectionId = i\<rparr>)"

text \<open>The two sides of a login, up to the role of the client.\<close>

lemma login_meets:
  assumes can: "can_login E B privA privB cn bn pw s m ack" and c: "c = length (heap (hub s))"
  obtains up down a0 a1 a2 a3 b1 b2 b3 cn' where
    "PerformHandshake (te_codec E) (te_curve E) (Inr privA) sentA (cn\<lparr>rx := down\<rparr>) = (Inr a0, cn')"
    "Send (te_codec E) a0 (auth_env pw) = (None, a1)" "Send (te_codec E) a1 m = (None, a2)" "Receive (te_codec E) a2 = (Inr ack, a3)"
    "handler_run B (Inr privB) sentB (Handshaking (bn\<lparr>rx := up\<rparr>) addr, s) (AwaitingRole c, joined s b1 addr [])"
    "first_message B (joined s b1 addr []) c =
      (if GetRegister m \<noteq> None then Listener (Register_GetConnectionId (GetRegister m))
       else if GetConnectRequest m \<noteq> None then Connector (ConnectRequest_GetConnectionId (GetConnectRequest m)) else Unexpected,
       joined s b2 addr [])"
    "Send (env_codec B) b2 ack = (None, b3)" "tx (conn a3) = up" "tx (conn b3) = down" "talking (te_codec E) (delivered a3) (delivered b3)"
proof -
  let ?cd = "te_codec E"
  note can = can [unfolded can_login_def can_meet_def fits_def]
  obtain da db where ka: "keys_agree ?cd (te_curve E) privA privB da db" using can by blast
  have ok: "codec_ok ?cd" using ka by (simp add: keys_agree_def)
  obtain d1 d2 dk where d: "Marshal ?cd (auth_env pw) = Inr d1" "length d1 \<le> max_plaintext" "Marshal ?cd m = Inr d2"
      "length d2 \<le> max_plaintext" "Marshal ?cd ack = Inr dk" "length dk \<le> max_plaintext" using can by blast
  obtain sk rk where A: "\<And>cn rest sent. healthy cn \<Longrightarrow> rx cn = frame_bytes db @ rest \<Longrightarrow> PerformHandshake ?cd (te_curve E) (Inr privA) sent cn =
      (Inr (session_at cn rest (tx cn @ frame_bytes da) sk rk 0 0), cn\<lparr>rx := rest, tx := tx cn @ frame_bytes da\<rparr>)"
    and Bh: "\<And>cn rest sent. healthy cn \<Longrightarrow> rx cn = frame_bytes da @ rest \<Longrightarrow> PerformHandshake ?cd (te_curve E) (Inr privB) sent cn =
      (Inr (session_at cn rest (tx cn @ frame_bytes db) rk sk 0 0), cn\<lparr>rx := rest, tx := tx cn @ frame_bytes db\<rparr>)"
    using keys_agree_meet [OF ka] by blast
  let ?down = "frame_bytes db @ wire (aes_NewGCM rk) 0 [dk]" and ?up = "frame_bytes da @ wire (aes_NewGCM sk) 0 [d1, d2]"
  have eB: "env_codec B = ?cd" "env_curve B = te_curve E" and h: "healthy cn" "healthy bn" "tx cn = []" "tx bn = []" using can by auto
  let ?b1 = "session_at bn (wire (aes_NewGCM sk) 1 [d2]) (frame_bytes db) rk sk 0 1"
  let ?b2 = "session_at bn [] (frame_bytes db) rk sk 0 2" and ?b3 = "session_at bn [] ?down rk sk 1 2"
  have p: "PerformHandshake ?cd (te_curve E) (Inr privA) sentA (cn\<lparr>rx := ?down\<rparr>) =
      (Inr (session_at cn (wire (aes_NewGCM rk) 0 [dk]) (frame_bytes da) sk rk 0 0), cn\<lparr>rx := wire (aes_NewGCM rk) 0 [dk], tx := frame_bytes da\<rparr>)"
    using A [of "cn\<lparr>rx := ?down\<rparr>" "wire (aes_NewGCM rk) 0 [dk]" sentA] h by (simp add: healthy_def session_at_def del: wire.simps)
  note g = broker_greets [where da = da and E = B and privB = privB and db = db and rk = rk and sk = sk and bn = bn and pw = pw and ?d1.0 = d1 and
      m = m and ?d2.0 = d2 and s = s and addr = addr, OF _ _ _ _ _ _ _ _ _ refl]
  have 1: "handler_run B (Inr privB) sentB (Handshaking (bn\<lparr>rx := ?up\<rparr>) addr, s) (AwaitingRole c, joined s ?b1 addr [])"
    and 2: "first_message B (joined s ?b1 addr []) c =
      (if GetRegister m \<noteq> None then Listener (Register_GetConnectionId (GetRegister m))
       else if GetConnectRequest m \<noteq> None then Connector (ConnectRequest_GetConnectionId (GetConnectRequest m)) else Unexpected,
       joined s ?b2 addr [])"
    using g Bh h can d ok by (simp_all add: eB c del: wire.simps)
  have 3: "Send (env_codec B) ?b2 ack = (None, ?b3)"
    using Send_at [OF h(2) d(5,6), of "[]" "frame_bytes db" rk sk 0 2] by (simp add: eB del: wire.simps)
  have "talking ?cd (delivered (session_at cn [] ?up sk rk 2 1)) (delivered ?b3)" using session_at_talking [OF ok h(1,2)] by simp
  then show thesis
    using that [OF p client_greets [OF h(1) ok d(1,2,3,4,5,6), of rk "frame_bytes da" sk] 1 2 3] by simp
qed

lemma settled:
  assumes "c = length (heap (hub s))"
  shows "settle c (StartHeartbeat (joined (set_router s r) x addr i) c) = StartHeartbeat (joined (set_router s r) (delivered x) addr i) c"
    "sess_of (hub (StartHeartbeat (joined (set_router s r) x addr i) c)) c = x"
  using settle_joined [of "set_router s r" x addr i c] joined_sel(1) [of "set_router s r" x addr i]
  by (simp_all add: assms set_router_def StartHeartbeat_def)

definition registered :: "router \<Rightarrow> string \<Rightarrow> cid \<Rightarrow> router" where
  "registered r i c = r\<lparr>listeners := (listeners r)(i \<mapsto> c)\<rparr>"

definition linked_to :: "router \<Rightarrow> cid \<Rightarrow> cid \<Rightarrow> router" where
  "linked_to r y c = r\<lparr>peers := (peers r)(y \<mapsto> c, c \<mapsto> y)\<rparr>"

lemma listener_login:
  assumes can: "can_login E B privA privB cn bn pw s (register_env i) (register_ack True)"
    and free: "listeners (router (hub s)) i = None" and c: "c = length (heap (hub s))"
    and l: "l = NewListener port baddr i pw"
  obtains x x' where "talking (te_codec E) x' x"
    "listener_logs_in E B privA privB sentA sentB cn bn addr l s (l_go T_handleMessages (l\<lparr>l_session := Some x'\<rparr>)) c
      (StartHeartbeat (joined (set_router s (registered (router (hub s)) i c)) x addr i) c)"
proof (rule login_meets [OF can c, of sentA sentB addr])
  fix up down a0 a1 a2 a3 b1 b2 b3 cn'
  assume p: "PerformHandshake (te_codec E) (te_curve E) (Inr privA) sentA (cn\<lparr>rx := down\<rparr>) = (Inr a0, cn')"
    "Send (te_codec E) a0 (auth_env pw) = (None, a1)" "Send (te_codec E) a1 (register_env i) = (None, a2)"
    "Receive (te_codec E) a2 = (Inr (register_ack True), a3)"
    and 1: "handler_run B (Inr privB) sentB (Handshaking (bn\<lparr>rx := up\<rparr>) addr, s) (AwaitingRole c, joined s b1 addr [])"
    and 2: "first_message B (joined s b1 addr []) c =
      (if GetRegister (register_env i) \<noteq> None then Listener (Register_GetConnectionId (GetRegister (register_env i)))
       else if GetConnectRequest (register_env i) \<noteq> None then Connector (ConnectRequest_GetConnectionId (GetConnectRequest (register_env i)))
       else Unexpected, joined s b2 addr [])"
    and 3: "Send (env_codec B) b2 (register_ack True) = (None, b3)"
    and w: "tx (conn a3) = up" "tx (conn b3) = down" "talking (te_codec E) (delivered a3) (delivered b3)"
  note r = broker_registers [OF 3 free c refl, of "Inr privB" sentB addr, folded registered_def]
  have "handler_run B (Inr privB) sentB (Handshaking (bn\<lparr>rx := up\<rparr>) addr, s)
      (Relaying c, StartHeartbeat (joined (set_router s (registered (router (hub s)) i c)) b3 addr i) c)"
    by (rule run_trans [OF 1 handler_run_step [OF _ r]]) (simp add: 2 getter_defs Register_GetConnectionId_def)
  moreover have "Listener_Start E (\<lambda>_. Inr (cn\<lparr>rx := down\<rparr>)) (Inr privA) sentA l =
      (None, Some (conn a3), l_go T_handleMessages (l\<lparr>l_session := Some a3\<rparr>))"
    using p by (simp add: l Listener_Start_def NewListener_def Let_def register_ack_def getter_defs RegisterAck_GetSuccess_def)
  ultimately have "listener_logs_in E B privA privB sentA sentB cn bn addr l s (l_go T_handleMessages (l\<lparr>l_session := Some (delivered a3)\<rparr>)) c
      (StartHeartbeat (joined (set_router s (registered (router (hub s)) i c)) (delivered b3) addr i) c)"
    unfolding listener_logs_in_def
    by (intro exI [of _ up] exI [of _ down] exI [of _ "conn a3"] exI [of _ "l_go T_handleMessages (l\<lparr>l_session := Some a3\<rparr>)"] conjI
        exI [of _ "StartHeartbeat (joined (set_router s (registered (router (hub s)) i c)) b3 addr i) c"])
      (simp_all add: w settled [OF c] l_settle_def l_go_def)
  with w(3) show thesis by (rule that)
qed

lemma connector_login:
  assumes can: "can_login E B privA privB cn bn pw s (request_env i) (connect_ack True)"
    and open_slot: "listeners (router (hub s)) i = Some y" "peers (router (hub s)) y = None" and c: "c = length (heap (hub s))"
    and k: "k = NewConnector baddr i port pw" and listen: "listen (JoinHostPort ''127.0.0.1'' port) = None"
  obtains x x' where "talking (te_codec E) x' x"
    "connector_logs_in E B privA privB sentA sentB cn bn addr listen k s
      (c_go C_acceptLoop (c_go C_handleMessages (k\<lparr>c_session := Some x', c_socket := Some False\<rparr>))) c
      (StartHeartbeat (joined (set_router s (linked_to (router (hub s)) y c)) x addr i) c)"
proof (rule login_meets [OF can c, of sentA sentB addr])
  fix up down a0 a1 a2 a3 b1 b2 b3 cn'
  assume p: "PerformHandshake (te_codec E) (te_curve E) (Inr privA) sentA (cn\<lparr>rx := down\<rparr>) = (Inr a0, cn')"
    "Send (te_codec E) a0 (auth_env pw) = (None, a1)" "Send (te_codec E) a1 (request_env i) = (None, a2)"
    "Receive (te_codec E) a2 = (Inr (connect_ack True), a3)"
    and 1: "handler_run B (Inr privB) sentB (Handshaking (bn\<lparr>rx := up\<rparr>) addr, s) (AwaitingRole c, joined s b1 addr [])"
    and 2: "first_message B (joined s b1 addr []) c =
      (if GetRegister (request_env i) \<noteq> None then Listener (Register_GetConnectionId (GetRegister (request_env i)))
       else if GetConnectRequest (request_env i) \<noteq> None then Connector (ConnectRequest_GetConnectionId (GetConnectRequest (request_env i)))
       else Unexpected, joined s b2 addr [])"
    and 3: "Send (env_codec B) b2 (connect_ack True) = (None, b3)"
    and w: "tx (conn a3) = up" "tx (conn b3) = down" "talking (te_codec E) (delivered a3) (delivered b3)"
  note r = broker_links [OF 3 open_slot c refl, of "Inr privB" sentB addr, folded linked_to_def]
  have "handler_run B (Inr privB) sentB (Handshaking (bn\<lparr>rx := up\<rparr>) addr, s)
      (Relaying c, StartHeartbeat (joined (set_router s (linked_to (router (hub s)) y c)) b3 addr i) c)"
    by (rule run_trans [OF 1 handler_run_step [OF _ r]]) (simp add: 2 getter_defs ConnectRequest_GetConnectionId_def)
  moreover let ?k = "\<lambda>a. c_go C_acceptLoop (c_go C_handleMessages (k\<lparr>c_session := Some a, c_socket := Some False\<rparr>))"
  have "Connector_Start E (\<lambda>_. Inr (cn\<lparr>rx := down\<rparr>)) listen (Inr privA) sentA k = (None, Some (conn a3), ?k a3)"
    using p listen by (simp add: k Connector_Start_def NewConnector_def Let_def connect_ack_def getter_defs ConnectAck_GetSuccess_def)
  ultimately have "connector_logs_in E B privA privB sentA sentB cn bn addr listen k s (?k (delivered a3)) c
      (StartHeartbeat (joined (set_router s (linked_to (router (hub s)) y c)) (delivered b3) addr i) c)"
    unfolding connector_logs_in_def
    by (intro exI [of _ up] exI [of _ down] exI [of _ "conn a3"] exI [of _ "?k a3"] conjI
        exI [of _ "StartHeartbeat (joined (set_router s (linked_to (router (hub s)) y c)) b3 addr i) c"])
      (simp_all add: w settled [OF c] c_settle_def c_go_def)
  with w(3) show thesis by (rule that)
qed

end
