(* ===== verification/Tunnel_Login.thy ===== *)
theory Tunnel_Login
  imports Login
begin

text \<open>
  The logins of a listener and of a connector: with the right passphrase they end linked at the broker; with a wrong one nothing
  at the broker changes.
\<close>

text \<open>Two clients of the broker that it routes to each other, and the sessions of the two programs behind them, with nothing under way;
  then a connector and a listener that are linked in this way.\<close>

definition joint :: "broker_env \<Rightarrow> server \<Rightarrow> cid \<Rightarrow> cid \<Rightarrow> session \<Rightarrow> session \<Rightarrow> bool" where
  "joint B s x y sx sy \<longleftrightarrow>
     order_ok B \<and> router_inv (router (hub s)) \<and> x \<in> live (hub s) \<and> y \<in> live (hub s) \<and> y \<noteq> x \<and> GetPeer (router (hub s)) x = Some y \<and>
     talking (env_codec B) sx (sess_of (hub s) x) \<and> talking (env_codec B) sy (sess_of (hub s) y)"

definition linked :: "tunnel_env \<Rightarrow> broker_env \<Rightarrow> connector \<Rightarrow> server \<Rightarrow> cid \<Rightarrow> cid \<Rightarrow> listener \<Rightarrow> bool" where
  "linked E B c s x y l \<longleftrightarrow>
     te_codec E = env_codec B \<and> (\<exists>sc sl. c_session c = Some sc \<and> l_session l = Some sl \<and> joint B s x y sc sl) \<and>
     \<not> c_closed c \<and> connector_inv c \<and> \<not> l_closed l \<and> listener_inv l"

lemma joined_hub [simp]:
  "router (hub (StartHeartbeat (joined (set_router s r) x addr i) c)) = r"
  "passphraseHash (StartHeartbeat (joined (set_router s r) x addr i) c) = passphraseHash s"
  "heap (hub (StartHeartbeat (joined (set_router s r) x addr i) c)) = heap (hub s) @ [fresh_client (set_router s r) x addr i]"
  by (simp_all add: StartHeartbeat_def joined_def set_router_def)

lemma registered_inv:
  assumes "router_inv r" "listeners r i = None" "c \<notin> ran (listeners r)"
  shows "router_inv (registered r i c)"
  using router_inv_Register [OF assms(1) _ assms(3), of i] assms(2) by (simp add: RegisterListener_def registered_def)

lemma linked_to_inv:
  assumes "router_inv r" "listeners r i = Some y" "peers r y = None" "peers r c = None"
  shows "router_inv (linked_to r y c)"
  using router_inv_Link [OF assms(1) _ assms(4), of i] assms(2,3) by (simp add: LinkConnector_def linked_to_def)

text \<open>C2: a tunnel comes about. A broker that knows the passphrase, and whose router refers to known clients only: a
  listener logs in under an ID that is free, then a connector asks for that ID with the same passphrase. Both
  \<^verbatim>\<open>Start\<close>s succeed, both handlers get as far as the relay, and the four ends are linked: the broker
  routes the two clients to each other, and each program and the broker hold sessions that are in step in both directions.\<close>

theorem tunnel_established:
  assumes "can_login E B privA privB cn bn pw s (register_env i) (register_ack True)"
    and "can_login E B privA' privB' cn' bn' pw s (request_env i) (connect_ack True)"
    and "listeners (router (hub s)) i = None" "router_inv (router (hub s))" "order_ok B"
    and "\<forall>z. referenced (router (hub s)) z \<longrightarrow> z < length (heap (hub s))"
    and "listen (JoinHostPort ''127.0.0.1'' port) = None"
  shows "\<exists>l y s1 c x s2.
    listener_logs_in E B privA privB sentA sentB cn bn addr (NewListener lport baddr i pw) s l y s1 \<and>
    connector_logs_in E B privA' privB' sentA' sentB' cn' bn' addr' listen (NewConnector baddr' i port pw) s1 c x s2 \<and>
    linked E B c s2 x y l"
proof -
  let ?y = "length (heap (hub s))" and ?x = "Suc (length (heap (hub s)))" and ?r = "registered (router (hub s)) i (length (heap (hub s)))"
  obtain b a where l: "talking (te_codec E) a b"
    "listener_logs_in E B privA privB sentA sentB cn bn addr (NewListener lport baddr i pw) s
      (l_go T_handleMessages ((NewListener lport baddr i pw)\<lparr>l_session := Some a\<rparr>)) ?y (StartHeartbeat (joined (set_router s ?r) b addr i) ?y)"
    using listener_login [OF assms(1,3) refl refl] by blast
  let ?s1 = "StartHeartbeat (joined (set_router s ?r) b addr i) ?y"
  have free: "\<not> referenced (router (hub s)) z" if "length (heap (hub s)) \<le> z" for z using assms(6) that by fastforce
  have can: "can_login E B privA' privB' cn' bn' pw ?s1 (request_env i) (connect_ack True)" using assms(2) by (simp add: can_login_def)
  have s1: "listeners (router (hub ?s1)) i = Some ?y" "peers (router (hub ?s1)) ?y = None" "?x = length (heap (hub ?s1))"
    using free [of ?y] by (auto simp: registered_def referenced_def)
  let ?r' = "linked_to (router (hub ?s1)) ?y ?x"
  let ?c = "\<lambda>a. c_go C_acceptLoop (c_go C_handleMessages ((NewConnector baddr' i port pw)\<lparr>c_session := Some a, c_socket := Some False\<rparr>))"
  obtain b' a' where c: "talking (te_codec E) a' b'"
    "connector_logs_in E B privA' privB' sentA' sentB' cn' bn' addr' listen (NewConnector baddr' i port pw) ?s1 (?c a') ?x
       (StartHeartbeat (joined (set_router ?s1 ?r') b' addr' i) ?x)"
    using connector_login [where listen = listen, OF can s1 refl assms(7)] by blast
  let ?s2 = "StartHeartbeat (joined (set_router ?s1 ?r') b' addr' i) ?x"
  have "router_inv ?r'"
  proof (rule linked_to_inv [where i = i])
    show "router_inv (router (hub ?s1))" using registered_inv [OF assms(4,3), of ?y] free [of ?y] by (simp add: referenced_def)
    show "peers (router (hub ?s1)) ?x = None" using free [of ?x] by (auto simp: registered_def referenced_def)
  qed (rule s1)+
  moreover have "sess_of (hub ?s2) ?y = b" "sess_of (hub ?s2) ?x = b'" "?y \<in> live (hub ?s2)" "?x \<in> live (hub ?s2)"
    by (simp_all add: sess_of_def live_def nth_append fresh_client_def)
  moreover have "connector_inv (?c a')" "\<not> c_closed (?c a')"
    by (simp_all add: connector_inv_def c_go_def NewConnector_def)
  moreover have "listener_inv (l_go T_handleMessages ((NewListener lport baddr i pw)\<lparr>l_session := Some a\<rparr>))"
    "\<not> l_closed (l_go T_handleMessages ((NewListener lport baddr i pw)\<lparr>l_session := Some a\<rparr>))"
    using listener_inv_new [of lport baddr i pw] by (simp_all add: listener_inv_def l_go_def NewListener_def)
  moreover have "te_codec E = env_codec B" using assms(1) by (simp add: can_login_def can_meet_def)
  ultimately have "linked E B (?c a') ?s2 ?x ?y (l_go T_handleMessages ((NewListener lport baddr i pw)\<lparr>l_session := Some a\<rparr>))"
    using l(1) c(1) assms(5) by (simp add: linked_def joint_def linked_to_def GetPeer_def c_go_def l_go_def)
  with l(2) c(2) show ?thesis by blast
qed

subsection \<open>A wrong passphrase\<close>

lemma joined_conn_Close:
  "set_hub (joined s x addr i) (cc_conn_Close (length (heap (hub s))) (hub (joined s x addr i))) =
    joined s (x\<lparr>conn := conn_Close (conn x)\<rparr>) addr i"
  by (simp add: cc_conn_Close_def joined_def cc_upd_def set_hub_def fresh_client_def)

lemma joined_mismatch:
  assumes "ReceiveRaw (env_codec E) x = (raw, Inr (auth_env pw), x')" "\<not> conn_closed (conn x)" "\<not> conn_closed (conn x')"
    and "passphraseHash s \<noteq> sha256_Sum256 (bytes_of_string pw)"
  shows "\<exists>err. authenticateClient E (joined s x addr []) (length (heap (hub s))) =
    (Some err, joined (security_warn s logTagAuth (''passphrase mismatch from '' @ addr)) (x'\<lparr>conn := conn_Close (conn x')\<rparr>) addr [])"
proof -
  let ?c = "length (heap (hub s))"
  have r: "cc_ReceiveRaw E (hub (joined s x addr [])) ?c = (raw, Inr (auth_env pw), hub (joined s x' addr []))"
    using assms(1) by (simp add: cc_ReceiveRaw_def) (simp add: joined_def cc_upd_def fresh_client_def)
  have h: "set_hub (joined s x addr []) (hub (joined s x' addr [])) = joined s x' addr []"
    by (simp add: joined_def set_hub_def)
  have w: "security_warn (joined s x' addr []) t m = joined (security_warn s t m) x' addr []" for t m
    by (simp add: security_warn_def joined_def fresh_client_def split: option.split)
  have a: "RemoteAddr (hub (joined s x' addr [])) ?c = addr"
    by (simp add: RemoteAddr_def joined_def fresh_client_def)
  have c: "set_hub (joined t x' addr []) (cc_conn_Close ?c (hub (joined t x' addr []))) = joined t (x'\<lparr>conn := conn_Close (conn x')\<rparr>) addr []"
    if "length (heap (hub t)) = ?c" for t
    using joined_conn_Close [of t x' addr "[]"] that by simp
  have "length (heap (hub (security_warn s t m))) = ?c" for t m by (simp add: security_warn_def split: option.split)
  then show ?thesis
    using assms(2-4)
    by (simp add: authenticateClient_def conn_SetReadDeadline_def r h Let_def auth_env_def getter_defs Authenticate_GetPassphraseHash_def
        logPassphraseMismatch_def a w c)
qed

lemma broker_refuses:
  assumes hs: "\<And>cn rest sent. healthy cn \<Longrightarrow> rx cn = frame_bytes da @ rest \<Longrightarrow>
      PerformHandshake (env_codec B) (env_curve B) (Inr privB) sent cn =
        (Inr (session_at cn rest (tx cn @ frame_bytes db) rk sk 0 0), cn\<lparr>rx := rest, tx := tx cn @ frame_bytes db\<rparr>)"
    and "healthy bn" "tx bn = []" "codec_ok (env_codec B)" "Marshal (env_codec B) (auth_env pw) = Inr d1" "length d1 \<le> max_plaintext"
      "passphraseHash s \<noteq> sha256_Sum256 (bytes_of_string pw)"
    and x: "x = session_at bn (wire (aes_NewGCM sk) 1 [d2]) (frame_bytes db) rk sk 0 1"
  shows "handler_run B (Inr privB) sent (Handshaking (bn\<lparr>rx := frame_bytes da @ wire (aes_NewGCM sk) 0 [d1, d2]\<rparr>) addr, s)
    (Finished, release_slot (untrackClient (joined (security_warn s logTagAuth (''passphrase mismatch from '' @ addr))
       (x\<lparr>conn := conn_Close (conn x)\<rparr>) addr []) (length (heap (hub s)))))"
proof -
  let ?c = "length (heap (hub s))" and ?bn = "bn\<lparr>rx := frame_bytes da @ wire (aes_NewGCM sk) 0 [d1, d2]\<rparr>"
  let ?x0 = "session_at bn (wire (aes_NewGCM sk) 0 [d1, d2]) (frame_bytes db) rk sk 0 0"
  have "session_at ?bn (wire (aes_NewGCM sk) 0 [d1, d2]) (frame_bytes db) rk sk 0 0 = ?x0" by (simp add: session_at_def)
  then have "new_client B (Inr privB) sent s ?bn addr =
      (Inr ?c, bn\<lparr>rx := wire (aes_NewGCM sk) 0 [d1, d2], tx := frame_bytes db\<rparr>, joined s ?x0 addr [])"
    using hs [of ?bn "wire (aes_NewGCM sk) 0 [d1, d2]" sent] assms(2,3) by (intro joined_new) (simp add: healthy_def del: wire.simps)
  then have 1: "handler_step B (Inr privB) sent (Handshaking ?bn addr) s = (Authenticating ?c, joined s ?x0 addr [])" by simp
  obtain raw where "ReceiveRaw (env_codec B) ?x0 = (raw, Inr (auth_env pw), x)"
    using ReceiveRaw_at [OF assms(2,4,5,6), of sk 0 "[d2]" "frame_bytes db" rk 0] by (auto simp: x)
  then obtain err where "authenticateClient B (joined s ?x0 addr []) ?c =
      (Some err, joined (security_warn s logTagAuth (''passphrase mismatch from '' @ addr)) (x\<lparr>conn := conn_Close (conn x)\<rparr>) addr [])"
    using joined_mismatch [of B ?x0 raw pw x s addr] assms(2,7) by (auto simp: x healthy_def simp del: wire.simps)
  then have 2: "handler_step B (Inr privB) sent (Authenticating ?c) (joined s ?x0 addr []) =
      (Untracking ?c, joined (security_warn s logTagAuth (''passphrase mismatch from '' @ addr)) (x\<lparr>conn := conn_Close (conn x)\<rparr>) addr [])" by simp
  show ?thesis by (rule handler_run_step [OF 1 handler_run_step [OF 2 run_untrack]])
qed

lemma listener_refused:
  assumes "PerformHandshake (te_codec E) (te_curve E) rnd sent cn = (Inr (session_at bn [] out sk rk 0 0), cn')" "healthy bn"
    and "Marshal (te_codec E) (auth_env pw) = Inr d1" "length d1 \<le> max_plaintext"
      "Marshal (te_codec E) (register_env i) = Inr d2" "length d2 \<le> max_plaintext"
  shows "\<exists>err cl l. Listener_Start E (\<lambda>_. Inr cn) rnd sent (NewListener port baddr i pw) = (Some err, Some cl, l) \<and>
    tx cl = out @ wire (aes_NewGCM sk) 0 [d1, d2] \<and> conn_closed cl"
proof -
  let ?cd = "te_codec E"
  let ?a1 = "session_at bn [] (out @ wire (aes_NewGCM sk) 0 [d1]) sk rk 1 0" and ?a2 = "session_at bn [] (out @ wire (aes_NewGCM sk) 0 [d1, d2]) sk rk 2 0"
  have snd: "Send ?cd (session_at bn [] out sk rk 0 0) (auth_env pw) = (None, ?a1)" "Send ?cd ?a1 (register_env i) = (None, ?a2)"
    using Send_at [OF assms(2-4), of "[]" out sk rk 0 0] Send_at [OF assms(2,5,6), of "[]" "out @ wire (aes_NewGCM sk) 0 [d1]" sk rk 1 0] by simp_all
  obtain e a3 where rcv: "Receive ?cd ?a2 = (Inl e, a3)" using Receive_nothing [of ?a2 ?cd] by auto
  have "tx (conn a3) = out @ wire (aes_NewGCM sk) 0 [d1, d2]" using Receive_conn(1) [OF rcv] by simp
  then show ?thesis
    using assms(1) snd rcv by (simp add: Listener_Start_def NewListener_def Let_def conn_Close_def del: wire.simps)
qed

text \<open>C7: a wrong passphrase gets nowhere. When a client whose passphrase does not have the hash the broker was started with
  tries to log in as a listener, its \<^verbatim>\<open>Start\<close> fails and closes its connection, and the broker, whose handler runs to
  its end, has closed the connection too, reported the address in the security log, freed the slot, tracks the clients it
  tracked before, and its router is untouched.\<close>

theorem login_refused:
  assumes "can_meet E B privA privB cn bn pw (register_env i)" "passphraseHash s \<noteq> sha256_Sum256 (bytes_of_string pw)"
    and "\<forall>z\<in>clients s. z < length (heap (hub s))"
  shows "\<exists>up down err cl l s' x.
    Listener_Start E (\<lambda>_. Inr (cn\<lparr>rx := down\<rparr>)) (Inr privA) sentA (NewListener port baddr i pw) = (Some err, Some cl, l) \<and>
    tx cl = up \<and> conn_closed cl \<and>
    handler_run B (Inr privB) sentB (Handshaking (bn\<lparr>rx := up\<rparr>) addr, s) (Finished, s') \<and>
    heap (hub s') = heap (hub s) @ [x] \<and> tx (conn (cc_session x)) = down \<and> conn_closed (conn (cc_session x)) \<and>
    router (hub s') = router (hub s) \<and> clients s' = clients s \<and> connSem s' = connSem s - 1 \<and>
    disk s' = disk (security_warn s logTagAuth (''passphrase mismatch from '' @ addr))"
proof -
  let ?cd = "te_codec E" and ?c = "length (heap (hub s))"
  note can = assms(1) [unfolded can_meet_def fits_def]
  obtain da db where ka: "keys_agree ?cd (te_curve E) privA privB da db" using can by blast
  have ok: "codec_ok ?cd" using ka by (simp add: keys_agree_def)
  obtain d1 d2 where d: "Marshal ?cd (auth_env pw) = Inr d1" "length d1 \<le> max_plaintext" "Marshal ?cd (register_env i) = Inr d2"
      "length d2 \<le> max_plaintext" using can by blast
  have eB: "env_codec B = ?cd" "env_curve B = te_curve E" and h: "healthy cn" "healthy bn" "tx cn = []" "tx bn = []" using can by auto
  obtain sk rk where A: "\<And>cn rest sent. healthy cn \<Longrightarrow> rx cn = frame_bytes db @ rest \<Longrightarrow> PerformHandshake ?cd (te_curve E) (Inr privA) sent cn =
      (Inr (session_at cn rest (tx cn @ frame_bytes da) sk rk 0 0), cn\<lparr>rx := rest, tx := tx cn @ frame_bytes da\<rparr>)"
    and Bh: "\<And>cn rest sent. healthy cn \<Longrightarrow> rx cn = frame_bytes da @ rest \<Longrightarrow> PerformHandshake ?cd (te_curve E) (Inr privB) sent cn =
      (Inr (session_at cn rest (tx cn @ frame_bytes db) rk sk 0 0), cn\<lparr>rx := rest, tx := tx cn @ frame_bytes db\<rparr>)"
    using keys_agree_meet [OF ka] by blast
  let ?up = "frame_bytes da @ wire (aes_NewGCM sk) 0 [d1, d2]" and ?warn = "security_warn s logTagAuth (''passphrase mismatch from '' @ addr)"
  let ?b1 = "session_at bn (wire (aes_NewGCM sk) 1 [d2]) (frame_bytes db) rk sk 0 1"
  let ?b2 = "?b1\<lparr>conn := conn_Close (conn ?b1)\<rparr>"
  let ?s' = "release_slot (untrackClient (joined ?warn ?b2 addr []) ?c)"
  have run: "handler_run B (Inr privB) sentB (Handshaking (bn\<lparr>rx := ?up\<rparr>) addr, s) (Finished, ?s')"
    by (rule broker_refuses [OF Bh [folded eB] h(2,4) ok [folded eB(1)] d(1) [folded eB(1)] d(2) assms(2) refl])
  have "PerformHandshake ?cd (te_curve E) (Inr privA) sentA (cn\<lparr>rx := frame_bytes db\<rparr>) =
      (Inr (session_at cn [] (frame_bytes da) sk rk 0 0), cn\<lparr>rx := [], tx := frame_bytes da\<rparr>)"
    using A [of "cn\<lparr>rx := frame_bytes db\<rparr>" "[]" sentA] h by (simp add: healthy_def session_at_def)
  from listener_refused [OF this h(1) d] obtain err cl l where
    "Listener_Start E (\<lambda>_. Inr (cn\<lparr>rx := frame_bytes db\<rparr>)) (Inr privA) sentA (NewListener port baddr i pw) = (Some err, Some cl, l)"
    "tx cl = ?up" "conn_closed cl" by blast
  moreover have "heap (hub ?s') = heap (hub s) @ [fresh_client ?warn ?b2 addr []]" "router (hub ?s') = router (hub s)"
    "clients ?s' = clients s" "connSem ?s' = connSem s - 1" "disk ?s' = disk ?warn"
    using assms(3) by (auto simp: release_slot_def untrackClient_def joined_def security_warn_def split: option.split)
  moreover have "tx (conn (cc_session (fresh_client ?warn ?b2 addr []))) = frame_bytes db" "conn_closed (conn (cc_session (fresh_client ?warn ?b2 addr [])))"
    by (simp_all add: fresh_client_def conn_Close_def)
  ultimately show ?thesis using run by blast
qed

subsection \<open>Concrete logins\<close>

lemma sample_keys_agree:
  "keys_agree proto_codec sample_curve (replicate 32 1) (replicate 32 2) (sample_hello 1) (sample_hello 2)"
  using proto_codec_ok by (simp add: keys_agree_def sample_curve_def zip_replicate handshake_env_def PublicKeyBytes_def sample_hello)

lemma sample_can_meet:
  assumes "fits proto_codec (auth_env pw)" "fits proto_codec m"
  shows "can_meet sample_tenv sample_env (replicate 32 1) (replicate 32 2) sample_conn sample_conn pw m"
  using assms sample_keys_agree by (auto simp: can_meet_def sample_env_def sample_conn_def healthy_def)

text \<open>With the protobuf encoding every message the programs send fits into a frame, whatever passphrase and data, as long as the
  connection ID is UTF-8 and has not a million bytes; so no session breaks over a message of the program itself.\<close>

lemma program_messages_fit:
  "fits proto_codec (auth_env pw)"
  "ValidString i \<Longrightarrow> length i \<le> 1000000 \<Longrightarrow> fits proto_codec (register_env i)"
  "ValidString i \<Longrightarrow> length i \<le> 1000000 \<Longrightarrow> fits proto_codec (request_env i)"
  "fits proto_codec (register_ack ok)" "fits proto_codec (connect_ack ok)"
  "fits proto_codec (open_env n)" "fits proto_codec (open_ack_env n ok ''stream opened'')"
  "length d \<le> chunkSize \<Longrightarrow> fits proto_codec (data_env n d)" "fits proto_codec (close_env n)"
  "fits proto_codec heartbeat_env" "fits proto_codec disconnect_env"
  unfolding auth_env_def register_ack_def connect_ack_def heartbeat_env_def disconnect_env_def
  by (rule proto_fits; simp add: sendable_simps chunkSize_def)+

theorem tunnel_established_witness:
  "\<exists>s l y s1 c x s2. router (hub s) = NewRouter \<and>
    listener_logs_in sample_tenv sample_env (replicate 32 1) (replicate 32 2) True True sample_conn sample_conn ''10.0.0.1:4000''
      (NewListener ''80'' ''broker:1781'' ''web'' ''secret'') s l y s1 \<and>
    connector_logs_in sample_tenv sample_env (replicate 32 1) (replicate 32 2) True True sample_conn sample_conn ''10.0.0.2:4000'' (\<lambda>_. None)
      (NewConnector ''broker:1781'' ''web'' ''8080'' ''secret'') s1 c x s2 \<and>
    linked sample_tenv sample_env c s2 x y l"
proof -
  let ?s = "(sample_server [])\<lparr>hub := \<lparr>router = NewRouter, heap = [], now = 0\<rparr>\<rparr>"
  have "length (sha256_Sum256 (bytes_of_string ''secret'')) = 32" by simp
  then have ne: "sha256_Sum256 (bytes_of_string ''secret'') \<noteq> []" by (metis list.size(3) zero_neq_numeral)
  have pw: "passphraseHash ?s = sha256_Sum256 (bytes_of_string ''secret'')"
    by (simp add: ne sample_server_def NewServer_def WithPassphrase_def WithLogger_def Let_def)
  have "can_login sample_tenv sample_env (replicate 32 1) (replicate 32 2) sample_conn sample_conn ''secret'' ?s (register_env ''web'') (register_ack True)"
    "can_login sample_tenv sample_env (replicate 32 1) (replicate 32 2) sample_conn sample_conn ''secret'' ?s (request_env ''web'') (connect_ack True)"
    using sample_can_meet program_messages_fit(1,4,5) program_messages_fit(2,3) [of "''web''"] pw
    by (simp_all add: can_login_def ValidString_Cons_ASCII)
  from tunnel_established [OF this, of "\<lambda>_. None" "''8080''" True True "''10.0.0.1:4000''" "''80''" "''broker:1781''" True True "''10.0.0.2:4000''" "''broker:1781''"]
  show ?thesis using sample_env_ok router_inv_New by (intro exI [of _ ?s]) (simp add: NewRouter_def referenced_def)
qed

theorem login_refused_witness:
  "\<exists>s down err cl l s'. length (passphraseHash s) = 32 \<and>
    Listener_Start sample_tenv (\<lambda>_. Inr (sample_conn\<lparr>rx := down\<rparr>)) (Inr (replicate 32 1)) True (NewListener ''80'' ''broker:1781'' ''web'' ''guess'') =
      (Some err, Some cl, l) \<and> conn_closed cl \<and>
    handler_run sample_env (Inr (replicate 32 2)) True (Handshaking (sample_conn\<lparr>rx := tx cl\<rparr>) ''10.0.0.1:4000'', s) (Finished, s') \<and>
    router (hub s') = router (hub s)"
proof -
  let ?g = "sha256_Sum256 (bytes_of_string ''guess'')"
  let ?h = "map (\<lambda>b. b + 1) ?g"
  let ?s = "(sample_server [])\<lparr>passphraseHash := ?h\<rparr>"
  have h: "length ?h = 32" by simp
  have "?h ! 0 = ?g ! 0 + 1" by (rule nth_map) simp
  then have "?h ! 0 \<noteq> ?g ! 0" by simp
  then have "?h \<noteq> ?g" by metis
  then have "passphraseHash ?s \<noteq> ?g" by simp
  moreover have "clients ?s = {}" by (simp add: sample_server_def NewServer_def WithPassphrase_def WithLogger_def Let_def)
  moreover have "can_meet sample_tenv sample_env (replicate 32 1) (replicate 32 2) sample_conn sample_conn ''guess'' (register_env ''web'')"
    by (intro sample_can_meet program_messages_fit) (simp_all add: ValidString_Cons_ASCII)
  ultimately show ?thesis
    using login_refused [of sample_tenv sample_env "replicate 32 1" "replicate 32 2" sample_conn sample_conn "''guess''" "''web''" ?s True "''80''" "''broker:1781''" True "''10.0.0.1:4000''"]
    using h by (intro exI [of _ ?s]) auto
qed

end
