(* ===== verification/Tunnel_Streams.thy ===== *)
theory Tunnel_Streams
  imports Tunnel_Login
begin

text \<open>
  What happens in an established tunnel: one message from one program through the broker to the other, the opening of a stream,
  and the data that comes back.
\<close>

lemma in_flight_empty: "in_sync (cd, a, b) \<Longrightarrow> in_flight (cd, a, b) = [] \<longleftrightarrow> rx (conn b) = []"
proof
  assume sync: "in_sync (cd, a, b)" and none: "in_flight (cd, a, b) = []"
  from sync obtain key ps where ps: "\<not> conn_closed (conn b)" "gcm (recvEnc b) = aes_NewGCM key"
      "rx (conn b) = wire (aes_NewGCM key) (counter (recvEnc b)) ps" "\<forall>p\<in>set ps. length p \<le> max_plaintext \<and> (\<exists>e. Unmarshal cd p = Inr e)"
    by (auto simp: in_sync_def)
  have "ps = []" using in_flight_wire [OF ps, of a] none by simp
  then show "rx (conn b) = []" using ps(3) by simp
qed (simp add: in_flight_def)

lemma talking_sym: "talking cd a b \<longleftrightarrow> talking cd b a"
  by (auto simp: talking_def)

lemma Receive_keeps: "Receive cd s = (r, s') \<Longrightarrow> conn s' = (conn s)\<lparr>rx := rx (conn s')\<rparr>"
  using ReadFrame_conn(1) [of "conn s"]
  by (auto simp: Receive_def ReceiveRaw_def split: sum.splits prod.splits)

lemma healthy_rx: "healthy (c\<lparr>rx := bs\<rparr>) \<longleftrightarrow> healthy c"
  by (simp add: healthy_def)

lemma arrive_conn: "conn (arrive a b) = (conn b)\<lparr>rx := rx (conn b) @ tx (conn a)\<rparr>"
  by (simp add: arrive_def)

lemma in_sync_idle:
  assumes "in_sync (cd, b, a)" "rx (conn a) = []"
  obtains key where "codec_ok cd" "\<not> conn_closed (conn a)" "gcm (sendEnc b) = aes_NewGCM key" "gcm (recvEnc a) = aes_NewGCM key"
    "counter (sendEnc b) = counter (recvEnc a)"
proof -
  from assms(1) obtain key ps where ps: "codec_ok cd" "\<not> conn_closed (conn a)" "gcm (sendEnc b) = aes_NewGCM key" "gcm (recvEnc a) = aes_NewGCM key"
      "rx (conn a) = wire (aes_NewGCM key) (counter (recvEnc a)) ps" "counter (sendEnc b) = counter (recvEnc a) + of_nat (length ps)"
    by (auto simp: in_sync_def)
  then have "ps = []" using assms(2) wire_eq_Nil by metis
  with ps that show thesis by simp
qed

text \<open>One message, from a session to the one it talks to.\<close>

lemma exchange:
  assumes "talking cd a b" "fits cd e"
  obtains a' b' where "Send cd a e = (None, a')" "Receive cd (arrive a' b) = (Inr e, b')" "talking cd (delivered a') b'"
proof -
  note t = assms(1) [unfolded talking_def]
  from assms(2) obtain d where d: "Marshal cd e = Inr d" "length d \<le> max_plaintext" by (auto simp: fits_def)
  have txa: "tx (conn a) = []" "tx (conn b) = []" using t by (auto simp: in_sync_def)
  have idle: "in_sync (outgoing cd a b)" "in_flight (outgoing cd a b) = []" using t by (simp_all add: outgoing_idle [OF txa(1)])
  obtain a' where a': "Send cd a e = (None, a')" "healthy (conn a')" "in_sync (outgoing cd a' b)" "in_flight (outgoing cd a' b) = [e]"
    using Send_outgoing [OF idle(1) _ d] t idle(2) by auto
  then have "pending cd (delivered a') (arrive a' b) [e]" by (simp add: pending_def outgoing_arrive delivered_def)
  then obtain b' where b': "Receive cd (arrive a' b) = (Inr e, b')" "pending cd (delivered a') b' []" by (rule pending_Receive)
  note sa = Send_conn [OF a'(1)] and rb = Receive_conn [OF b'(1)]
  have rxb: "rx (conn b') = []" using b'(2) in_flight_empty by (auto simp: pending_def)
  have rxa: "rx (conn a) = []" using t in_flight_empty by blast
  show thesis
  proof (rule that [OF a'(1) b'(1)])
    have "healthy (conn b')" using t Receive_keeps [OF b'(1)] by (metis arrive_conn healthy_rx)
    moreover have "in_sync (cd, b', delivered a')"
    proof -
      obtain key where key: "codec_ok cd" "\<not> conn_closed (conn a)" "gcm (sendEnc b) = aes_NewGCM key" "gcm (recvEnc a) = aes_NewGCM key"
        "counter (sendEnc b) = counter (recvEnc a)" using in_sync_idle [of cd b a] t rxa by blast
      show ?thesis
        by (rule in_sync_fresh(1) [OF key(1), where key = key]) (use key sa rb txa rxa in \<open>simp_all add: arrive_def delivered_def\<close>)
    qed
    moreover have "in_flight (cd, b', delivered a') = []" using sa rxa by (simp add: in_flight_def delivered_def)
    ultimately show "talking cd (delivered a') b'"
      using a'(2) b'(2) by (simp add: talking_def pending_def delivered_def healthy_def)
  qed
qed

lemma joint_sym: "joint B s x y sx sy \<Longrightarrow> joint B s y x sy sx"
  by (auto simp: joint_def GetPeer_def dest: router_inv_sym)

text \<open>What the broker's hub is after the pieces of a hop.\<close>

lemma cc_upd_router: "router (cc_upd c f h) = router h"
  and cc_upd_length: "length (heap (cc_upd c f h)) = length (heap h)"
  by (simp_all add: cc_upd_def)

lemma hub_settle [simp]:
  "router (hub (settle c s)) = router (hub s)" "live (hub (settle c s)) = live (hub s)" "length (heap (hub (settle c s))) = length (heap (hub s))"
  by (simp_all add: settle_def live_cc_upd cc_upd_router cc_upd_length)

lemma sess_settle: "d < length (heap (hub s)) \<Longrightarrow> sess_of (hub (settle c s)) d = (if d = c then delivered (sess_of (hub s) d) else sess_of (hub s) d)"
  by (simp add: settle_def sess_of_def cc_upd_nth)

text \<open>One message from a program through the broker to the other one.\<close>

lemma hop:
  assumes "joint B s x y sx sy" "fits (env_codec B) e" "GetHeartbeat e = None"
  obtains sx' s1 sy' where "Send (env_codec B) sx e = (None, sx')" "relay_round B (broker_arrive sx' x s) x = (True, s1)"
    "Receive (env_codec B) (arrive (sess_of (hub s1) y) sy) = (Inr e, sy')" "joint B (settle y s1) x y (delivered sx') sy'"
proof -
  let ?cd = "env_codec B"
  note j = assms(1) [unfolded joint_def]
  have lt: "x < length (heap (hub s))" "y < length (heap (hub s))" "y \<noteq> x" using j by (auto simp: live_less)
  obtain sx' bx where up: "Send ?cd sx e = (None, sx')" "Receive ?cd (arrive sx' (sess_of (hub s) x)) = (Inr e, bx)" "talking ?cd (delivered sx') bx"
    using exchange [OF _ assms(2)] j by blast
  have "talking ?cd (sess_of (hub s) y) sy" using j by (simp add: talking_sym)
  then obtain b_y sy' where down: "Send ?cd (sess_of (hub s) y) e = (None, b_y)" "Receive ?cd (arrive b_y sy) = (Inr e, sy')" "talking ?cd (delivered b_y) sy'"
    using exchange [OF _ assms(2)] by blast
  define h1 where "h1 = UpdateLastSeen x (cc_upd x (\<lambda>z. z\<lparr>cc_session := bx\<rparr>) (hub (broker_arrive sx' x s)))"
  define s1 where "s1 = set_hub s (cc_upd y (\<lambda>z. z\<lparr>cc_session := b_y\<rparr>) h1)"
  have sess: "sess_of h1 x = bx" "sess_of h1 y = sess_of (hub s) y" "length (heap h1) = length (heap (hub s))"
    using lt by (simp_all add: h1_def UpdateLastSeen_def broker_arrive_def sess_of_def cc_upd_def)
  have h1: "router h1 = router (hub s)" "live h1 = live (hub s)"
    by (simp_all add: h1_def UpdateLastSeen_def broker_arrive_def live_cc_upd cc_upd_router)
  have "cc_Receive B (hub (broker_arrive sx' x s)) x = (Inr e, cc_upd x (\<lambda>z. z\<lparr>cc_session := bx\<rparr>) (hub (broker_arrive sx' x s)))"
    using up(2) lt by (simp add: cc_Receive_def broker_arrive_def sess_of_def cc_upd_def)
  then have "relay_receive B (broker_arrive sx' x s) x = (RelayForward e, set_hub s h1)"
    using assms(3) by (simp add: relay_receive_def Let_def h1_def broker_arrive_def)
  moreover have "GetPeer (router h1) x = Some y" using j h1 by simp
  moreover have "relay_send B (set_hub s h1) y e = (None, s1)"
    using down(1) sess(2) by (simp add: relay_send_def cc_Send_def s1_def)
  ultimately have "relay_round B (broker_arrive sx' x s) x = (True, s1)" by (simp add: relay_round_def)
  moreover have s1: "sess_of (hub s1) y = b_y" "sess_of (hub s1) x = bx" "router (hub s1) = router (hub s)" "live (hub s1) = live (hub s)"
    "length (heap (hub s1)) = length (heap (hub s))"
    using lt sess h1 by (simp_all add: s1_def sess_of_def live_cc_upd cc_upd_router cc_upd_length cc_upd_nth)
  moreover have "joint B (settle y s1) x y (delivered sx') sy'"
    using j lt s1 up(3) down(3) by (simp add: joint_def sess_settle talking_sym [of _ sy'])
  ultimately show thesis using that up(1) down(2) by simp
qed


subsection \<open>Opening a stream\<close>

text \<open>What the peer has written arrives.\<close>

definition l_arrive :: "session \<Rightarrow> listener \<Rightarrow> listener" where
  "l_arrive a l = l\<lparr>l_session := map_option (arrive a) (l_session l)\<rparr>"

definition c_arrive :: "session \<Rightarrow> connector \<Rightarrow> connector" where
  "c_arrive a c = c\<lparr>c_session := map_option (arrive a) (c_session c)\<rparr>"

lemma joint_outgoing:
  assumes "joint B s x y sx sy"
  shows "healthy (conn sx)" "healthy (conn (sess_of (hub s) y))"
    "in_sync (outgoing (env_codec B) sx (sess_of (hub s) x))" "in_flight (outgoing (env_codec B) sx (sess_of (hub s) x)) = []"
    "in_sync (outgoing (env_codec B) (sess_of (hub s) y) sy)" "in_flight (outgoing (env_codec B) (sess_of (hub s) y) sy) = []"
proof -
  note j = assms [unfolded joint_def talking_def]
  then have "tx (conn sx) = []" "tx (conn (sess_of (hub s) y)) = []" by (auto simp: in_sync_def)
  note idle = outgoing_idle [OF this(1)] outgoing_idle [OF this(2)]
  show "healthy (conn sx)" "healthy (conn (sess_of (hub s) y))"
    "in_sync (outgoing (env_codec B) sx (sess_of (hub s) x))" "in_flight (outgoing (env_codec B) sx (sess_of (hub s) x)) = []"
    "in_sync (outgoing (env_codec B) (sess_of (hub s) y) sy)" "in_flight (outgoing (env_codec B) (sess_of (hub s) y) sy) = []"
    using j by (simp_all add: idle)
qed

text \<open>The listener's part: the request arrives, the local service is dialled, the acknowledgement is sent.\<close>

lemma listener_opens:
  assumes "l_session l = Some sl" "\<not> l_closed l" "Receive (te_codec E) (arrive a sl) = (Inr (open_env i), sl1)"
    and "Send (te_codec E) sl1 (open_ack_env i True ''stream opened'') = (None, sl2)"
    and "dial (JoinHostPort ''127.0.0.1'' (l_localPort l)) = Inr cn" "healthy cn" "listener_inv l"
  obtains l1 where "Listener_round E (l_arrive a l) = (True, l1)" "l_session (Listener_handleOpenStream E dial i l1) = Some sl2"
    "l_stream (Listener_handleOpenStream E dial i l1) i = Some (ready_state (length (l_conns l)))"
    "l_conns (Listener_handleOpenStream E dial i l1) = l_conns l @ [cn]" "\<not> l_closed (Listener_handleOpenStream E dial i l1)"
    "T_pump i (length (l_conns l)) \<in> set (l_tasks (Listener_handleOpenStream E dial i l1))"
    "listener_inv (Listener_handleOpenStream E dial i l1)"
proof -
  define l1 where "l1 = l_go (T_handleOpenStream i) (l\<lparr>l_session := Some sl1,
    l_streams := AList.update i \<lparr>st_conn = None, st_buf = [], st_ready = False\<rparr> (l_streams l)\<rparr>)"
  have r: "Listener_round E (l_arrive a l) = (True, l1)"
    using assms(1-3) by (simp add: Listener_round_def Listener_receive_def l_arrive_def Listener_dispatch_def getter_defs OpenStream_GetStreamId_def l1_def Let_def)
  have l1: "l_localPort l1 = l_localPort l" "l_conns l1 = l_conns l" "l_session l1 = Some sl1" "l_closed l1 = l_closed l"
    "l_stream l1 i = Some \<lparr>st_conn = None, st_buf = [], st_ready = False\<rparr>"
    by (simp_all add: l1_def l_go_def update_conv')
  have d: "dial (JoinHostPort ''127.0.0.1'' (l_localPort l1)) = Inr cn" using assms(5) by (simp add: l1)
  note h = Listener_handleOpenStream_ok [of dial l1, OF d assms(6) l1(5), of E]
  have "listener_inv (Listener_handleOpenStream E dial i l1)"
  proof -
    have "listener_inv (l_arrive a l)" using assms(7) by (simp add: l_arrive_def inv_misc)
    then have "listener_inv l1" using inv_round [of "l_arrive a l" E] r by simp
    then show ?thesis by (rule inv_handleOpenStream)
  qed
  then show thesis
    using that [OF r] assms(2,4) by (simp add: h l1 open_ack_def l_go_def l_Send_def update_conv')
qed

text \<open>The connector's part: the request, and the acknowledgement.\<close>

lemma connector_opens:
  assumes "c_session c = Some sc" "\<not> c_closed c" "local_register c = (i, ch, c1)" "Send (te_codec E) sc (open_env i) = (None, sc1)"
    and "Receive (te_codec E) (arrive a (delivered sc1)) = (Inr (open_ack_env i True m), sc2)"
    and "connector_inv c" "k < length (c_conns c)" "\<forall>j. c_stream c j \<noteq> Some k"
  obtains c2 c3 c4 where "local_open E i k (local_track i k c1) = (True, c2)" "c_session c2 = Some sc1"
    "Connector_round E (c_arrive a (c_settle c2)) = (RNext, c3)" "local_wait Acked i k ch c3 = Some (True, c4)"
    "c_session c4 = Some sc2" "c_stream c4 = (c_stream c)(i \<mapsto> k)" "c_conns c4 = c_conns c" "\<not> c_closed c4" "C_pump i k \<in> set (c_tasks c4)"
    "connector_inv c4"
proof -
  define c2 where "c2 = (local_track i k c1)\<lparr>c_session := Some sc1\<rparr>"
  have c1: "c1 = c\<lparr>c_nextStreamID := i, c_chans := c_chans c @ [None], c_pending := AList.update i ch (c_pending c)\<rparr>" "ch = length (c_chans c)"
    using assms(3) by (auto simp: local_register_def Let_def)
  have open1: "local_open E i k (local_track i k c1) = (True, c2)"
    using assms(1,4) by (simp add: local_open_def c_Send_def local_track_def c1 c2_def)
  define c3 where "c3 = c2\<lparr>c_session := Some sc2, c_pending := AList.delete i (c_pending c2), c_chans := (c_chans c2)[ch := Some True]\<rparr>"
  have "Connector_round E (c_arrive a (c_settle c2)) = (RNext, c3)"
    using assms(2,5)
    by (simp add: Connector_round_def Connector_receive_def c_arrive_def c_settle_def c2_def local_track_def c1 Connector_dispatch_def Let_def
        getter_defs OpenStreamAck_GetStreamId_def OpenStreamAck_GetSuccess_def update_conv' chan_send_def nth_append c3_def)
  moreover define c4 where "c4 = c_go (C_pump i k) (c3\<lparr>c_chans := (c_chans c3)[ch := None]\<rparr>)"
  moreover have "local_wait Acked i k ch c3 = Some (True, c4)"
    by (simp add: local_wait_def c3_def c4_def c2_def local_track_def c1 Let_def)
  moreover have c4: "c_session c4 = Some sc2" "c_streams c4 = AList.update i k (c_streams c)" "c_conns c4 = c_conns c" "\<not> c_closed c4" "C_pump i k \<in> set (c_tasks c4)"
    using assms(2) by (simp_all add: c4_def c_go_def c3_def c2_def local_track_def c1)
  moreover have "connector_inv c4"
    using assms(6-8) by (auto simp: connector_inv_def c4 distinct_update update_conv' split: if_splits)
  ultimately show thesis using that [OF open1] by (simp add: c2_def update_conv')
qed

text \<open>C3: in an established tunnel a local connection becomes a stream. A program has connected to the connector's port
  (connection \<open>k\<close>, which no stream uses yet); the handler takes the next stream number, asks for the stream, the broker passes the
  request on, the listener dials the local service and acknowledges, the broker passes that back, and the handler that waits is woken with
  success. Then the stream is open on both sides: its pumps are started, and the hypothesis of the transparency of the tunnel holds.\<close>

theorem stream_opens:
  assumes "linked E B c s x y l" "local_register c = (i, ch, c1)"
    and "k < length (c_conns c)" "\<not> conn_closed (c_conns c ! k)" "\<forall>j. c_stream c j \<noteq> Some k"
    and "dial (JoinHostPort ''127.0.0.1'' (l_localPort l)) = Inr cn" "healthy cn"
    and "fits (te_codec E) (open_env i)" "fits (te_codec E) (open_ack_env i True ''stream opened'')"
  shows "\<exists>c2 sc s1 l1 l2 sl s2 c3 c4.
    local_open E i k (local_track i k c1) = (True, c2) \<and> c_session c2 = Some sc \<and>
    relay_round B (broker_arrive sc x s) x = (True, s1) \<and>
    Listener_round E (l_arrive (sess_of (hub s1) y) l) = (True, l1) \<and>
    l2 = Listener_handleOpenStream E dial i l1 \<and> l_session l2 = Some sl \<and>
    relay_round B (broker_arrive sl y (settle y s1)) y = (True, s2) \<and>
    Connector_round E (c_arrive (sess_of (hub s2) x) (c_settle c2)) = (RNext, c3) \<and>
    local_wait Acked i k ch c3 = Some (True, c4) \<and>
    C_pump i k \<in> set (c_tasks c4) \<and> T_pump i (length (l_conns l)) \<in> set (l_tasks l2) \<and>
    c_conns c4 = c_conns c \<and> l_conns l2 = l_conns l @ [cn] \<and>
    linked E B c4 (settle x s2) x y (l_settle l2) \<and>
    tunnel E B c4 (settle x s2) x y (l_settle l2) i k (length (l_conns l))"
proof -
  from assms(1) obtain sc0 sl0 where cd: "te_codec E = env_codec B" and ses: "c_session c = Some sc0" "l_session l = Some sl0"
    and j: "joint B s x y sc0 sl0" and st: "\<not> c_closed c" "connector_inv c" "\<not> l_closed l" "listener_inv l" by (auto simp: linked_def)
  note f = assms(8,9) [unfolded cd]
  have hb: "GetHeartbeat (open_env i) = None" "GetHeartbeat (open_ack_env i True ''stream opened'') = None" by (simp_all add: getter_defs)
  obtain sc s1 sl1 where 1: "Send (te_codec E) sc0 (open_env i) = (None, sc)" "relay_round B (broker_arrive sc x s) x = (True, s1)"
    "Receive (te_codec E) (arrive (sess_of (hub s1) y) sl0) = (Inr (open_env i), sl1)" "joint B (settle y s1) x y (delivered sc) sl1"
    using hop [OF j f(1) hb(1)] unfolding cd by blast
  obtain sl s2 sc2 where 2: "Send (te_codec E) sl1 (open_ack_env i True ''stream opened'') = (None, sl)"
    "relay_round B (broker_arrive sl y (settle y s1)) y = (True, s2)"
    "Receive (te_codec E) (arrive (sess_of (hub s2) x) (delivered sc)) = (Inr (open_ack_env i True ''stream opened''), sc2)"
    "joint B (settle x s2) y x (delivered sl) sc2"
    using hop [OF joint_sym [OF 1(4)] f(2) hb(2)] unfolding cd by blast
  note jj = joint_sym [OF 2(4)]
  obtain l1 where l: "Listener_round E (l_arrive (sess_of (hub s1) y) l) = (True, l1)" "l_session (Listener_handleOpenStream E dial i l1) = Some sl"
    "l_stream (Listener_handleOpenStream E dial i l1) i = Some (ready_state (length (l_conns l)))"
    "l_conns (Listener_handleOpenStream E dial i l1) = l_conns l @ [cn]" "\<not> l_closed (Listener_handleOpenStream E dial i l1)"
    "T_pump i (length (l_conns l)) \<in> set (l_tasks (Listener_handleOpenStream E dial i l1))" "listener_inv (Listener_handleOpenStream E dial i l1)"
    by (rule listener_opens [where dial = dial, OF ses(2) st(3) 1(3) 2(1) assms(6,7) st(4)])
  obtain c2 c3 c4 where c: "local_open E i k (local_track i k c1) = (True, c2)" "c_session c2 = Some sc"
    "Connector_round E (c_arrive (sess_of (hub s2) x) (c_settle c2)) = (RNext, c3)" "local_wait Acked i k ch c3 = Some (True, c4)"
    "c_session c4 = Some sc2" "c_stream c4 = (c_stream c)(i \<mapsto> k)" "c_conns c4 = c_conns c" "\<not> c_closed c4" "C_pump i k \<in> set (c_tasks c4)"
    "connector_inv c4"
    by (rule connector_opens [OF ses(1) st(1) assms(2) 1(1) 2(3) st(2) assms(3,5)])
  let ?l = "l_settle (Listener_handleOpenStream E dial i l1)"
  have l': "l_session ?l = Some (delivered sl)" "l_conns ?l = l_conns l @ [cn]" "l_stream ?l i = Some (ready_state (length (l_conns l)))"
      "\<not> l_closed ?l" "listener_inv ?l"
    using l by (simp_all add: l_settle_def inv_misc)
  have lk: "linked E B c4 (settle x s2) x y ?l"
    unfolding linked_def using jj c(5,8,10) l'(1,4,5) cd by simp
  have "tunnel E B c4 (settle x s2) x y ?l i k (length (l_conns l))"
    using joint_outgoing [OF jj] jj [unfolded joint_def] c(5-8,10) l' cd assms(4,7) by (simp add: tunnel_def nth_append)
  with lk c l 1(2) 2(2) show ?thesis by blast
qed


subsection \<open>The way back\<close>

text \<open>One chunk from the listener's local service: a round of its pump, of the broker's relay, and of the connector's message loop.\<close>

definition reply_round :: "tunnel_env \<Rightarrow> broker_env \<Rightarrow> cid \<Rightarrow> cid \<Rightarrow> u32 \<Rightarrow> nat \<Rightarrow> nat \<Rightarrow> connector \<times> server \<times> listener \<Rightarrow>
    (connector \<times> server \<times> listener) option" where
  "reply_round E B x y i k' n w =
     (case w of (c, s, l) \<Rightarrow>
        case Listener_pump_round E n i k' l of
          (PumpGo, l1) \<Rightarrow>
            (case relay_round B (broker_arrive (the (l_session l1)) y s) y of
               (True, s1) \<Rightarrow>
                 (case Connector_round E (c_arrive (sess_of (hub s1) x) c) of
                    (RNext, c1) \<Rightarrow> Some (c1, settle x s1, l_settle l1)
                  | _ \<Rightarrow> None)
             | _ \<Rightarrow> None)
        | _ \<Rightarrow> None)"

fun reply_rounds :: "tunnel_env \<Rightarrow> broker_env \<Rightarrow> cid \<Rightarrow> cid \<Rightarrow> u32 \<Rightarrow> nat \<Rightarrow> nat list \<Rightarrow> connector \<times> server \<times> listener \<Rightarrow>
    (connector \<times> server \<times> listener) option" where
  "reply_rounds E B x y i k' [] w = Some w"
| "reply_rounds E B x y i k' (n # ns) w =
     (case reply_round E B x y i k' n w of None \<Rightarrow> None | Some w1 \<Rightarrow> reply_rounds E B x y i k' ns w1)"

lemma connector_gets:
  assumes "c_session c = Some sc" "\<not> c_closed c" "Receive (te_codec E) (arrive a sc) = (Inr (data_env i d), sc1)"
    and "connector_inv c" "c_stream c i = Some k" "healthy (c_conns c ! k)"
  obtains c1 where "Connector_round E (c_arrive a c) = (RNext, c1)" "c_session c1 = Some sc1" "\<not> c_closed c1" "connector_inv c1"
    "c_stream c1 i = Some k" "healthy (c_conns c1 ! k)" "tx (c_conns c1 ! k) = tx (c_conns c ! k) @ d"
proof -
  have lt: "k < length (c_conns c)" using assms(4,5) by (simp add: connector_inv_def)
  define c1 where "c1 = c\<lparr>c_session := Some sc1, c_conns := (c_conns c)[k := (c_conns c ! k)\<lparr>tx := tx (c_conns c ! k) @ d\<rparr>]\<rparr>"
  have "Connector_round E (c_arrive a c) = (RNext, c1)"
    using assms(1-3,5,6) lt
    by (simp add: Connector_round_def Connector_receive_def c_arrive_def Connector_dispatch_def getter_defs Connector_handleData_def
        Connector_write_def local_Write_healthy Data_GetStreamId_def Data_GetPayload_def c1_def)
  moreover have "connector_inv c1" using assms(4) by (simp add: connector_inv_def c1_def)
  ultimately show thesis using that assms(2,5,6) lt by (simp add: c1_def healthy_def)
qed

lemma listener_sends:
  assumes "l_session l = Some sl" "\<not> l_closed l" "Send (te_codec E) sl (data_env i d) = (None, sl1)"
    and "\<not> conn_closed (l_conns l ! k')" "rx (l_conns l ! k') \<noteq> []" "d = take (max 1 (min n chunkSize)) (rx (l_conns l ! k'))"
  shows "Listener_pump_round E n i k' l = (PumpGo, l\<lparr>l_session := Some sl1,
    l_conns := (l_conns l)[k' := (l_conns l ! k')\<lparr>rx := drop (max 1 (min n chunkSize)) (rx (l_conns l ! k'))\<rparr>]\<rparr>)"
  using assms by (simp add: Listener_pump_round_def pump_round_def conn_Read_def Let_def l_pump_end_def)

text \<open>The two programs with an open stream, seen from the side that answers.\<close>

definition answering :: "tunnel_env \<Rightarrow> broker_env \<Rightarrow> cid \<Rightarrow> cid \<Rightarrow> u32 \<Rightarrow> nat \<Rightarrow> nat \<Rightarrow> connector \<times> server \<times> listener \<Rightarrow> bool" where
  "answering E B x y i k k' w \<longleftrightarrow>
     (case w of (c, s, l) \<Rightarrow> linked E B c s x y l \<and> c_stream c i = Some k \<and> healthy (c_conns c ! k) \<and>
        k' < length (l_conns l) \<and> \<not> conn_closed (l_conns l ! k'))"

lemma reply_round_ok:
  assumes "answering E B x y i k k' (c, s, l)" "rx (l_conns l ! k') \<noteq> []" "\<forall>d. length d \<le> chunkSize \<longrightarrow> fits (te_codec E) (data_env i d)"
  obtains c1 s1 l1 d where "reply_round E B x y i k' n (c, s, l) = Some (c1, s1, l1)" "answering E B x y i k k' (c1, s1, l1)"
    "d \<noteq> []" "rx (l_conns l ! k') = d @ rx (l_conns l1 ! k')" "tx (c_conns c1 ! k) = tx (c_conns c ! k) @ d"
proof -
  from assms(1) obtain sc sl where cd: "te_codec E = env_codec B" and ses: "c_session c = Some sc" "l_session l = Some sl"
    and j: "joint B s x y sc sl" and st: "\<not> c_closed c" "connector_inv c" "\<not> l_closed l" "listener_inv l"
      "c_stream c i = Some k" "healthy (c_conns c ! k)" "k' < length (l_conns l)" "\<not> conn_closed (l_conns l ! k')"
    by (auto simp: answering_def linked_def)
  let ?m = "max 1 (min n chunkSize)"
  let ?d = "take ?m (rx (l_conns l ! k'))"
  have "length ?d \<le> chunkSize" by (simp add: chunkSize_def)
  then have f: "fits (env_codec B) (data_env i ?d)" using assms(3) cd by simp
  obtain sl1 s1 sc1 where h: "Send (te_codec E) sl (data_env i ?d) = (None, sl1)" "relay_round B (broker_arrive sl1 y s) y = (True, s1)"
    "Receive (te_codec E) (arrive (sess_of (hub s1) x) sc) = (Inr (data_env i ?d), sc1)" "joint B (settle x s1) y x (delivered sl1) sc1"
    using hop [OF joint_sym [OF j] f] unfolding cd by (auto simp: getter_defs)
  note j1 = joint_sym [OF h(4)]
  define l1 where "l1 = l\<lparr>l_session := Some sl1, l_conns := (l_conns l)[k' := (l_conns l ! k')\<lparr>rx := drop ?m (rx (l_conns l ! k'))\<rparr>]\<rparr>"
  have l1: "Listener_pump_round E n i k' l = (PumpGo, l1)"
    using listener_sends [OF ses(2) st(3) h(1) st(8) assms(2) refl] by (simp add: l1_def)
  obtain c1 where c1: "Connector_round E (c_arrive (sess_of (hub s1) x) c) = (RNext, c1)" "c_session c1 = Some sc1" "\<not> c_closed c1" "connector_inv c1"
    "c_stream c1 i = Some k" "healthy (c_conns c1 ! k)" "tx (c_conns c1 ! k) = tx (c_conns c ! k) @ ?d"
    by (rule connector_gets [OF ses(1) st(1) h(3) st(2,5,6)])
  have r: "reply_round E B x y i k' n (c, s, l) = Some (c1, settle x s1, l_settle l1)"
  proof -
    have "l_session l1 = Some sl1" by (simp add: l1_def)
    then show ?thesis using h(2) c1(1) by (simp add: reply_round_def l1)
  qed
  have "listener_inv (l_settle l1)" using st(4) by (simp add: listener_inv_def l_settle_def l1_def)
  then have "answering E B x y i k k' (c1, settle x s1, l_settle l1)"
    using j1 c1 cd st by (simp add: answering_def linked_def l_settle_def l1_def)
  moreover have "?d \<noteq> []" "rx (l_conns l ! k') = ?d @ rx (l_conns (l_settle l1) ! k')"
    using assms(2) st(7) by (simp_all add: l_settle_def l1_def)
  ultimately show thesis using that [OF r] c1(7) by blast
qed

text \<open>C5: the tunnel carries the answer. Whatever the local service of the listener has written, of any length and however the reads
  cut it up, arrives at the local program of the connector, complete and in order, in at most as many rounds as there are bytes; and the
  tunnel is again as it was: linked, with the stream open and nothing under way.\<close>

theorem reply_delivered:
  assumes "answering E B x y i k k' (c, s, l)" "\<forall>d. length d \<le> chunkSize \<longrightarrow> fits (te_codec E) (data_env i d)"
  shows "\<exists>m c' s' l'. m \<le> length (rx (l_conns l ! k')) \<and>
    reply_rounds E B x y i k' (map ks [0..<m]) (c, s, l) = Some (c', s', l') \<and> answering E B x y i k k' (c', s', l') \<and>
    rx (l_conns l' ! k') = [] \<and> tx (c_conns c' ! k) = tx (c_conns c ! k) @ rx (l_conns l ! k')"
  using assms(1)
proof (induction "length (rx (l_conns l ! k'))" arbitrary: c s l ks rule: less_induct)
  case less
  show ?case
  proof (cases "rx (l_conns l ! k') = []")
    case True
    then show ?thesis using less.prems by (intro exI [of _ 0]) simp
  next
    case False
    obtain c1 s1 l1 d where r: "reply_round E B x y i k' (ks 0) (c, s, l) = Some (c1, s1, l1)" "answering E B x y i k k' (c1, s1, l1)"
      "d \<noteq> []" "rx (l_conns l ! k') = d @ rx (l_conns l1 ! k')" "tx (c_conns c1 ! k) = tx (c_conns c ! k) @ d"
      by (rule reply_round_ok [OF less.prems False assms(2)])
    have "length (rx (l_conns l1 ! k')) < length (rx (l_conns l ! k'))" using r(3,4) by (cases d) simp_all
    from less.hyps [OF this r(2), of "\<lambda>n. ks (Suc n)"] obtain m c' s' l' where ih: "m \<le> length (rx (l_conns l1 ! k'))"
      "reply_rounds E B x y i k' (map (\<lambda>n. ks (Suc n)) [0..<m]) (c1, s1, l1) = Some (c', s', l')" "answering E B x y i k k' (c', s', l')"
      "rx (l_conns l' ! k') = []" "tx (c_conns c' ! k) = tx (c_conns c1 ! k) @ rx (l_conns l1 ! k')" by blast
    have "map ks [0..<Suc m] = ks 0 # map (\<lambda>n. ks (Suc n)) [0..<m]" by (simp add: upt_conv_Cons map_Suc_upt [symmetric] comp_def del: upt_Suc)
    then have "reply_rounds E B x y i k' (map ks [0..<Suc m]) (c, s, l) = Some (c', s', l')" using r(1) ih(2) by simp
    moreover have "Suc m \<le> length (rx (l_conns l ! k'))" using ih(1) r(3,4) by (cases d) simp_all
    moreover have "tx (c_conns c' ! k) = tx (c_conns c ! k) @ rx (l_conns l ! k')" using ih(5) r(4,5) by simp
    ultimately show ?thesis using ih(3,4) by blast
  qed
qed

subsection \<open>Concrete streams\<close>

lemma sample_talking: "talking proto_codec sample_session sample_session"
proof -
  have t: "tx (conn sample_session) = []" by (simp add: sample_session_def sample_conn_def)
  show ?thesis using sample_idle unfolding outgoing_idle [OF t] by (simp add: talking_def)
qed

lemma sample_joint: "joint sample_env (sample_server []) 2 1 sample_session sample_session"
  unfolding joint_def sess_sample_server sample_incoming_none
proof (intro conjI)
  show "2 \<in> live (hub (sample_server []))" "1 \<in> live (hub (sample_server []))"
    by (simp_all add: live_def sample_client_def)
  show "order_ok sample_env" by (rule sample_env_ok)
  show "router_inv (router (hub (sample_server [])))" by (simp add: sample_router_inv)
  show "GetPeer (router (hub (sample_server []))) 2 = Some 1" by (simp add: GetPeer_def sample_router_def)
  show "(1 :: nat) \<noteq> 2" by simp
qed (simp_all add: sample_env_def sample_talking)

lemma sample_linked:
  assumes "c_session c = Some sample_session" "\<not> c_closed c" "connector_inv c" "l_session l = Some sample_session" "\<not> l_closed l" "listener_inv l"
  shows "linked sample_tenv sample_env c (sample_server []) 2 1 l"
  using assms sample_joint by (simp add: linked_def sample_env_def)

theorem stream_opens_witness:
  "\<exists>c2 sc s1 l1 l2 sl s2 c3 c4.
    local_open sample_tenv 7 0 (local_track 7 0 ((sample_connector\<lparr>c_streams := [], c_nextStreamID := 7, c_chans := [None], c_pending := [(7, 0)]\<rparr>))) = (True, c2) \<and>
    c_session c2 = Some sc \<and> relay_round sample_env (broker_arrive sc 2 (sample_server [])) 2 = (True, s1) \<and>
    Listener_round sample_tenv (l_arrive (sess_of (hub s1) 1) (sample_ready\<lparr>l_streams := [], l_conns := []\<rparr>)) = (True, l1) \<and>
    l2 = Listener_handleOpenStream sample_tenv (\<lambda>_. Inr sample_conn) 7 l1 \<and> l_session l2 = Some sl \<and>
    relay_round sample_env (broker_arrive sl 1 (settle 1 s1)) 1 = (True, s2) \<and>
    Connector_round sample_tenv (c_arrive (sess_of (hub s2) 2) (c_settle c2)) = (RNext, c3) \<and> local_wait Acked 7 0 0 c3 = Some (True, c4) \<and>
    tunnel sample_tenv sample_env c4 (settle 2 s2) 2 1 (l_settle l2) 7 0 0"
proof -
  let ?c = "sample_connector\<lparr>c_streams := [], c_nextStreamID := 6\<rparr>" and ?l = "sample_ready\<lparr>l_streams := [], l_conns := []\<rparr>"
  have "linked sample_tenv sample_env ?c (sample_server []) 2 1 ?l"
    by (rule sample_linked) (simp_all add: sample_connector_def sample_ready_def sample_listener_def NewConnector_def NewListener_def
        connector_inv_def listener_inv_def streams_ok_def)
  moreover have "local_register ?c = (7, 0, sample_connector\<lparr>c_streams := [], c_nextStreamID := 7, c_chans := [None], c_pending := [(7, 0)]\<rparr>)"
    by (simp add: local_register_def sample_connector_def NewConnector_def Let_def)
  moreover have "fits (te_codec sample_tenv) (open_env 7)" "fits (te_codec sample_tenv) (open_ack_env 7 True ''stream opened'')"
    by (simp_all add: fits_def sendable_simps)
  moreover have "0 < length (c_conns ?c)" "\<not> conn_closed (c_conns ?c ! 0)" "\<forall>j. c_stream ?c j \<noteq> Some 0" "healthy sample_conn" "length (l_conns ?l) = 0"
    by (simp_all add: sample_connector_def sample_conn_def healthy_def)
  ultimately show ?thesis
    using stream_opens [of sample_tenv sample_env ?c "sample_server []" 2 1 ?l 7 0 _ 0 "\<lambda>_. Inr sample_conn" sample_conn] by metis
qed

theorem reply_delivered_witness:
  "\<exists>m c' s' l'. reply_rounds sample_tenv sample_env 2 1 7 0 (map (\<lambda>_. 2) [0..<m])
      (sample_connector, sample_server [], sample_ready\<lparr>l_conns := [sample_conn\<lparr>rx := [79, 75, 33]\<rparr>]\<rparr>) = Some (c', s', l') \<and>
     tx (c_conns c' ! 0) = [79, 75, 33]"
proof -
  let ?l = "sample_ready\<lparr>l_conns := [sample_conn\<lparr>rx := [79, 75, 33]\<rparr>]\<rparr>"
  have "linked sample_tenv sample_env sample_connector (sample_server []) 2 1 ?l"
    by (rule sample_linked) (simp_all add: sample_connector_def sample_ready_def sample_listener_def NewConnector_def NewListener_def
        connector_inv_def listener_inv_def streams_ok_def)
  then have "answering sample_tenv sample_env 2 1 7 0 0 (sample_connector, sample_server [], ?l)"
    by (simp add: answering_def sample_connector_def sample_conn_def healthy_def)
  from reply_delivered [OF this, of "\<lambda>_. 2"] sample_fits(1) show ?thesis
    by (auto simp: sample_connector_def sample_conn_def)
qed

end
