(* ===== verification/Proto_Tight.thy ===== *)
theory Proto_Tight
  imports Proto_Wire
begin

text \<open>
  Whatever bytes are decoded, encoding the result again does not take more room: numbers may have been padded, fields may
  have been given twice, with their zero value, or without being known.
\<close>

lemma add_le_times: "2 \<le> a \<Longrightarrow> 2 \<le> b \<Longrightarrow> a + b \<le> a * (b :: nat)"
  by (auto simp: le_iff_add algebra_simps)

lemma put_varint_add: "length (put_varint (m + n)) \<le> length (put_varint m) + length (put_varint n)"
proof -
  let ?i = "length (put_varint m)" and ?j = "length (put_varint n)"
  have "m < 128 ^ ?i" "n < 128 ^ ?j" using put_varint_le_iff [OF put_varint_pos] by blast+
  moreover have "(2 :: nat) \<le> 128 ^ ?i" "(2 :: nat) \<le> 128 ^ ?j"
    using power_increasing [of 1 ?i "128 :: nat"] power_increasing [of 1 ?j "128 :: nat"] by (simp_all add: Suc_le_eq)
  then have "(128 :: nat) ^ ?i + 128 ^ ?j \<le> 128 ^ ?i * 128 ^ ?j" by (rule add_le_times)
  ultimately have "m + n < 128 ^ (?i + ?j)" by (simp add: power_add)
  then show ?thesis by (subst put_varint_le_iff) simp_all
qed

lemma get_varint_octets: "get_varint k bs = Some (n, r) \<Longrightarrow> length (put_varint n) + length r \<le> length bs"
proof (induction k bs arbitrary: n r rule: get_varint.induct)
  case (2 k b bs)
  show ?case
  proof (cases "unat b < 128")
    case True
    then show ?thesis using 2(2) by (auto simp: put_varint.simps [of n] split: if_splits)
  next
    case False
    then obtain m where m: "get_varint (Suc k) bs = Some (m, r)" "n = unat b - 128 + 128 * m" "\<not> (9 \<le> k \<and> 2 \<le> unat b)"
      using 2(2) by (auto split: if_splits option.splits)
    have "unat b < 256" using unsigned_less [of b, where ?'a = nat] by simp
    then have "n div 128 = m" using m(2) False by simp
    then have "length (put_varint n) \<le> Suc (length (put_varint m))" by (subst put_varint.simps) simp
    then show ?thesis using 2(1) [OF m(3) False m(1)] by simp
  qed
qed simp

lemma get_value_octets:
  "get_value ty bs = Some (w, r) \<Longrightarrow> wire_type w = ty \<and> length (put_value w) + length r \<le> length bs"
  by (auto simp: get_value_def split: if_splits option.splits dest!: get_varint_octets)

lemma get_field_octets: "get_field bs = Some (x, r) \<Longrightarrow> length (put_field x) + length r \<le> length bs"
proof -
  assume "get_field bs = Some (x, r)"
  then obtain t r' w where t: "get_varint 0 bs = Some (t, r')" "get_value (t mod 8) r' = Some (w, r)" "x = (t div 8, w)"
    by (auto simp: get_field_def split: option.splits if_splits)
  then show ?thesis using get_varint_octets [OF t(1)] get_value_octets [OF t(2)] by (simp add: put_field_def)
qed

lemma get_fields_octets: "get_fields bs = Some ws \<Longrightarrow> octets ws \<le> length bs"
proof (induction bs arbitrary: ws rule: get_fields.induct)
  case (1 bs)
  show ?case
  proof (cases "bs = []")
    case True
    then show ?thesis using 1(2) by simp
  next
    case False
    then obtain x r ws' where x: "get_field bs = Some (x, r)" "get_fields r = Some ws'" "ws = x # ws'"
      using 1(2) by (subst (asm) get_fields.simps) (auto split: option.splits)
    then show ?thesis using 1(1) [OF False x(1) refl x(2)] get_field_octets [OF x(1)] by simp
  qed
qed

text \<open>The fields of a message as they have been read: of the kind the schema says, and valid.\<close>

fun kind_of :: "scalar \<Rightarrow> field_kind" where
  "kind_of (Bool_field b) = Kind_bool"
| "kind_of (Uint32_field n) = Kind_uint32"
| "kind_of (String_field s) = Kind_string"
| "kind_of (Bytes_field b) = Kind_bytes"

definition typed :: "(nat \<times> field_kind) list \<Rightarrow> (nat \<rightharpoonup> scalar) \<Rightarrow> bool" where
  "typed ks f \<longleftrightarrow> (\<forall>n x. f n = Some x \<longrightarrow> map_of ks n = Some (kind_of x) \<and> valid_scalar x)"

definition scalar_octets :: "nat \<Rightarrow> scalar option \<Rightarrow> nat" where
  "scalar_octets n x = (case x of None \<Rightarrow> 0 | Some y \<Rightarrow> octets (put_scalar (n, y)))"

definition fields_octets :: "(nat \<times> field_kind) list \<Rightarrow> (nat \<rightharpoonup> scalar) \<Rightarrow> nat" where
  "fields_octets ks f = sum_list (map (\<lambda>(n, k). scalar_octets n (f n)) ks)"

lemma fields_octets_empty [simp]: "fields_octets ks Map.empty = 0"
  by (induction ks) (simp_all add: fields_octets_def scalar_octets_def split: prod.split)

lemma fields_octets_upd:
  "distinct (map fst ks) \<Longrightarrow> fields_octets ks (f(n \<mapsto> x)) \<le> fields_octets ks f + scalar_octets n (Some x)"
proof (induction ks)
  case (Cons y ks)
  obtain m k where y: "y = (m, k)" by (cases y)
  show ?case
  proof (cases "m = n")
    case True
    with Cons.prems have "\<forall>z\<in>set ks. fst z \<noteq> n" by (auto simp: y)
    then have "fields_octets ks (f(n \<mapsto> x)) = fields_octets ks f"
      unfolding fields_octets_def by (intro arg_cong [where f = sum_list] map_cong) auto
    then show ?thesis by (simp add: fields_octets_def y True)
  next
    case False
    then show ?thesis using Cons by (simp add: fields_octets_def y)
  qed
qed (simp add: fields_octets_def)

lemma unat_of_nat_le: "unat (of_nat v :: u32) \<le> v"
  by (simp add: unat_of_nat take_bit_eq_mod)

lemma read_scalar_octets:
  "read_scalar k w = Some x \<Longrightarrow> kind_of x = k \<and> scalar_octets n (Some x) \<le> length (put_field (n, w))"
  by (cases "(k, w)" rule: read_scalar.cases)
     (auto simp: scalar_octets_def put_field_def unat_of_nat_le intro!: put_varint_mono split: option.splits if_splits)

lemma read_message_octets:
  assumes "distinct (map fst ks)" "read_message ks ws f = Some f'" "typed ks f"
  shows "typed ks f' \<and> fields_octets ks f' \<le> fields_octets ks f + octets ws"
  using assms
proof (induction ks ws f rule: read_message.induct)
  case (2 ks n w ws f)
  show ?case
  proof (cases "Option.bind (map_of ks n) (\<lambda>k. read_scalar k w)")
    case None
    then show ?thesis using "2.IH"(1) "2.prems" by simp
  next
    case (Some x)
    then obtain k where k: "map_of ks n = Some k" "read_scalar k w = Some x" by (auto simp: bind_eq_Some_conv)
    have v: "valid_scalar x" using "2.prems"(2) Some by (auto split: if_splits)
    note r = read_scalar_octets [OF k(2), of n]
    have t: "typed ks (f(n \<mapsto> x))" using "2.prems"(3) k(1) r v by (simp add: typed_def)
    have "read_message ks ws (f(n \<mapsto> x)) = Some f'" using "2.prems"(2) Some v by simp
    from "2.IH"(2) [OF Some v "2.prems"(1) this t]
    have "typed ks f' \<and> fields_octets ks f' \<le> fields_octets ks (f(n \<mapsto> x)) + octets ws" by (simp add: fun_upd_def)
    then show ?thesis using r fields_octets_upd [OF "2.prems"(1), of f n x] by auto
  qed
qed simp

lemma message_schema_distinct: "distinct (map fst (message_schema n))"
  by (simp add: message_schema_def)

lemma typed_cases:
  assumes "typed ks f" "map_of ks n = Some k"
  shows "case k of Kind_bool \<Rightarrow> scalar_octets n (f n) = octets (put_scalar (n, Bool_field (the_bool (f n))))
    | Kind_uint32 \<Rightarrow> scalar_octets n (f n) = octets (put_scalar (n, Uint32_field (the_uint32 (f n))))
    | Kind_string \<Rightarrow> scalar_octets n (f n) = octets (put_scalar (n, String_field (the_string (f n)))) \<and> ValidString (the_string (f n))
    | Kind_bytes \<Rightarrow> scalar_octets n (f n) = octets (put_scalar (n, Bytes_field (the_bytes (f n))))"
proof (cases "f n")
  case None
  then show ?thesis by (cases k) (simp_all add: schema_simps scalar_octets_def)
next
  case (Some x)
  with assms have "kind_of x = k" "valid_scalar x" by (auto simp: typed_def)
  then show ?thesis using Some by (cases x) (auto simp: schema_simps scalar_octets_def)
qed

lemma message_of_fields_octets:
  assumes "1 \<le> n" "n \<le> 13" "typed (message_schema n) f"
  shows "\<exists>p. message_of_fields n f = Some p \<and> payload_number p = n \<and> valid_message p \<and>
    length (message_bytes p) = fields_octets (message_schema n) f"
proof -
  note c = typed_cases [OF assms(3)]
  have "n \<in> {1, 2, 3, 4, 5, 6, 7, 8, 9, 10, 11, 12, 13}" using assms(1,2) by (simp only: insert_iff empty_iff) presburger
  then show ?thesis
    using c [of 1] c [of 2] c [of 3]
    by (elim insertE emptyE)
       (simp_all add: message_schema_def message_of_fields_def length_message_bytes_eq wire_fields_def fields_octets_def
          valid_message_def del: put_scalar.simps)
qed

text \<open>What the part of an envelope that has been read takes when it is written again.\<close>

definition payload_octets :: "(nat \<times> (nat \<rightharpoonup> scalar)) option \<Rightarrow> nat" where
  "payload_octets p =
     (case p of
        None \<Rightarrow> 0
      | Some (n, f) \<Rightarrow> let m = fields_octets (message_schema n) f in 1 + length (put_varint m) + m)"

definition payload_typed :: "(nat \<times> (nat \<rightharpoonup> scalar)) option \<Rightarrow> bool" where
  "payload_typed p = (case p of None \<Rightarrow> True | Some (n, f) \<Rightarrow> 1 \<le> n \<and> n \<le> 13 \<and> typed (message_schema n) f)"

lemma payload_octets_merge:
  assumes "fields_octets (message_schema n) f \<le> fields_octets (message_schema n) (read_so_far n p) + length b"
  shows "payload_octets (Some (n, f)) \<le> payload_octets p + 1 + length (put_varint (length b)) + length b"
proof (cases "p = Some (n, read_so_far n p)")
  case True
  have "payload_octets p = payload_octets (Some (n, read_so_far n p))" using True by simp
  then show ?thesis
    using put_varint_mono [OF assms] put_varint_add [of "fields_octets (message_schema n) (read_so_far n p)" "length b"] assms
    by (simp add: payload_octets_def Let_def)
next
  case False
  then have "read_so_far n p = Map.empty" by (auto simp: read_so_far_def split: option.splits if_splits)
  then show ?thesis using put_varint_mono [OF assms] assms by (simp add: payload_octets_def Let_def)
qed

lemma read_part_octets:
  assumes "read_part n b p = Some f" "payload_typed p" "1 \<le> n" "n \<le> 13"
  shows "payload_typed (Some (n, f)) \<and> payload_octets (Some (n, f)) \<le> payload_octets p + length (put_field (n, Len_value b))"
proof -
  obtain fs where fs: "get_fields b = Some fs" "read_message (message_schema n) fs (read_so_far n p) = Some f"
    using assms(1) by (auto simp: read_part_def bind_eq_Some_conv)
  have "typed (message_schema n) (read_so_far n p)" using assms(2)
    by (auto simp: read_so_far_def payload_typed_def typed_def split: option.splits)
  note r = read_message_octets [OF message_schema_distinct fs(2) this]
  have "fields_octets (message_schema n) f \<le> fields_octets (message_schema n) (read_so_far n p) + length b"
    using r get_fields_octets [OF fs(1)] by simp
  from payload_octets_merge [OF this] show ?thesis
    using r assms(3,4) length_put_Len [OF assms(3,4), of b] by (simp add: payload_typed_def)
qed

lemma read_envelope_octets:
  "read_envelope ws p = Some p' \<Longrightarrow> payload_typed p \<Longrightarrow> payload_typed p' \<and> payload_octets p' \<le> payload_octets p + octets ws"
proof (induction ws arbitrary: p)
  case (Cons x ws)
  show ?case
  proof (cases "embedded x")
    case None
    then have "payload_typed p' \<and> payload_octets p' \<le> payload_octets p + octets ws" using Cons.IH Cons.prems by simp
    then show ?thesis by simp
  next
    case (Some b)
    then have x: "x = (fst x, Len_value b)" "1 \<le> fst x" "fst x \<le> 13" by (cases x rule: embedded.cases; simp split: if_splits)+
    obtain f where f: "read_part (fst x) b p = Some f" "read_envelope ws (Some (fst x, f)) = Some p'"
      using Cons.prems(1) Some by (auto split: option.splits)
    note r = read_part_octets [OF f(1) Cons.prems(2) x(2,3)]
    then have "payload_typed p' \<and> payload_octets p' \<le> payload_octets (Some (fst x, f)) + octets ws"
      using Cons.IH [OF f(2)] by blast
    moreover have "put_field x = put_field (fst x, Len_value b)" using x(1) by simp
    ultimately show ?thesis using r by (auto simp del: prod.collapse)
  qed
qed simp

text \<open>The contract: what can be decoded can be encoded again, in no more bytes.\<close>

definition codec_tight :: "codec \<Rightarrow> bool" where
  "codec_tight c \<longleftrightarrow> (\<forall>d e. length d < 2 ^ 63 \<longrightarrow> Unmarshal c d = Inr e \<longrightarrow> (\<exists>d'. Marshal c e = Inr d' \<and> length d' \<le> length d))"

lemma proto_codec_tight: "codec_tight proto_codec"
proof -
  have "\<exists>d'. proto_Marshal e = Inr d' \<and> length d' \<le> length d" if d: "length d < 2 ^ 63" "proto_Unmarshal d = Inr e" for d e
  proof -
    obtain ws p where ws: "get_fields d = Some ws" "read_envelope ws None = Some p"
      using d(2) by (auto simp: proto_Unmarshal_def bind_eq_Some_conv split: option.splits)
    have r: "payload_typed p" "payload_octets p \<le> length d"
      using read_envelope_octets [OF ws(2)] get_fields_octets [OF ws(1)] by (simp_all add: payload_typed_def payload_octets_def)
    show ?thesis
    proof (cases p)
      case None
      then have "Envelope_Payload e = None" using d(2) ws by (auto simp: proto_Unmarshal_def)
      then show ?thesis by (simp add: proto_Marshal_def)
    next
      case (Some nf)
      obtain n f where nf: "nf = (n, f)" by (cases nf)
      then have n: "1 \<le> n" "n \<le> 13" "typed (message_schema n) f" using r(1) Some by (auto simp: payload_typed_def)
      from message_of_fields_octets [OF this] obtain q where q: "message_of_fields n f = Some q" "payload_number q = n"
        "valid_message q" "length (message_bytes q) = fields_octets (message_schema n) f" by blast
      have e: "Envelope_Payload e = Some q" using d(2) ws q(1) Some nf by (auto simp: proto_Unmarshal_def)
      have "length (put_field (n, Len_value (message_bytes q))) \<le> length d"
        using r(2) Some nf q(4) length_put_Len [OF n(1,2)] by (simp add: payload_octets_def Let_def)
      moreover have "length (message_bytes q) < 2 ^ 63" using calculation length_put_value [of "message_bytes q" n] d(1) by simp
      ultimately show ?thesis using e q by (simp add: proto_Marshal_def)
    qed
  qed
  then show ?thesis by (simp add: codec_tight_def proto_codec_sel)
qed

end
