(* ===== verification/Relay_Robust.thy ===== *)
theory Relay_Robust
  imports Server Proto_Tight
begin






end
