(* ===== verification/Broker_Gate.thy ===== *)
theory Broker_Gate
  imports Broker_Invariant
begin

text \<open>
  The gate in front of the handlers, over all runs of the broker: nobody whose address a filter blocks is ever served, and a
  connection that is turned away costs nothing.
\<close>

definition filtered :: "server \<Rightarrow> string \<Rightarrow> bool" where
  "filtered s addr \<longleftrightarrow>
     (\<exists>db ip port n. ipFilter s = Some db \<and> SplitHostPort addr = Inr (ip, port) \<and> IsBlocked db ip = (True, n)) \<or>
     (\<exists>db ip port code. geoFilter s = Some db \<and> SplitHostPort addr = Inr (ip, port) \<and> geo_IsBlocked db ip = (True, code))"

lemma filtered_cong: "config s' = config s \<Longrightarrow> filtered s' addr = filtered s addr"
  by (simp add: filtered_def config_def)

lemma ip_blocked_None:
  "ip_blocked s addr = None \<longleftrightarrow>
    \<not> (\<exists>db ip port n. ipFilter s = Some db \<and> SplitHostPort addr = Inr (ip, port) \<and> IsBlocked db ip = (True, n))"
  by (auto simp: ip_blocked_def split: option.splits sum.splits prod.splits bool.splits)

lemma geo_blocked_None:
  "geo_blocked s addr = None \<longleftrightarrow>
    \<not> (\<exists>db ip port code. geoFilter s = Some db \<and> SplitHostPort addr = Inr (ip, port) \<and> geo_IsBlocked db ip = (True, code))"
  by (auto simp: geo_blocked_def split: option.splits sum.splits prod.splits bool.splits)

lemma security_warn_disk: "security_warn s tag msg = s\<lparr>disk := disk (security_warn s tag msg)\<rparr>"
  by (simp add: security_warn_def split: option.split)

lemma blocked_logs:
  assumes "filtered s addr"
  shows "\<exists>s' tag msg. acceptLoop_round s (Inr (cn, addr)) = (Rejected (conn_Close cn), s') \<and> s' = security_warn s tag msg \<and>
    tag \<in> {''IPBLOCK'', ''GEOBLOCK''}"
proof (cases "ip_blocked s addr")
  case (Some s1)
  then show ?thesis
    by (auto simp: acceptLoop_round_def ip_blocked_def logBlockedIP_def logTagIPBlock_def split: option.splits sum.splits prod.splits bool.splits)
next
  case None
  then obtain s1 where "geo_blocked s addr = Some s1"
    using assms ip_blocked_None [of s addr] geo_blocked_None [of s addr] by (auto simp: filtered_def)
  then show ?thesis using None
    by (auto simp: acceptLoop_round_def geo_blocked_def logGeoBlockedIP_def logTagGeoBlock_def split: option.splits sum.splits prod.splits bool.splits)
qed

lemma unfiltered_outcome:
  assumes "\<not> filtered s addr"
  shows "acceptLoop_round s (Inr (cn, addr)) =
    (if 1024 \<le> connSem s then (Rejected (conn_Close cn), s) else (Spawn cn, s\<lparr>connSem := connSem s + 1\<rparr>))"
  using assms ip_blocked_None [of s addr] geo_blocked_None [of s addr]
  by (simp add: filtered_def acceptLoop_round_def DefaultMaxConnections_def)

lemma blocked_hub: "ip_blocked s addr = Some s' \<Longrightarrow> hub s' = hub s" "geo_blocked s addr = Some s' \<Longrightarrow> hub s' = hub s"
  by (auto simp: ip_blocked_def geo_blocked_def log_defs split: option.splits sum.splits prod.splits bool.splits)

lemma accept_hub: "acceptLoop_round s acc = (r, s') \<Longrightarrow> hub s' = hub s"
  by (auto simp: acceptLoop_round_def dest: blocked_hub split: sum.splits option.splits if_splits)

lemma accept_unfiltered: "acceptLoop_round s (Inr (cn, addr)) = (Spawn cn', s') \<Longrightarrow> \<not> filtered s addr"
proof
  assume "acceptLoop_round s (Inr (cn, addr)) = (Spawn cn', s')" "filtered s addr"
  then show False using blocked_logs [of s addr cn] by auto
qed

subsection \<open>The addresses the broker works for\<close>

definition addresses :: "hub \<Rightarrow> string set" where
  "addresses h = remote ` set (heap h)"

lemma addresses_upd:
  assumes "\<And>x. remote (f x) = remote x"
  shows "addresses (cc_upd c f h) = addresses h"
proof -
  have "map remote (heap (cc_upd c f h)) = map remote (heap h)"
  proof (rule nth_equalityI)
    fix i
    assume "i < length (map remote (heap (cc_upd c f h)))"
    then show "map remote (heap (cc_upd c f h)) ! i = map remote (heap h) ! i"
      by (cases "i = c") (simp_all add: cc_upd_def assms)
  qed simp
  then have "set (map remote (heap (cc_upd c f h))) = set (map remote (heap h))" by simp
  then show ?thesis by (simp add: addresses_def)
qed

lemma addresses_router [simp]: "addresses (h\<lparr>router := r\<rparr>) = addresses h" "addresses (h\<lparr>now := t\<rparr>) = addresses h"
  by (simp_all add: addresses_def)

lemma addresses_ops [simp]:
  "addresses (cc_conn_Close c h) = addresses h" "addresses (SetConnectionID c i h) = addresses h"
  "addresses (UpdateLastSeen c h) = addresses h" "addresses (close_remove E c h) = addresses h"
  "addresses (snd (cc_Send E h c e)) = addresses h" "addresses (close_notify E c h) = addresses h"
  "addresses (set_conn c cn h) = addresses h"
  by (simp_all add: cc_conn_Close_def SetConnectionID_def UpdateLastSeen_def close_remove_def cc_Send_def close_notify_def
      set_conn_def addresses_upd split: prod.split)

lemma addresses_receive:
  "cc_Receive E h c = (r, h') \<Longrightarrow> addresses h' = addresses h" "cc_ReceiveRaw E h c = (raw, r, h') \<Longrightarrow> addresses h' = addresses h"
  "cc_Send E h c e = (x, h') \<Longrightarrow> addresses h' = addresses h" "close_begin c h = (p, h') \<Longrightarrow> addresses h' = addresses h"
  by (auto simp: cc_Receive_def cc_ReceiveRaw_def cc_Send_def close_begin_def Let_def addresses_upd split: prod.splits)

lemma addresses_close_step: "close_step E pc h = (pc', h') \<Longrightarrow> addresses h' = addresses h"
  by (cases pc) (auto split: if_splits prod.splits dest: addresses_receive)

lemma addresses_authenticate: "authenticateClient E s c = (r, s') \<Longrightarrow> addresses (hub s') = addresses (hub s)"
  by (auto simp: authenticateClient_def Let_def log_defs dest: addresses_receive split: prod.splits sum.splits option.splits if_splits)

lemma addresses_handler_step:
  assumes "handler_step E rnd sent ph s = (ph', s')"
  shows "addresses (hub s') \<subseteq> addresses (hub s) \<union> {addr. \<exists>cn. ph = Handshaking cn addr}"
proof (cases ph)
  case (Handshaking cn addr)
  then show ?thesis using assms
    by (auto simp: new_client_def NewClientConn_def trackClient_def addresses_def split: prod.splits sum.splits)
qed (use assms in \<open>auto simp: untrackClient_def release_slot_def first_message_def listener_register_def
      listener_reject_def listener_ack_def connector_link_def connector_reject_def connector_ack_def unexpected_reject_def
      relay_receive_def relay_send_def send_to_def StartHeartbeat_def logInvalidConnectionID_def Let_def
      dest: addresses_receive addresses_close_step addresses_authenticate
      split: prod.splits sum.splits option.splits role.splits relay_in.splits if_splits\<close>)

text \<open>The connections that have a handler, by the address they come from: those in the handshake, and the clients.\<close>

definition served :: "broker \<Rightarrow> string set" where
  "served b = addresses (hub (srv b)) \<union> {addr. \<exists>cn. Handshaking cn addr \<in> set (handlers b)}"

lemma handler_step_handshaking:
  "handler_step E rnd sent ph s = (ph', s') \<Longrightarrow> ph' \<noteq> Handshaking cn addr"
  by (cases ph) (auto split: prod.splits sum.splits option.splits role.splits relay_in.splits if_splits)

lemma served_step:
  assumes "broker_step E b b'"
  shows "served b' \<subseteq> served b \<union> {addr. \<not> filtered (srv b) addr}"
  using assms
proof cases
  case (accept_spawn cn addr cn' s')
  have "\<not> filtered (srv b) addr" "hub s' = hub (srv b)"
    using accept_unfiltered [OF accept_spawn(3)] accept_hub [OF accept_spawn(3)] .
  then show ?thesis using accept_spawn(1) by (auto simp: served_def)
next
  case (accept_other acc r s')
  then show ?thesis using accept_hub [OF accept_other(2)] by (simp add: served_def)
next
  case (handler i rnd sent ph' s')
  have "Handshaking cn addr \<in> set (handlers b)" if "Handshaking cn addr \<in> set ((handlers b)[i := ph'])" for cn addr
    using that handler_step_handshaking [OF handler(3)] set_update_subset_insert [of "handlers b" i ph'] by blast
  then show ?thesis using addresses_handler_step [OF handler(3)] nth_mem [OF handler(2)] handler(1)
    unfolding served_def by fastforce
next
  case (closer i pc' h')
  then show ?thesis using addresses_close_step [OF closer(3)] by (simp add: served_def)
next
  case (beat c pick t h')
  then have "addresses h' = addresses (hub (srv b))" by (auto simp: heartbeat_round_def split: if_splits)
  then show ?thesis using beat(1) by (simp add: served_def)
qed (auto simp: served_def)


definition gate_ok :: "broker \<Rightarrow> bool" where
  "gate_ok b \<longleftrightarrow> (\<forall>addr\<in>served b. \<not> filtered (srv b) addr)"

lemma init_gate_ok: "broker_init b \<Longrightarrow> gate_ok b"
  using init_server [of b] by (auto simp: gate_ok_def served_def addresses_def broker_init_def)

interpretation gate_sys: step_system "broker_step E" broker_init gate_ok for E
proof unfold_locales
  fix b b'
  assume "gate_ok b" "broker_step E b b'"
  then show "gate_ok b'"
    using served_step [of E b b'] filtered_cong [OF broker_step_config] unfolding gate_ok_def by blast
qed (rule init_gate_ok)

text \<open>C24: nobody whose address the broker is told to block is ever served. In every reachable state, every client the broker
  has had and every connection in its handshake comes from an address that neither the configured IP list nor the configured
  country filter blocks. A connection from a blocked address is closed at once and changes nothing but the security log,
  where its tag appears; one that comes while 1024 handlers run is closed at once and changes nothing. Every other connection
  takes one slot and gets a handler.\<close>

theorem accept_gate:
  assumes "reachable E b"
  shows "(\<forall>c < length (heap (hub (srv b))). \<not> filtered (srv b) (RemoteAddr (hub (srv b)) c)) \<and>
    (\<forall>cn addr. Handshaking cn addr \<in> set (handlers b) \<longrightarrow> \<not> filtered (srv b) addr) \<and>
    (\<forall>cn addr. filtered (srv b) addr \<longrightarrow>
       (\<exists>s' tag msg. acceptLoop_round (srv b) (Inr (cn, addr)) = (Rejected (conn_Close cn), s') \<and>
          s' = (srv b)\<lparr>disk := disk s'\<rparr> \<and> s' = security_warn (srv b) tag msg \<and> tag \<in> {''IPBLOCK'', ''GEOBLOCK''})) \<and>
    (\<forall>cn addr. \<not> filtered (srv b) addr \<longrightarrow> acceptLoop_round (srv b) (Inr (cn, addr)) =
       (if 1024 \<le> connSem (srv b) then (Rejected (conn_Close cn), srv b)
        else (Spawn cn, (srv b)\<lparr>connSem := connSem (srv b) + 1\<rparr>)))"
proof (intro conjI allI impI)
  have g: "gate_ok b" using assms gate_sys.reachable_keeps unfolding reachable_def by blast
  show "\<not> filtered (srv b) (RemoteAddr (hub (srv b)) c)" if "c < length (heap (hub (srv b)))" for c
    using g that by (simp add: gate_ok_def served_def addresses_def RemoteAddr_def)
  show "\<not> filtered (srv b) addr" if "Handshaking cn addr \<in> set (handlers b)" for cn addr
    using g that by (auto simp: gate_ok_def served_def)
  show "\<exists>s' tag msg. acceptLoop_round (srv b) (Inr (cn, addr)) = (Rejected (conn_Close cn), s') \<and>
          s' = (srv b)\<lparr>disk := disk s'\<rparr> \<and> s' = security_warn (srv b) tag msg \<and> tag \<in> {''IPBLOCK'', ''GEOBLOCK''}"
    if "filtered (srv b) addr" for cn addr
    using blocked_logs [OF that, of cn] security_warn_disk by metis
qed (rule unfiltered_outcome)

text \<open>A broker with a one-entry IP list; one connection is accepted, one from the listed address is not.\<close>

definition gate_options :: "ServerOption list" where
  "gate_options = [WithIPFilter (Some \<lparr>ips = [''1.2.3.4'' \<mapsto> 5], minCount = 3\<rparr>)]"

definition gate_start :: broker where
  "gate_start = \<lparr>srv = snd (Start (\<lambda>a. Inr a) (NewServer sample_fs sample_now 0 '':1781'' gate_options)), handlers = [], closers = []\<rparr>"

lemma gate_start_init: "broker_init gate_start"
proof (rule broker_initI)
  show "Start (\<lambda>a. Inr a) (NewServer sample_fs sample_now 0 '':1781'' gate_options) = (None, srv gate_start)"
    by (simp add: gate_start_def Start_def)
qed (auto simp: gate_start_def gate_options_def)

lemma gate_start_server:
  "ipFilter (srv gate_start) = Some \<lparr>ips = [''1.2.3.4'' \<mapsto> 5], minCount = 3\<rparr>" "geoFilter (srv gate_start) = None"
  "connSem (srv gate_start) = 0" "accepting (srv gate_start)"
  by (simp_all add: gate_start_def gate_options_def Start_def NewServer_def WithIPFilter_def Let_def)

lemma gate_addresses:
  "filtered (srv gate_start) ''1.2.3.4:5000''" "\<not> filtered (srv gate_start) ''10.0.0.1:5000''"
proof -
  have "SplitHostPort ''1.2.3.4:5000'' = Inr (''1.2.3.4'', ''5000'')" "SplitHostPort ''10.0.0.1:5000'' = Inr (''10.0.0.1'', ''5000'')"
    by code_simp+
  moreover have "IsBlocked \<lparr>ips = [''1.2.3.4'' \<mapsto> 5], minCount = 3\<rparr> ''1.2.3.4'' = (True, 5)"
    "IsBlocked \<lparr>ips = [''1.2.3.4'' \<mapsto> 5], minCount = 3\<rparr> ''10.0.0.1'' = (False, 0)" by code_simp+
  ultimately show "filtered (srv gate_start) ''1.2.3.4:5000''" "\<not> filtered (srv gate_start) ''10.0.0.1:5000''"
    by (simp_all add: filtered_def gate_start_server)
qed

theorem accept_gate_witness:
  "\<exists>b s'. reachable sample_env b \<and> handlers b = [Handshaking sample_conn ''10.0.0.1:5000''] \<and>
     acceptLoop_round (srv b) (Inr (sample_conn, ''1.2.3.4:5000'')) = (Rejected (conn_Close sample_conn), s') \<and> connSem s' = 1"
proof -
  define b where "b = gate_start\<lparr>srv := (srv gate_start)\<lparr>connSem := 1\<rparr>, handlers := [Handshaking sample_conn ''10.0.0.1:5000'']\<rparr>"
  have "acceptLoop_round (srv gate_start) (Inr (sample_conn, ''10.0.0.1:5000'')) = (Spawn sample_conn, (srv gate_start)\<lparr>connSem := 1\<rparr>)"
    using unfiltered_outcome [OF gate_addresses(2), of sample_conn] gate_start_server by simp
  then have "broker_step sample_env gate_start b"
    using accept_spawn [of gate_start sample_conn "''10.0.0.1:5000''"] gate_start_server(4) by (simp add: b_def gate_start_def)
  then have r: "reachable sample_env b" unfolding reachable_def using gate_start_init by blast
  have f: "filtered (srv b) ''1.2.3.4:5000''"
    using gate_addresses(1) filtered_cong [of "srv b" "srv gate_start"] by (simp add: b_def config_def)
  from accept_gate [OF r] f obtain s' where
    s': "acceptLoop_round (srv b) (Inr (sample_conn, ''1.2.3.4:5000'')) = (Rejected (conn_Close sample_conn), s')"
      "s' = (srv b)\<lparr>disk := disk s'\<rparr>" by blast
  have "connSem s' = connSem (srv b)" by (subst s'(2)) simp
  then have "connSem s' = 1" by (simp add: b_def)
  moreover have "handlers b = [Handshaking sample_conn ''10.0.0.1:5000'']" by (simp add: b_def)
  ultimately show ?thesis using r s'(1) by blast
qed

end
