(* ===== verification/Go_Fmt.thy ===== *)
theory Go_Fmt
  imports Go_Net Go_OS
begin

text \<open>
  The parts of Go's \<^verbatim>\<open>fmt\<close>, \<^verbatim>\<open>time\<close> and \<^verbatim>\<open>net\<close> that the command line uses to read
  numbers and to print errors, durations and addresses.
\<close>

subsection \<open>Errors\<close>

text \<open>\<^verbatim>\<open>err.Error()\<close>. The text of an error that comes from the network (it holds addresses and a message of
  the operating system) is given by \<open>net\<close>.\<close>

fun error_text :: "unicode_tables \<Rightarrow> (error \<Rightarrow> string) \<Rightarrow> error \<Rightarrow> string" where
  "error_text u net EOF = ''EOF''"
| "error_text u net ErrUnexpectedEOF = ''unexpected EOF''"
| "error_text u net (Errorf s) = s"
| "error_text u net (Wrapf p e) = p @ '': '' @ error_text u net e"
| "error_text u net (Quotedf p s q) = p @ Quote u s @ q"
| "error_text u net (QuotedWrapf p s e) = p @ Quote u s @ '': '' @ error_text u net e"
| "error_text u net e = net e"

subsection \<open>Scanning a number\<close>

text \<open>\<^verbatim>\<open>SkipSpace\<close> of a scan in which a line break is not white space (\<^term>\<open>None\<close>: unexpected
  newline).\<close>

function SkipSpace :: "string \<Rightarrow> string option" where
  "SkipSpace s =
     (if s \<noteq> [] \<and> hd s = newline then None
      else if space_at s = 0 then Some s
      else SkipSpace (drop (space_at s) s))"
  by auto
termination
proof (relation "measure length")
  fix s :: string assume "space_at s \<noteq> 0"
  with space_at_le [of s] show "(drop (space_at s) s, s) \<in> measure length" by simp
qed simp

declare SkipSpace.simps [simp del]

text \<open>\<^verbatim>\<open>fmt.Sscanf(s, "%d", &n)\<close>: white space, a sign, digits; what follows is not read.\<close>

definition Sscanf_d :: "string \<Rightarrow> int result" where
  "Sscanf_d s =
     (case SkipSpace s of
        None \<Rightarrow> Inl (Errorf ''unexpected newline'')
      | Some [] \<Rightarrow> Inl EOF
      | Some t \<Rightarrow>
          let sign = (if HasPrefix t ''-'' \<or> HasPrefix t ''+'' then take 1 t else []);
              digits = takeWhile is_digit (drop (length sign) t)
          in if drop (length sign) t = [] then Inl ErrUnexpectedEOF
             else if digits = [] then Inl (Errorf ''expected integer'')
             else Atoi (sign @ digits))"

subsection \<open>Durations\<close>

definition Millisecond :: int where "Millisecond = 1000000"

definition Duration_Round :: "int \<Rightarrow> int \<Rightarrow> int" where
  "Duration_Round d m =
     (if m \<le> 0 then d
      else let r = \<bar>d\<bar> mod m
      in if d < 0
         then (if 2 * r < m then d + r else max (d - m + r) (- (2 ^ 63)))
         else (if 2 * r < m then d - r else min (d + m - r) (2 ^ 63 - 1)))"

definition fmtFrac :: "nat \<Rightarrow> nat \<Rightarrow> string" where
  "fmtFrac v prec =
     (let ds = rev (dropWhile (\<lambda>c. c = CHR ''0'') (rev (zero_pad prec (v mod 10 ^ prec))))
      in if v mod 10 ^ prec = 0 then [] else ''.'' @ ds)"

definition Duration_String :: "int \<Rightarrow> string" where
  "Duration_String d =
     (let u = nat \<bar>d\<bar>;
          small = (\<lambda>prec unit. dec (u div 10 ^ prec) @ fmtFrac u prec @ unit);
          s = u div 10 ^ 9;
          sec = dec (s mod 60) @ fmtFrac u 9 @ ''s'';
          body = (if u = 0 then ''0s''
                  else if u < 1000 then small 0 ''ns''
                  else if u < 1000000 then small 3 [CHR 0xC2, CHR 0xB5, CHR ''s'']
                  else if u < 1000000000 then small 6 ''ms''
                  else if s < 60 then sec
                  else if s < 3600 then dec (s div 60) @ ''m'' @ sec
                  else dec (s div 3600) @ ''h'' @ dec (s div 60 mod 60) @ ''m'' @ sec)
      in if d < 0 then ''-'' @ body else body)"

subsection \<open>Padding\<close>

function RuneCount :: "string \<Rightarrow> nat" where
  "RuneCount s = (if s = [] then 0 else 1 + RuneCount (drop (snd (DecodeRune s)) s))"
  by auto
termination
proof (relation "measure length")
  fix s :: string assume "s \<noteq> []"
  then show "(drop (snd (DecodeRune s)) s, s) \<in> measure length" using DecodeRune_width [of s] by simp
qed simp

declare RuneCount.simps [simp del]

text \<open>The verb \<^verbatim>\<open>%-ns\<close>.\<close>

definition pad_right :: "nat \<Rightarrow> string \<Rightarrow> string" where
  "pad_right n s = s @ replicate (n - RuneCount s) (CHR '' '')"

subsection \<open>Addresses\<close>

text \<open>A group of an IPv6 address: hexadecimal without leading zeros.\<close>

definition hex_number :: "nat \<Rightarrow> string" where
  "hex_number n = (if n < 16 then hex_digits 1 n else if n < 256 then hex_digits 2 n
     else if n < 4096 then hex_digits 3 n else hex_digits 4 n)"

fun groups :: "bytes \<Rightarrow> nat list" where
  "groups (a # b # bs) = (unat a * 256 + unat b) # groups bs"
| "groups _ = []"

text \<open>The zeros from an index on, and the longest run of two or more of them, the first of several.\<close>

definition zeros_from :: "nat list \<Rightarrow> nat \<Rightarrow> nat" where
  "zeros_from gs i = length (takeWhile (\<lambda>g. g = 0) (drop i gs))"

definition zero_run :: "nat list \<Rightarrow> nat \<times> nat" where
  "zero_run gs = foldl (\<lambda>(zs, ze) i. let l = zeros_from gs i in if 2 \<le> l \<and> ze - zs < l then (i, i + l) else (zs, ze))
     (255, 255) [0..<8]"

function string6 :: "nat \<Rightarrow> nat \<Rightarrow> nat \<Rightarrow> nat list \<Rightarrow> string" where
  "string6 zs ze i [] = []"
| "string6 zs ze i (g # gs) =
     (if i = zs
      then ''::'' @ (case drop (ze - zs) (g # gs) of [] \<Rightarrow> [] | h # rest \<Rightarrow> hex_number h @ string6 zs ze (ze + 1) rest)
      else (if 0 < i then '':'' else []) @ hex_number g @ string6 zs ze (i + 1) gs)"
  by pat_completeness auto
termination
proof (relation "measure (\<lambda>(zs, ze, i, gs). length gs)")
  fix zs ze i g gs h rest
  assume "drop (ze - zs) (g # gs) = (h :: nat) # rest"
  then have "length (h # rest) \<le> length (g # gs)" by (metis diff_le_self length_drop)
  then show "((zs, ze, ze + 1, rest), zs, ze, i, g # gs) \<in> measure (\<lambda>(zs, ze, i, gs). length gs)" by simp
qed simp_all

definition IPv6_String :: "bytes \<Rightarrow> string" where
  "IPv6_String ip = (case zero_run (groups ip) of (zs, ze) \<Rightarrow> string6 zs ze 0 (groups ip))"

text \<open>\<^verbatim>\<open>net.IP.String\<close>.\<close>

definition IP_String :: "bytes \<Rightarrow> string" where
  "IP_String ip =
     (if ip = [] then ''<nil>''
      else if length ip \<noteq> 4 \<and> length ip \<noteq> 16 then ''?'' @ concat (map (\<lambda>b. hex_digits 2 (unat b)) ip)
      else case To4 ip of Some p4 \<Rightarrow> IPv4_String p4 | None \<Rightarrow> IPv6_String ip)"

definition ip_Equal :: "bytes \<Rightarrow> bytes \<Rightarrow> bool" where
  "ip_Equal a b \<longleftrightarrow>
     (if length a = length b then a = b
      else if length a = 4 \<and> length b = 16 then b = v4_prefix @ a
      else if length a = 16 \<and> length b = 4 then a = v4_prefix @ b
      else False)"

definition IsUnspecified :: "bytes \<Rightarrow> bool" where
  "IsUnspecified ip \<longleftrightarrow> ip_Equal ip (v4_prefix @ [0, 0, 0, 0]) \<or> ip_Equal ip (replicate 16 0)"

definition IsMulticast :: "bytes \<Rightarrow> bool" where
  "IsMulticast ip \<longleftrightarrow>
     (case To4 ip of
        Some ip4 \<Rightarrow> unat (ip4 ! 0) div 16 = 14
      | None \<Rightarrow> length ip = 16 \<and> ip ! 0 = 255)"

text \<open>What is printed for an address: characters of an address only, and no colon for IPv4, one at least for IPv6.\<close>

definition ip_char :: "char \<Rightarrow> bool" where
  "ip_char c \<longleftrightarrow> is_digit c \<or> (97 \<le> ord c \<and> ord c \<le> 102) \<or> c = CHR ''.'' \<or> c = CHR '':''"

lemma ip_char_lowerhex: "ip_char (lowerhex (n mod 16))"
proof -
  have "n mod 16 \<le> 15" by simp
  then show ?thesis by (simp add: lowerhex_def ip_char_def is_digit_def)
qed

lemma ip_char_hex_digits: "list_all ip_char (hex_digits w n)"
  by (induction w arbitrary: n) (simp_all add: ip_char_lowerhex)

lemma ip_char_hex_number: "list_all ip_char (hex_number n)"
  unfolding hex_number_def by (simp only: ip_char_hex_digits split: if_split) simp

lemma ip_char_string6: "list_all ip_char (string6 zs ze i gs)"
proof (induction zs ze i gs rule: string6.induct)
  case (2 zs ze i g gs)
  have c: "ip_char (CHR '':'')" by (simp add: ip_char_def)
  show ?case using 2 c by (auto simp: ip_char_hex_number split: list.split)
qed simp

lemma colon_string6: "2 \<le> length gs \<Longrightarrow> CHR '':'' \<in> set (string6 zs ze i gs)"
proof (cases gs)
  case (Cons g gs')
  assume "2 \<le> length gs"
  then obtain h rest where "gs' = h # rest" using Cons by (cases gs') auto
  then show ?thesis using Cons by auto
qed simp

lemma length_groups: "length (groups bs) = length bs div 2"
  by (induction bs rule: groups.induct) auto

lemma ip_char_digits: "list_all is_digit s \<Longrightarrow> list_all ip_char s"
  by (simp add: list_all_iff ip_char_def)

lemma IP_String_chars:
  assumes "length ip = 4 \<or> length ip = 16"
  shows "list_all ip_char (IP_String ip)" "CHR '':'' \<in> set (IP_String ip) \<longleftrightarrow> To4 ip = None" "IP_String ip \<noteq> []"
    "To4 ip \<noteq> None \<Longrightarrow> hd (IP_String ip) \<noteq> CHR '':''"
proof -
  have d: "CHR '':'' \<notin> set (dec n)" for n
  proof -
    have "\<not> is_digit (CHR '':'')" by (simp add: is_digit_def)
    then show ?thesis using dec_digits [of n] unfolding list_all_iff by blast
  qed
  have ne: "ip \<noteq> []" using assms by auto
  have all: "list_all ip_char (IP_String ip) \<and> (CHR '':'' \<in> set (IP_String ip) \<longleftrightarrow> To4 ip = None) \<and> IP_String ip \<noteq> []"
  proof (cases "To4 ip")
    case None
    then have i: "IP_String ip = IPv6_String ip" "length ip = 16" using assms ne by (auto simp: IP_String_def To4_def split: if_splits)
    have "2 \<le> length (groups ip)" using i(2) by (simp add: length_groups)
    then have "CHR '':'' \<in> set (IPv6_String ip)" by (cases "zero_run (groups ip)") (simp add: IPv6_String_def colon_string6)
    moreover have "list_all ip_char (IPv6_String ip)" using ip_char_string6 by (simp add: IPv6_String_def split: prod.split)
    ultimately show ?thesis using None i(1) by auto
  next
    case (Some p4)
    then have "IP_String ip = IPv4_String p4" using assms ne by (auto simp: IP_String_def)
    then show ?thesis using Some d ip_char_digits [OF dec_digits] by (auto simp: IPv4_String_def ip_char_def)
  qed
  then show "list_all ip_char (IP_String ip)" "CHR '':'' \<in> set (IP_String ip) \<longleftrightarrow> To4 ip = None" "IP_String ip \<noteq> []" by auto
  show "hd (IP_String ip) \<noteq> CHR '':''" if "To4 ip \<noteq> None"
    using all that by (metis hd_in_set)
qed

text \<open>Printable ASCII is left alone by trimming.\<close>

lemma space_free:
  assumes "list_all (\<lambda>c. 32 < ord c \<and> ord c < 128) s"
  shows "TrimSpace s = s"
proof -
  have h: "p \<in> set space_runes \<Longrightarrow> \<not> (32 < ord (hd p) \<and> ord (hd p) < 128) \<and> \<not> (32 < ord (last p) \<and> ord (last p) < 128)" for p
    by (auto simp: space_runes_def)
  have "space_at s = 0"
  proof -
    have "take (length p) s \<noteq> p" if p: "p \<in> set space_runes" for p
    proof
      assume t: "take (length p) s = p"
      then have "hd p \<in> set s" using space_runes_nonempty [OF p] by (metis hd_in_set in_set_takeD)
      then show False using h [OF p] assms by (auto simp: list_all_iff)
    qed
    then have "find (\<lambda>p. take (length p) s = p) space_runes = None" by (simp add: find_None_iff)
    then show ?thesis by (simp add: space_at_def)
  qed
  moreover have "space_end s = 0"
  proof -
    have "take (length p) (rev s) \<noteq> rev p" if p: "p \<in> set space_runes" for p
    proof
      assume t: "take (length p) (rev s) = rev p"
      then have "last p \<in> set s" using space_runes_nonempty [OF p]
        by (metis in_set_takeD last_in_set set_rev)
      then show False using h [OF p] assms by (auto simp: list_all_iff)
    qed
    then have "find (\<lambda>p. take (length p) (rev s) = rev p) space_runes = None" by (simp add: find_None_iff)
    then show ?thesis by (simp add: space_end_def)
  qed
  ultimately show ?thesis by (simp add: TrimSpace_def TrimLeftSpace.simps TrimRightSpace.simps)
qed

end
