(* ===== verification/UI.thy ===== *)
theory UI
  imports Go_Fmt
begin

text \<open>
  \<^verbatim>\<open>pkg/ui\<close>: the output of the command line (\<^verbatim>\<open>ui.go\<close>) and the list of the machine's addresses
  (\<^verbatim>\<open>network.go\<close>). A method of \<^verbatim>\<open>UI\<close> is the text it writes; errors of the writer are ignored by the
  code. The symbols in front of messages are written as their UTF-8 bytes.
\<close>

subsection \<open>Messages\<close>

definition esc :: "string \<Rightarrow> string" where "esc s = CHR 0x1B # CHR ''['' # s"

definition colorReset :: string where "colorReset = esc ''0m''"
definition colorRed :: string where "colorRed = esc ''31m''"
definition colorGreen :: string where "colorGreen = esc ''32m''"
definition colorYellow :: string where "colorYellow = esc ''33m''"
definition colorCyan :: string where "colorCyan = esc ''36m''"
definition colorGray :: string where "colorGray = esc ''90m''"
definition colorBold :: string where "colorBold = esc ''1m''"

record ui =
  u_color :: bool
  u_verbose :: bool
  u_quiet :: bool

definition NewUI :: "bool \<Rightarrow> bool \<Rightarrow> bool \<Rightarrow> ui" where
  "NewUI color verbose quiet = \<lparr>u_color = color, u_verbose = verbose, u_quiet = quiet\<rparr>"

text \<open>\<^verbatim>\<open>os.Stdout.Stat()\<close> gives the mode of standard output or an error.\<close>

definition ModeCharDevice :: u32 where "ModeCharDevice = 2 ^ 21"

definition isTerminal :: "u32 result \<Rightarrow> bool" where
  "isTerminal stat = (case stat of Inl _ \<Rightarrow> False | Inr mode \<Rightarrow> and mode ModeCharDevice \<noteq> 0)"

definition NewDefaultUI :: "u32 result \<Rightarrow> bool \<Rightarrow> bool \<Rightarrow> bool \<Rightarrow> ui" where
  "NewDefaultUI stat useColor verbose quiet = NewUI (if useColor then isTerminal stat else useColor) verbose quiet"

definition colorize :: "ui \<Rightarrow> string \<Rightarrow> string \<Rightarrow> string" where
  "colorize u color s = (if \<not> u_color u then s else color @ s @ colorReset)"

definition line :: "string \<Rightarrow> string" where "line s = ''  '' @ s @ [newline]"

definition ui_Success :: "ui \<Rightarrow> string \<Rightarrow> string" where
  "ui_Success u msg = (if u_quiet u then [] else line (colorize u colorGreen ([CHR 0xE2, CHR 0x9C, CHR 0x93, CHR '' ''] @ msg)))"

definition ui_Error :: "ui \<Rightarrow> string \<Rightarrow> string" where
  "ui_Error u msg = line (colorize u colorRed ([CHR 0xE2, CHR 0x9C, CHR 0x97, CHR '' ''] @ msg))"

definition ui_Warning :: "ui \<Rightarrow> string \<Rightarrow> string" where
  "ui_Warning u msg = (if u_quiet u then [] else line (colorize u colorYellow ([CHR 0xE2, CHR 0x9A, CHR 0xA0, CHR '' ''] @ msg)))"

definition ui_Info :: "ui \<Rightarrow> string \<Rightarrow> string" where
  "ui_Info u msg = (if u_quiet u then [] else line msg)"

definition ui_Hint :: "ui \<Rightarrow> string \<Rightarrow> string" where
  "ui_Hint u msg = (if u_quiet u then [] else [newline] @ line (colorize u colorCyan ''Hint:'' @ '' '' @ msg))"

definition ui_Debug :: "ui \<Rightarrow> string \<Rightarrow> string" where
  "ui_Debug u msg = (if \<not> u_verbose u then [] else line (colorize u colorGray (''[DEBUG] '' @ msg)))"

definition ui_Header :: "ui \<Rightarrow> string \<Rightarrow> string" where
  "ui_Header u msg = (if u_quiet u then [] else [newline] @ line (colorize u colorBold msg))"

definition ui_Bullet :: "ui \<Rightarrow> string \<Rightarrow> string" where
  "ui_Bullet u msg = (if u_quiet u then [] else ''    '' @ [CHR 0xE2, CHR 0x80, CHR 0xA2, CHR '' ''] @ msg @ [newline])"

definition ui_Raw :: "ui \<Rightarrow> string \<Rightarrow> string" where
  "ui_Raw u msg = msg @ [newline]"

definition ui_BlankLine :: "ui \<Rightarrow> string" where
  "ui_BlankLine u = [newline]"

definition IsVerbose :: "ui \<Rightarrow> bool" where "IsVerbose u = u_verbose u"

definition IsQuiet :: "ui \<Rightarrow> bool" where "IsQuiet u = u_quiet u"

lemma quiet_silent [simp]:
  "u_quiet u \<Longrightarrow> ui_Success u m = []" "u_quiet u \<Longrightarrow> ui_Warning u m = []" "u_quiet u \<Longrightarrow> ui_Info u m = []"
  "u_quiet u \<Longrightarrow> ui_Hint u m = []" "u_quiet u \<Longrightarrow> ui_Header u m = []" "u_quiet u \<Longrightarrow> ui_Bullet u m = []"
  by (simp_all add: ui_Success_def ui_Warning_def ui_Info_def ui_Hint_def ui_Header_def ui_Bullet_def)

subsection \<open>The addresses of the machine\<close>

record InterfaceAddr =
  ia_IP :: string
  ia_Port :: string
  ia_Iface :: string
  ia_IsLoopback :: bool
  ia_IsIPv6 :: bool

definition Display :: "InterfaceAddr \<Rightarrow> string" where
  "Display a = (if ia_IsIPv6 a then ''['' @ ia_IP a @ '']:'' @ ia_Port a else ia_IP a @ '':'' @ ia_Port a)"

definition Label :: "InterfaceAddr \<Rightarrow> string" where
  "Label a =
     (if ia_IsLoopback a then ia_Iface a @ '', local only''
      else if ia_IsIPv6 a then ia_Iface a @ '', IPv6''
      else ia_Iface a)"

text \<open>What \<^verbatim>\<open>net.Interfaces\<close> returns; the outcome of \<^verbatim>\<open>Addrs\<close> is part of an interface.\<close>

datatype net_addr = IPNet bytes | IPAddr bytes | OtherAddr

record net_interface =
  if_Name :: string
  if_Flags :: u32
  if_Addrs :: "net_addr list result"

definition FlagUp :: u32 where "FlagUp = 1"
definition FlagLoopback :: u32 where "FlagLoopback = 4"

text \<open>The entry for one address, if it is listed.\<close>

definition address_entry :: "string \<Rightarrow> net_interface \<Rightarrow> net_addr \<Rightarrow> InterfaceAddr option" where
  "address_entry port i a =
     (let entry = (\<lambda>ip.
        if IsUnspecified ip \<or> IsMulticast ip then None
        else Some \<lparr>ia_IP = IP_String ip, ia_Port = port, ia_Iface = if_Name i,
                   ia_IsLoopback = and (if_Flags i) FlagLoopback \<noteq> 0, ia_IsIPv6 = (To4 ip = None)\<rparr>)
      in case a of IPNet ip \<Rightarrow> entry ip | IPAddr ip \<Rightarrow> entry ip | OtherAddr \<Rightarrow> None)"

text \<open>The two loops, with the lists they fill.\<close>

fun addrs_loop :: "string \<Rightarrow> net_interface \<Rightarrow> net_addr list \<Rightarrow>
    InterfaceAddr list \<times> InterfaceAddr list \<Rightarrow> InterfaceAddr list \<times> InterfaceAddr list" where
  "addrs_loop port i [] (nonLoopback, loopback) = (nonLoopback, loopback)"
| "addrs_loop port i (a # as) (nonLoopback, loopback) =
     (case address_entry port i a of
        None \<Rightarrow> addrs_loop port i as (nonLoopback, loopback)
      | Some e \<Rightarrow>
          if and (if_Flags i) FlagLoopback \<noteq> 0 then addrs_loop port i as (nonLoopback, loopback @ [e])
          else addrs_loop port i as (nonLoopback @ [e], loopback))"

fun ifaces_loop :: "string \<Rightarrow> net_interface list \<Rightarrow>
    InterfaceAddr list \<times> InterfaceAddr list \<Rightarrow> InterfaceAddr list \<times> InterfaceAddr list" where
  "ifaces_loop port [] acc = acc"
| "ifaces_loop port (i # is) acc =
     (if and (if_Flags i) FlagUp = 0 then ifaces_loop port is acc
      else case if_Addrs i of
        Inl _ \<Rightarrow> ifaces_loop port is acc
      | Inr addrs \<Rightarrow> ifaces_loop port is (addrs_loop port i addrs acc))"

definition ListAddresses :: "net_interface list result \<Rightarrow> string \<Rightarrow> InterfaceAddr list" where
  "ListAddresses interfaces port =
     (case interfaces of
        Inl _ \<Rightarrow> []
      | Inr ifaces \<Rightarrow> (case ifaces_loop port ifaces ([], []) of (nonLoopback, loopback) \<Rightarrow> nonLoopback @ loopback))"

text \<open>All candidates of the loops, in order; the result is a stable partition of them.\<close>

definition candidates :: "string \<Rightarrow> net_interface list \<Rightarrow> InterfaceAddr list" where
  "candidates port ifaces =
     concat (map (\<lambda>i. if and (if_Flags i) FlagUp = 0 then []
       else case if_Addrs i of Inl _ \<Rightarrow> [] | Inr addrs \<Rightarrow> List.map_filter (address_entry port i) addrs) ifaces)"

lemma address_entry_loopback:
  "address_entry port i a = Some e \<Longrightarrow> ia_IsLoopback e \<longleftrightarrow> and (if_Flags i) FlagLoopback \<noteq> 0"
  by (auto simp: address_entry_def Let_def split: net_addr.splits if_splits)

lemma addrs_loop_partition:
  "addrs_loop port i as (n, l) =
     (n @ filter (\<lambda>e. \<not> ia_IsLoopback e) (List.map_filter (address_entry port i) as),
      l @ filter ia_IsLoopback (List.map_filter (address_entry port i) as))"
  by (induction port i as "(n, l)" arbitrary: n l rule: addrs_loop.induct)
     (auto simp: List.map_filter_simps dest!: address_entry_loopback split: option.split)

lemma ifaces_loop_partition:
  "ifaces_loop port is (n, l) =
     (n @ filter (\<lambda>e. \<not> ia_IsLoopback e) (candidates port is), l @ filter ia_IsLoopback (candidates port is))"
  by (induction "is" arbitrary: n l) (auto simp: candidates_def addrs_loop_partition split: sum.split)

lemma ListAddresses_partition:
  "ListAddresses (Inr ifaces) port =
     filter (\<lambda>e. \<not> ia_IsLoopback e) (candidates port ifaces) @ filter ia_IsLoopback (candidates port ifaces)"
  by (simp add: ListAddresses_def ifaces_loop_partition)

end
