(* ===== verification/Go_Float.thy ===== *)
theory Go_Float
  imports Prelude Complex_Main
begin

text \<open>
  \<^verbatim>\<open>float64\<close> as \<^verbatim>\<open>pkg/tunnel/reconnect.go\<close> uses it: IEEE 754 binary64 numbers with rounding to nearest, ties
  to even. A finite number is the rational it stands for; the sign of zero is not kept (nothing in the program can
  see it). Numbers below the smallest normal number are rounded as if the exponent had no lower limit; the
  program's durations stay far above.
\<close>

datatype float64 = Fin rat | PInf | NInf | NaN

text \<open>The exponent of a positive number: \<open>2 ^ e \<le> x < 2 ^ (e + 1)\<close>.\<close>

definition expo_size :: "rat \<Rightarrow> nat" where
  "expo_size x = (if 1 \<le> x then nat \<lfloor>log 2 (real_of_rat x)\<rfloor> else nat \<lceil>- log 2 (real_of_rat x)\<rceil>)"

function expo :: "rat \<Rightarrow> int" where
  "expo x = (if x \<le> 0 then 0 else if 2 \<le> x then expo (x / 2) + 1 else if x < 1 then expo (x * 2) - 1 else 0)"
  by auto
termination
proof (relation "measure expo_size")
  fix x :: rat assume x: "\<not> x \<le> 0" "2 \<le> x"
  then have r: "2 \<le> real_of_rat x" using of_rat_less_eq [of 2 x] by simp
  have "log 2 (real_of_rat (x / 2)) = log 2 (real_of_rat x) - 1" using r x by (auto simp: of_rat_divide log_divide)
  moreover have "1 \<le> log 2 (real_of_rat x)" using r x by (subst le_log_iff) simp_all
  ultimately show "(x / 2, x) \<in> measure expo_size" using x by (simp add: expo_size_def)
next
  fix x :: rat assume x: "\<not> x \<le> 0" "\<not> 2 \<le> x" "x < 1"
  then have r: "0 < real_of_rat x" "real_of_rat x < 1" using of_rat_less [of 0 x] of_rat_less [of x 1] by simp_all
  have l: "log 2 (real_of_rat (x * 2)) = log 2 (real_of_rat x) + 1" using r by (simp add: of_rat_mult log_mult)
  have n: "log 2 (real_of_rat x) < 0" using r by simp
  show "(x * 2, x) \<in> measure expo_size"
  proof (cases "1 \<le> x * 2")
    case True
    then have "\<lfloor>log 2 (real_of_rat (x * 2))\<rfloor> \<le> 0" unfolding l using n by linarith
    moreover have "0 < \<lceil>- log 2 (real_of_rat x)\<rceil>" using n by simp
    ultimately show ?thesis using True x by (simp add: expo_size_def)
  next
    case False
    then have "real_of_rat (x * 2) < 1" using of_rat_less [of "x * 2" 1] by simp
    then have "log 2 (real_of_rat (x * 2)) < 0" using r by (simp add: of_rat_mult)
    moreover have "\<lceil>- log 2 (real_of_rat (x * 2))\<rceil> = \<lceil>- log 2 (real_of_rat x)\<rceil> - 1"
    proof -
      have "- log 2 (real_of_rat (x * 2)) = - log 2 (real_of_rat x) - 1" by (simp add: l)
      then show ?thesis by (simp only: ceiling_diff_one)
    qed
    ultimately show ?thesis using False x by (simp add: expo_size_def)
  qed
qed simp

declare expo.simps [simp del]

text \<open>A power of two with any exponent.\<close>

definition two :: "int \<Rightarrow> rat" where
  "two e = (if 0 \<le> e then 2 ^ nat e else 1 / 2 ^ nat (- e))"

text \<open>The nearest integer, the even one of two.\<close>

definition nearest :: "rat \<Rightarrow> int" where
  "nearest x = (let n = \<lfloor>x\<rfloor>; r = x - of_int n
     in if r < 1 / 2 then n else if r > 1 / 2 then n + 1 else if even n then n else n + 1)"

definition round53 :: "rat \<Rightarrow> rat" where
  "round53 x =
     (if x = 0 then 0
      else let u = two (expo \<bar>x\<bar> - 52)
           in if 0 < x then of_int (nearest (x / u)) * u else - (of_int (nearest (- x / u)) * u))"

definition maxFloat64 :: rat where
  "maxFloat64 = (2 - two (- 52)) * two 1023"

definition fin :: "rat \<Rightarrow> float64" where
  "fin x = (let r = round53 x in if r > maxFloat64 then PInf else if r < - maxFloat64 then NInf else Fin r)"

lemma two_add: "two (a + b) = two a * two b"
proof -
  have p: "two e = (2 :: rat) powi e" for e by (simp add: two_def power_int_def power_one_over)
  show ?thesis by (simp add: p power_int_add)
qed

lemma two_pos [simp]: "0 < two e" "two e \<noteq> 0" "0 \<le> two e"
  by (simp_all add: two_def)

lemma two_simps: "two 0 = 1" "two 1 = 2" "two (e + 1) = 2 * two e" "two (e - 1) = two e / 2" "two 52 = 4503599627370496" "two 53 = 9007199254740992"
  using two_add [of e 1] two_add [of e "-1"] by (simp_all add: two_def)

lemma two_mono: "a \<le> b \<Longrightarrow> two a \<le> two b"
proof -
  assume "a \<le> b"
  then have "two b = two a * 2 ^ nat (b - a)" using two_add [of a "b - a"] by (simp add: two_def)
  then show ?thesis by simp
qed

lemma expo_bounds: "0 < x \<Longrightarrow> two (expo x) \<le> x \<and> x < two (expo x + 1)"
proof (induction x rule: expo.induct)
  case (1 x)
  show ?case
  proof (cases "2 \<le> x")
    case True
    then have "two (expo (x / 2)) \<le> x / 2 \<and> x / 2 < two (expo (x / 2) + 1)" using 1 by simp
    moreover have "two (expo (x / 2) + 1 + 1) = 4 * two (expo (x / 2))" by (simp only: two_simps)
    ultimately show ?thesis using True by (subst (1 2) expo.simps) (simp add: two_simps add.assoc)
  next
    case False
    show ?thesis
    proof (cases "x < 1")
      case True
      then have "two (expo (x * 2)) \<le> x * 2 \<and> x * 2 < two (expo (x * 2) + 1)" using 1 False by simp
      then show ?thesis using True False 1(3) by (subst (1 2) expo.simps) (simp add: two_simps)
    next
      case one: False
      then show ?thesis using False 1(3) by (subst (1 2) expo.simps) (simp add: two_simps)
    qed
  qed
qed

lemma expo_mono: "0 < x \<Longrightarrow> x \<le> y \<Longrightarrow> expo x \<le> expo y"
proof (rule ccontr)
  assume a: "0 < x" "x \<le> y" "\<not> expo x \<le> expo y"
  then have "two (expo y + 1) \<le> two (expo x)" by (intro two_mono) simp
  then show False using expo_bounds [of x] expo_bounds [of y] a by simp
qed

lemma nearest_int [simp]: "nearest (of_int n) = n"
  by (simp add: nearest_def)

lemma nearest_numeral [simp]: "nearest (numeral k) = numeral k"
  using nearest_int [of "numeral k"] by simp

lemma nearest_mono: "x \<le> y \<Longrightarrow> nearest x \<le> nearest y"
proof -
  assume xy: "x \<le> y"
  then have f: "\<lfloor>x\<rfloor> \<le> \<lfloor>y\<rfloor>" by (rule floor_mono)
  show ?thesis
  proof (cases "\<lfloor>x\<rfloor> = \<lfloor>y\<rfloor>")
    case True
    then show ?thesis using xy by (auto simp: nearest_def Let_def)
  next
    case False
    then have "\<lfloor>x\<rfloor> + 1 \<le> \<lfloor>y\<rfloor>" using f by simp
    moreover have "nearest x \<le> \<lfloor>x\<rfloor> + 1" "\<lfloor>y\<rfloor> \<le> nearest y" by (auto simp: nearest_def Let_def)
    ultimately show ?thesis by simp
  qed
qed


lemma round53_minus: "round53 (- x) = - round53 x"
  by (simp add: round53_def Let_def)

lemma round53_0 [simp]: "round53 0 = 0"
  by (simp add: round53_def)

lemma ulp_scale: "two (expo x - 52) * 9007199254740992 = two (expo x + 1)" "two (expo x - 52) * 4503599627370496 = two (expo x)"
  using two_add [of "expo x - 52" 53] two_add [of "expo x - 52" 52] by (simp_all add: two_simps add.commute)

lemma round53_pos:
  assumes "0 < x"
  shows "two (expo x) \<le> round53 x" "round53 x \<le> two (expo x + 1)" "round53 x = of_int (nearest (x / two (expo x - 52))) * two (expo x - 52)"
proof -
  let ?u = "two (expo x - 52)"
  show eq: "round53 x = of_int (nearest (x / ?u)) * ?u" using assms by (simp add: round53_def Let_def)
  have "of_int 4503599627370496 \<le> x / ?u" "x / ?u \<le> of_int 9007199254740992"
    using expo_bounds [OF assms] ulp_scale [of x] by (simp_all add: field_simps)
  then have "4503599627370496 \<le> nearest (x / ?u)" "nearest (x / ?u) \<le> 9007199254740992"
    using nearest_mono [of "of_int 4503599627370496" "x / ?u"] nearest_mono [of "x / ?u" "of_int 9007199254740992"] by simp_all
  then have "(of_int 4503599627370496 :: rat) \<le> of_int (nearest (x / ?u))" "of_int (nearest (x / ?u)) \<le> (of_int 9007199254740992 :: rat)"
    by (simp_all only: of_int_le_iff)
  then have "of_int 4503599627370496 * ?u \<le> of_int (nearest (x / ?u)) * ?u" "of_int (nearest (x / ?u)) * ?u \<le> of_int 9007199254740992 * ?u"
    by (simp_all only: mult_right_mono two_pos)
  then show "two (expo x) \<le> round53 x" "round53 x \<le> two (expo x + 1)"
    using ulp_scale [of x] by (simp_all add: eq mult.commute)
qed

lemma round53_mono_pos:
  assumes "0 < x" "x \<le> y"
  shows "round53 x \<le> round53 y"
proof (cases "expo x = expo y")
  case True
  let ?u = "two (expo y - 52)"
  have "nearest (x / ?u) \<le> nearest (y / ?u)" using assms(2) by (intro nearest_mono) (simp add: divide_right_mono)
  then have "(of_int (nearest (x / ?u)) :: rat) \<le> of_int (nearest (y / ?u))" by simp
  then have "of_int (nearest (x / ?u)) * ?u \<le> of_int (nearest (y / ?u)) * ?u" by (rule mult_right_mono) simp
  then show ?thesis using round53_pos(3) assms True by simp
next
  case False
  then have "expo x + 1 \<le> expo y" using expo_mono [OF assms] by simp
  then have "two (expo x + 1) \<le> two (expo y)" by (rule two_mono)
  then show ?thesis using round53_pos(1) [of y] round53_pos(2) [of x] assms by simp
qed

lemma round53_nonneg: "0 \<le> x \<Longrightarrow> 0 \<le> round53 x"
proof -
  assume "0 \<le> x"
  show ?thesis
  proof (cases "x = 0")
    case False
    then have "two (expo x) \<le> round53 x" using \<open>0 \<le> x\<close> by (intro round53_pos) simp
    then show ?thesis using two_pos(1) [of "expo x"] by linarith
  qed simp
qed

text \<open>Rounding keeps the order and leaves what fits into 53 bits as it is.\<close>

lemma round53_mono: "x \<le> y \<Longrightarrow> round53 x \<le> round53 y"
proof -
  assume xy: "x \<le> y"
  consider "0 < x" | "x \<le> 0" "0 \<le> y" | "y < 0" using xy by linarith
  then show ?thesis
  proof cases
    case 2
    then show ?thesis using round53_nonneg [of y] round53_nonneg [of "- x"] by (simp add: round53_minus)
  next
    case 3
    then show ?thesis using round53_mono_pos [of "- y" "- x"] xy by (simp add: round53_minus)
  qed (use round53_mono_pos xy in simp)
qed

definition exact :: "rat \<Rightarrow> bool" where
  "exact x \<longleftrightarrow> round53 x = x"

lemma exact_pos:
  assumes "0 < m" "m \<le> 2 ^ 53"
  shows "exact (of_int m * two e)"
proof -
  let ?x = "of_int m * two e"
  have x: "0 < ?x" using assms by simp
  note b = expo_bounds [OF x]
  have "\<exists>n. ?x / two (expo ?x - 52) = of_int n"
  proof (cases "expo ?x - 52 \<le> e")
    case True
    then have "two e = two (expo ?x - 52) * 2 ^ nat (e - (expo ?x - 52))"
      using two_add [of "expo ?x - 52" "e - (expo ?x - 52)"] by (simp add: two_def [of "e - (expo ?x - 52)"])
    then have "?x / two (expo ?x - 52) = of_int (m * 2 ^ nat (e - (expo ?x - 52)))" by (simp add: field_simps)
    then show ?thesis by blast
  next
    case False
    then have le: "two (e + 53) \<le> two (expo ?x)" by (intro two_mono) simp
    have "two (e + 53) = two e * 9007199254740992" by (simp add: two_add two_simps)
    moreover have "?x \<le> two e * 9007199254740992" using assms(2)
      by (simp add: mult.commute)
    ultimately have eq: "?x = two (e + 53)" "two (expo ?x) = two (e + 53)" using le b by linarith+
    then have "two (expo ?x - 52) * 4503599627370496 = ?x" using ulp_scale(2) [of ?x] by simp
    then have "?x / two (expo ?x - 52) = of_int 4503599627370496" by (simp add: field_simps)
    then show ?thesis by blast
  qed
  then obtain n where n: "?x / two (expo ?x - 52) = of_int n" by blast
  then have "round53 ?x = of_int n * two (expo ?x - 52)" using round53_pos(3) [OF x] by simp
  also have "\<dots> = ?x" using n by (simp add: field_simps)
  finally show ?thesis by (simp add: exact_def)
qed

lemma exact_minus: "exact x \<Longrightarrow> exact (- x)"
  by (simp add: exact_def round53_minus)

lemma exact_int: "\<bar>n\<bar> \<le> 2 ^ 53 \<Longrightarrow> exact (of_int n)"
proof -
  assume n: "\<bar>n\<bar> \<le> 2 ^ 53"
  consider "n = 0" | "0 < n" | "n < 0" by linarith
  then show ?thesis
  proof cases
    case 1
    then show ?thesis by (simp add: exact_def)
  next
    case 2
    then show ?thesis using exact_pos [of n 0] n by (simp add: two_simps)
  next
    case 3
    then show ?thesis using exact_minus [OF exact_pos [of "- n" 0]] n by (simp add: two_simps)
  qed
qed

lemma round53_between:
  assumes "exact a" "exact b" "a \<le> x" "x \<le> b"
  shows "a \<le> round53 x" "round53 x \<le> b"
  using round53_mono [OF assms(3)] round53_mono [OF assms(4)] assms(1,2) by (simp_all add: exact_def)


subsection \<open>Operations\<close>

definition float_of_int :: "int \<Rightarrow> float64" where
  "float_of_int n = fin (of_int n)"

fun float_neg :: "float64 \<Rightarrow> bool" where
  "float_neg (Fin a) = (a < 0)"
| "float_neg NInf = True"
| "float_neg _ = False"

fun float_mul :: "float64 \<Rightarrow> float64 \<Rightarrow> float64" where
  "float_mul (Fin a) (Fin b) = fin (a * b)"
| "float_mul NaN y = NaN"
| "float_mul x NaN = NaN"
| "float_mul x y = (if x = Fin 0 \<or> y = Fin 0 then NaN else if float_neg x = float_neg y then PInf else NInf)"

fun float_add :: "float64 \<Rightarrow> float64 \<Rightarrow> float64" where
  "float_add (Fin a) (Fin b) = fin (a + b)"
| "float_add NaN y = NaN"
| "float_add x NaN = NaN"
| "float_add PInf NInf = NaN"
| "float_add NInf PInf = NaN"
| "float_add PInf y = PInf"
| "float_add x PInf = PInf"
| "float_add NInf y = NInf"
| "float_add x NInf = NInf"

fun float_div :: "float64 \<Rightarrow> float64 \<Rightarrow> float64" where
  "float_div (Fin a) (Fin b) = (if b \<noteq> 0 then fin (a / b) else if a = 0 then NaN else if 0 < a then PInf else NInf)"
| "float_div NaN y = NaN"
| "float_div x NaN = NaN"
| "float_div (Fin a) y = Fin 0"
| "float_div x (Fin b) = (if float_neg x = (b < 0) then PInf else NInf)"
| "float_div x y = NaN"

fun float_less :: "float64 \<Rightarrow> float64 \<Rightarrow> bool" where
  "float_less (Fin a) (Fin b) = (a < b)"
| "float_less NaN y = False"
| "float_less x NaN = False"
| "float_less x y = ((x = NInf \<and> y \<noteq> NInf) \<or> (y = PInf \<and> x \<noteq> PInf))"

text \<open>Go's \<^verbatim>\<open><\<close> and \<^verbatim>\<open><=\<close>: no number compares with \<^term>\<open>NaN\<close>, not even itself.\<close>

instantiation float64 :: ord
begin

definition less_float64 :: "float64 \<Rightarrow> float64 \<Rightarrow> bool" where
  [simp]: "x < y \<longleftrightarrow> float_less x y"

definition less_eq_float64 :: "float64 \<Rightarrow> float64 \<Rightarrow> bool" where
  [simp]: "x \<le> y \<longleftrightarrow> float_less x y \<or> (x = y \<and> x \<noteq> NaN)"

instance ..

end

lemma float64_order:
  fixes x y z :: float64
  shows "\<not> x < x" "x < y \<Longrightarrow> y < z \<Longrightarrow> x < z" "x < y \<Longrightarrow> \<not> y < x" "x \<noteq> NaN \<Longrightarrow> y \<noteq> NaN \<Longrightarrow> x < y \<or> x = y \<or> y < x"
  by (cases x; cases y; cases z; auto)+

text \<open>\<^verbatim>\<open>math.Pow(x, y)\<close> for a whole number \<open>y\<close> that is not negative: the special cases, then repeated
  squaring on fraction and exponent.\<close>

function pow_loop :: "rat \<Rightarrow> int \<Rightarrow> rat \<Rightarrow> int \<Rightarrow> nat \<Rightarrow> rat \<times> int" where
  "pow_loop a ae x xe i =
     (if i = 0 then (a, ae)
      else if xe < - 4096 \<or> 4096 < xe then (a, ae + xe)
      else let a' = (if odd i then round53 (a * x) else a); ae' = (if odd i then ae + xe else ae);
               x' = round53 (x * x)
           in if x' < 1 / 2 then pow_loop a' ae' (x' + x') (2 * xe - 1) (i div 2)
              else pow_loop a' ae' x' (2 * xe) (i div 2))"
  by auto
termination
  by (relation "measure (\<lambda>(a, ae, x, xe, i). i)") auto

declare pow_loop.simps [simp del]

definition math_Pow :: "float64 \<Rightarrow> nat \<Rightarrow> float64" where
  "math_Pow x y =
     (if y = 0 \<or> x = Fin 1 then Fin 1
      else if y = 1 then x
      else case x of
        NaN \<Rightarrow> NaN
      | PInf \<Rightarrow> PInf
      | NInf \<Rightarrow> if odd y then NInf else PInf
      | Fin r \<Rightarrow>
          if r = 0 then Fin 0
          else let e = expo \<bar>r\<bar> + 1
               in case pow_loop 1 0 (r / two e) e y of (a, ae) \<Rightarrow> fin (a * two ae))"

lemma fin_exact: "exact x \<Longrightarrow> \<bar>x\<bar> \<le> maxFloat64 \<Longrightarrow> fin x = Fin x"
  by (auto simp: fin_def exact_def Let_def abs_le_iff)

lemma maxFloat64_big: "2 ^ 100 \<le> maxFloat64"
proof -
  have b: "two 100 \<le> two 1023" "two (- 52) \<le> two 0" by (rule two_mono; simp)+
  have "1 \<le> 2 - two (- 52)" using b(2) by (simp add: two_simps)
  then have "1 * two 1023 \<le> (2 - two (- 52)) * two 1023" by (rule mult_right_mono) simp
  moreover have "two 100 = 2 ^ 100" by (simp add: two_def)
  ultimately show ?thesis using b(1) unfolding maxFloat64_def by linarith
qed

lemma fin_between:
  assumes "exact a" "exact b" "a \<le> x" "x \<le> b" "\<bar>a\<bar> \<le> 2 ^ 100" "\<bar>b\<bar> \<le> 2 ^ 100"
  shows "\<exists>y. fin x = Fin y \<and> a \<le> y \<and> y \<le> b"
proof -
  note r = round53_between [OF assms(1-4)]
  have "round53 x \<le> maxFloat64" "- maxFloat64 \<le> round53 x"
    using r assms(5,6) maxFloat64_big by linarith+
  then show ?thesis using r by (simp add: fin_def Let_def)
qed

text \<open>Powers of two are exact.\<close>

lemma round53_half: "round53 (1 / 2) = 1 / 2" "round53 (1 / 4) = 1 / 4"
  using exact_pos [of 1 "- 1"] exact_pos [of 1 "- 2"] by (simp_all add: exact_def two_def)

lemma exact_two: "exact (two e)"
  using exact_pos [of 1 e] by simp

lemma pow_loop_two:
  assumes "1 < xe" "0 \<le> k + ae"
  shows "\<exists>j be. pow_loop (two k) ae (1 / 2) xe i = (two j, be) \<and>
    (j + be = k + ae + int i * (xe - 1) \<or> (2000 < j + be \<and> 2000 < k + ae + int i * (xe - 1)))"
  using assms
proof (induction i arbitrary: k ae xe rule: less_induct)
  case (less i)
  consider "i = 0" | "0 < i" "4096 < xe" | "0 < i" "xe \<le> 4096" by linarith
  then show ?case
  proof cases
    case 1
    then have "pow_loop (two k) ae (1 / 2) xe i = (two k, ae)" by (simp add: pow_loop.simps)
    then show ?thesis using 1 by auto
  next
    case 2
    define p where "p = int i * (xe - 1)"
    have "1 * (xe - 1) \<le> int i * (xe - 1)" using 2 by (intro mult_right_mono) simp_all
    then have "xe - 1 \<le> p" unfolding p_def by simp
    then have "2000 < k + ae + p" "2000 < k + (ae + xe)" using 2 less.prems by linarith+
    moreover have "pow_loop (two k) ae (1 / 2) xe i = (two k, ae + xe)" using 2 by (simp add: pow_loop.simps)
    ultimately show ?thesis unfolding p_def by blast
  next
    case 3
    have half: "round53 (two k * (1 / 2)) = two (k - 1)"
      using exact_two [of "k - 1"] by (simp add: two_simps exact_def)
    define k' where "k' = (if odd i then k - 1 else k)"
    define ae' where "ae' = (if odd i then ae + xe else ae)"
    have step: "pow_loop (two k) ae (1 / 2) xe i = pow_loop (two k') ae' (1 / 2) (2 * xe - 1) (i div 2)"
      using 3 less.prems(1) half by (simp add: pow_loop.simps [of "two k"] Let_def round53_half k'_def ae'_def)
    have "2 * (i div 2) + i mod 2 = i" by simp
    then have i: "int i = 2 * int (i div 2) + (if odd i then 1 else 0)"
      by (simp add: odd_iff_mod_2_eq_one split: if_splits) presburger+
    have tot: "k' + ae' + int (i div 2) * (2 * xe - 1 - 1) = k + ae + int i * (xe - 1)"
      unfolding i k'_def ae'_def by (simp add: algebra_simps)
    have "i div 2 < i" "1 < 2 * xe - 1" "0 \<le> k' + ae'" using 3 less.prems by (auto simp: k'_def ae'_def)
    from less.IH [OF this] show ?thesis unfolding step tot .
  qed
qed

lemma expo_two: "expo 2 = 1"
  by (simp add: expo.simps)

lemma Pow_two: "\<exists>m. math_Pow (Fin 2) n = fin (two m) \<and> (m = int n \<or> (2000 < m \<and> 2000 < int n))"
proof -
  consider "n = 0" | "n = 1" | "2 \<le> n" by linarith
  then show ?thesis
  proof cases
    case 1
    then show ?thesis using fin_exact [OF exact_two, of 0] maxFloat64_big
      by (intro exI [of _ 0]) (simp add: math_Pow_def two_simps)
  next
    case 2
    then show ?thesis using fin_exact [OF exact_two, of 1] maxFloat64_big
      by (intro exI [of _ 1]) (simp add: math_Pow_def two_simps)
  next
    case 3
    obtain j be where "pow_loop (two 0) 0 (1 / 2) 2 n = (two j, be)" "j + be = int n \<or> (2000 < j + be \<and> 2000 < int n)"
      using pow_loop_two [of 2 0 0 n] by auto
    then show ?thesis using 3
      by (intro exI [of _ "j + be"]) (simp add: math_Pow_def expo_two two_simps two_def [of 2] flip: two_add)
  qed
qed

end
