(* ===== verification/Reconnect.thy ===== *)
theory Reconnect
  imports Go_Float Go_Strings
begin

text \<open>
  \<^verbatim>\<open>pkg/tunnel/reconnect.go\<close>: reconnecting with exponential backoff. What happens outside is a script: one entry per
  round of the loop says whether the context was cancelled, what \<^verbatim>\<open>connect()\<close> returned and which case of each
  \<^verbatim>\<open>select\<close> was taken. The result is \<^term>\<open>None\<close> while the script has not brought the function to an end;
  with it comes the list of the calls that were made. Durations are in nanoseconds. Floating-point operations are
  not fused.
\<close>

record reconnect_config =
  MaxRetries :: int
  InitialDelay :: int
  MaxDelay :: int
  Factor :: float64
  Jitter :: float64

definition DefaultReconnectConfig :: reconnect_config where
  "DefaultReconnectConfig =
     \<lparr>MaxRetries = 10, InitialDelay = 1 * 10 ^ 9, MaxDelay = 30 * 10 ^ 9, Factor = Fin 2, Jitter = Fin (1 / 4)\<rparr>"

text \<open>The outcome of \<^verbatim>\<open>rand.Read\<close> is an argument.\<close>

definition cryptoRandFloat64 :: "bytes result \<Rightarrow> float64" where
  "cryptoRandFloat64 r =
     (case r of
        Inl err \<Rightarrow> Fin 0
      | Inr buf \<Rightarrow>
          let n = Uint64 buf;
              f = float_div (float_of_int (uint n)) (float_of_int (2 ^ 64 - 1))
          in float_add (float_mul (Fin 2) f) (Fin (- 1)))"

text \<open>\<^verbatim>\<open>time.Duration(d)\<close>: towards zero; outside of 64 bits the result depends on the machine.\<close>

definition Duration :: "(float64 \<Rightarrow> int) \<Rightarrow> float64 \<Rightarrow> int" where
  "Duration machine x =
     (case x of
        Fin r \<Rightarrow>
          (let t = (if 0 \<le> r then \<lfloor>r\<rfloor> else \<lceil>r\<rceil>)
           in if - (2 ^ 63) \<le> t \<and> t < 2 ^ 63 then t else machine x)
      | _ \<Rightarrow> machine x)"

definition config_delay :: "(float64 \<Rightarrow> int) \<Rightarrow> bytes result \<Rightarrow> reconnect_config \<Rightarrow> nat \<Rightarrow> int" where
  "config_delay machine rand c attempt =
     (let d = float_mul (float_of_int (InitialDelay c)) (math_Pow (Factor c) attempt);
          d1 = (if float_of_int (MaxDelay c) < d then float_of_int (MaxDelay c) else d);
          d2 = (if Fin 0 < Jitter c
                then float_mul d1 (float_add (Fin 1) (float_mul (Jitter c) (cryptoRandFloat64 rand)))
                else d1);
          result = Duration machine d2
      in if result < 0 then 0 else result)"

subsection \<open>The loop\<close>

record reconnect_event =
  re_Attempt :: int
  re_MaxRetries :: int
  re_Delay :: int
  re_Err :: "error option"
  re_Connected :: bool

datatype select_case = Ctx_done | Other_case

record round_env =
  r_cancelled :: bool
  r_rand :: "bytes result"
  r_backoff :: select_case
  r_connect :: "error option"
  r_wait :: select_case

datatype call = Call_connect "error option" | Call_cleanup | Call_callback reconnect_event | Call_wait int

record reconnect_env =
  re_ctxErr :: error
  re_callback :: bool
  re_machine :: "float64 \<Rightarrow> int"

definition notify :: "reconnect_env \<Rightarrow> reconnect_event \<Rightarrow> call list" where
  "notify R ev = (if re_callback R then [Call_callback ev] else [])"

definition connection_lost :: error where
  "connection_lost = Errorf ''connection lost''"

fun reconnect_loop ::
  "reconnect_env \<Rightarrow> reconnect_config \<Rightarrow> nat \<Rightarrow> error \<Rightarrow> round_env list \<Rightarrow> error option option \<times> call list" where
  "reconnect_loop R c attempt lastErr script =
     (if MaxRetries c \<ge> 0 \<and> int attempt \<ge> MaxRetries c
      then (Some (Some (Wrapf (''reconnect: max retries ('' @ Itoa (MaxRetries c) @ '') exhausted'') lastErr)), [])
      else case script of
        [] \<Rightarrow> (None, [])
      | r # rest \<Rightarrow>
          if r_cancelled r then (Some (Some (re_ctxErr R)), [Call_cleanup])
          else
            let d = config_delay (re_machine R) (r_rand r) c attempt;
                pre = [Call_cleanup] @ notify R \<lparr>re_Attempt = int attempt + 1, re_MaxRetries = MaxRetries c, re_Delay = d,
                        re_Err = Some lastErr, re_Connected = False\<rparr> @ [Call_wait d]
            in case r_backoff r of
                 Ctx_done \<Rightarrow> (Some (Some (re_ctxErr R)), pre @ [Call_cleanup])
               | Other_case \<Rightarrow>
                   (case r_connect r of
                      Some err \<Rightarrow>
                        (case reconnect_loop R c (attempt + 1) err rest of
                           (res, calls) \<Rightarrow> (res, pre @ [Call_connect (Some err)] @ calls))
                    | None \<Rightarrow>
                        let up = [Call_connect None] @ notify R \<lparr>re_Attempt = int attempt + 1, re_MaxRetries = MaxRetries c,
                                   re_Delay = 0, re_Err = None, re_Connected = True\<rparr>
                        in case r_wait r of
                             Ctx_done \<Rightarrow> (Some (Some (re_ctxErr R)), pre @ up @ [Call_cleanup])
                           | Other_case \<Rightarrow>
                               (case reconnect_loop R c 0 connection_lost rest of
                                  (res, calls) \<Rightarrow> (res, pre @ up @ calls))))"

declare reconnect_loop.simps [simp del]

definition RunWithReconnect ::
  "reconnect_env \<Rightarrow> reconnect_config \<Rightarrow> error option \<Rightarrow> select_case \<Rightarrow> round_env list \<Rightarrow> error option option \<times> call list" where
  "RunWithReconnect R c first first_wait script =
     (case first of
        Some err \<Rightarrow>
          if MaxRetries c = 0 then (Some (Some err), [Call_connect first])
          else (case reconnect_loop R c 0 err script of (res, calls) \<Rightarrow> (res, Call_connect first # calls))
      | None \<Rightarrow>
          (case first_wait of
             Ctx_done \<Rightarrow> (Some (Some (re_ctxErr R)), [Call_connect first, Call_cleanup])
           | Other_case \<Rightarrow>
               if MaxRetries c = 0 then (Some None, [Call_connect first])
               else (case reconnect_loop R c 0 connection_lost script of
                       (res, calls) \<Rightarrow> (res, Call_connect first # calls))))"

subsection \<open>The delay\<close>

lemma exact_nat: "n \<le> 2 ^ 53 \<Longrightarrow> exact (of_nat n)"
  using exact_int [of "int n"] by simp

lemma float_of_int_exact: "\<bar>n\<bar> \<le> 2 ^ 53 \<Longrightarrow> float_of_int n = Fin (of_int n)"
proof -
  assume n: "\<bar>n\<bar> \<le> 2 ^ 53"
  then have "\<bar>of_int n :: rat\<bar> \<le> 2 ^ 53" by (metis of_int_abs of_int_le_iff of_int_numeral of_int_power)
  then have "\<bar>of_int n :: rat\<bar> \<le> maxFloat64" using maxFloat64_big by simp
  then show ?thesis using exact_int [OF n] by (simp add: float_of_int_def fin_exact)
qed

lemma expo_unique:
  assumes "two e \<le> x" "x < two (e + 1)"
  shows "expo x = e"
proof -
  have x: "0 < x" using assms(1) two_pos(1) [of e] by linarith
  note b = expo_bounds [OF x]
  have "\<not> e + 1 \<le> expo x" "\<not> expo x + 1 \<le> e"
    using two_mono [of "e + 1" "expo x"] two_mono [of "expo x + 1" e] assms b by auto
  then show ?thesis by linarith
qed

lemma float_2_64: "float_of_int 18446744073709551615 = Fin 18446744073709551616"
proof -
  let ?x = "18446744073709551615 :: rat"
  have "expo ?x = 63" by (rule expo_unique) (simp_all add: two_def)
  moreover have "\<lfloor>?x / 2048\<rfloor> = 9007199254740991" by (simp add: floor_eq_iff)
  ultimately have "round53 ?x = 18446744073709551616"
    by (simp add: round53_def two_def nearest_def Let_def)
  then show ?thesis using maxFloat64_big by (simp add: float_of_int_def fin_def Let_def)
qed

lemma rand_range: "\<exists>y. cryptoRandFloat64 r = Fin y \<and> - 1 \<le> y \<and> y \<le> 1"
proof (cases r)
  case (Inr buf)
  define n where "n = uint (Uint64 buf)"
  have n: "0 \<le> n" "n < 2 ^ 64" unfolding n_def using uint_lt2p [of "Uint64 buf"] by simp_all
  have e: "exact 0" "exact (2 ^ 64)" "exact 1" "exact 2" "exact (- 1)"
    using exact_two [of 64] exact_int [of 0] exact_int [of 1] exact_int [of 2] exact_int [of "- 1"] by (simp_all add: two_def)
  have "of_int n \<le> (of_int (2 ^ 64) :: rat)" using n(2) by (simp only: of_int_le_iff)
  then have "of_int n \<le> (2 ^ 64 :: rat)" by simp
  then obtain f where f: "float_of_int n = Fin f" "0 \<le> f" "f \<le> 2 ^ 64"
    using fin_between [OF e(1,2), of "of_int n"] n(1) by (auto simp: float_of_int_def)
  then obtain g where g: "float_div (Fin f) (Fin (2 ^ 64)) = Fin g" "0 \<le> g" "g \<le> 1"
    using fin_between [OF e(1,3), of "f / 2 ^ 64"] by auto
  then obtain h where h: "float_mul (Fin 2) (Fin g) = Fin h" "0 \<le> h" "h \<le> 2"
    using fin_between [OF e(1,4), of "2 * g"] by auto
  then obtain y where "float_add (Fin h) (Fin (- 1)) = Fin y" "- 1 \<le> y" "y \<le> 1"
    using fin_between [OF e(5,3), of "h + - 1"] by auto
  then show ?thesis using f(1) g(1) h(1) Inr
    by (simp add: cryptoRandFloat64_def Let_def float_2_64 flip: n_def del: float_div.simps float_mul.simps float_add.simps)
qed (simp add: cryptoRandFloat64_def)

text \<open>The upper end of the range is reached: the comment on \<^verbatim>\<open>cryptoRandFloat64\<close> excludes it.\<close>

lemma rand_reaches_one: "cryptoRandFloat64 (Inr (PutUint64 (- 1))) = Fin 1"
proof -
  have u: "uint (- 1 :: u64) = 18446744073709551615" by (simp add: uint_word_ariths)
  show ?thesis
    using exact_int [of 1] exact_int [of 2] maxFloat64_big
    by (simp add: cryptoRandFloat64_def Let_def u float_2_64 fin_exact)
qed


lemma fin_above:
  assumes "exact a" "a \<le> x" "0 \<le> a"
  shows "fin x = PInf \<or> (\<exists>y. fin x = Fin y \<and> a \<le> y)"
proof -
  have "a \<le> round53 x" using round53_mono [OF assms(2)] assms(1) by (simp add: exact_def)
  moreover have "- maxFloat64 < a" using assms(3) maxFloat64_big by simp
  ultimately show ?thesis by (auto simp: fin_def Let_def)
qed

text \<open>The delay before the jitter: doubling from one second up to thirty.\<close>

lemma default_base:
  "(let d = float_mul (float_of_int 1000000000) (math_Pow (Fin 2) n)
    in if float_of_int 30000000000 < d then float_of_int 30000000000 else d) = Fin (of_int (10 ^ 9 * min (2 ^ n) 30))"
proof -
  have c: "float_of_int 1000000000 = Fin 1000000000" "float_of_int 30000000000 = Fin 30000000000"
    using float_of_int_exact [of 1000000000] float_of_int_exact [of 30000000000] by simp_all
  obtain m where m: "math_Pow (Fin 2) n = fin (two m)" "m = int n \<or> (2000 < m \<and> 2000 < int n)"
    using Pow_two by blast
  show ?thesis
  proof (cases "n \<le> 4")
    case True
    then have t: "two m = 2 ^ n" using m(2) by (auto simp: two_def)
    have le: "(2 :: int) ^ n \<le> 2 ^ 4" using True by (intro power_increasing) simp_all
    then have "(2 :: rat) ^ n \<le> 2 ^ 4" using True by (intro power_increasing) simp_all
    then have p: "math_Pow (Fin 2) n = Fin (2 ^ n)" using m(1) t fin_exact [OF exact_two, of m] maxFloat64_big by simp
    have "float_of_int (10 ^ 9 * 2 ^ n) = Fin (of_int (10 ^ 9 * 2 ^ n))" using le by (intro float_of_int_exact) simp
    then have "float_mul (Fin 1000000000) (Fin (2 ^ n)) = Fin (of_int (10 ^ 9 * 2 ^ n))" by (simp add: float_of_int_def)
    moreover have "min (2 ^ n) 30 = (2 :: int) ^ n" using le by simp
    ultimately show ?thesis using \<open>(2 :: rat) ^ n \<le> 2 ^ 4\<close> by (simp add: c p del: float_mul.simps)
  next
    case False
    then have "5 \<le> m" using m(2) by auto
    then have "two 5 \<le> two m" by (rule two_mono)
    then have t: "32 \<le> two m" by (simp add: two_def [of 5])
    have e: "exact 32" "exact 32000000000" using exact_int [of 32] exact_int [of 32000000000] by simp_all
    have big: "Fin 30000000000 < float_mul (Fin 1000000000) (fin (two m))"
    proof -
      from fin_above [OF e(1) t] consider "fin (two m) = PInf" | y where "fin (two m) = Fin y" "32 \<le> y" by auto
      then show ?thesis
      proof cases
        case 2
        then have "32000000000 \<le> 1000000000 * y" by simp
        from fin_above [OF e(2) this] 2(1) show ?thesis by auto
      qed simp
    qed
    have "(2 :: int) ^ 5 \<le> 2 ^ n" using False by (intro power_increasing) simp_all
    then have "min (2 ^ n) 30 = (30 :: int)" by simp
    then show ?thesis using big by (simp add: c m(1))
  qed
qed

lemma jitter_bounds:
  assumes "0 \<le> k" "k \<le> 30"
  shows "\<exists>v. float_mul (Fin (of_int (10 ^ 9 * k))) (float_add (Fin 1) (float_mul (Fin (1 / 4)) (cryptoRandFloat64 r))) = Fin v \<and>
    of_int (750000000 * k) \<le> v \<and> v \<le> of_int (1250000000 * k)"
proof -
  obtain y where y: "cryptoRandFloat64 r = Fin y" "- 1 \<le> y" "y \<le> 1" using rand_range by blast
  have e: "exact (- (1 / 4))" "exact (1 / 4)" "exact (3 / 4)" "exact (5 / 4)"
    using exact_minus [OF exact_pos [of 1 "- 2"]] exact_pos [of 1 "- 2"] exact_pos [of 3 "- 2"] exact_pos [of 5 "- 2"] by (simp_all add: two_def)
  obtain z where z: "float_mul (Fin (1 / 4)) (Fin y) = Fin z" "- (1 / 4) \<le> z" "z \<le> 1 / 4"
    using fin_between [OF e(1,2), of "1 / 4 * y"] y(2,3) by auto
  obtain w where w: "float_add (Fin 1) (Fin z) = Fin w" "3 / 4 \<le> w" "w \<le> 5 / 4"
    using fin_between [OF e(3,4), of "1 + z"] z(2,3) by auto
  have "(of_int 0 :: rat) \<le> of_int k" "of_int k \<le> (of_int 30 :: rat)" using assms by (simp_all only: of_int_le_iff)
  then have k: "0 \<le> (of_int k :: rat)" "of_int k \<le> (30 :: rat)" by simp_all
  have ex: "exact (of_int (750000000 * k))" "exact (of_int (1250000000 * k))" using assms by (intro exact_int; simp)+
  have "of_int k * (3 / 4) \<le> of_int k * w" "of_int k * w \<le> of_int k * (5 / 4)"
    using w(2,3) k(1) by (intro mult_left_mono; simp)+
  then have "of_int (750000000 * k) \<le> of_int (10 ^ 9 * k) * w" "of_int (10 ^ 9 * k) * w \<le> of_int (1250000000 * k)"
    by (simp_all add: mult.commute mult.left_commute)
  moreover have "\<bar>of_int (750000000 * k) :: rat\<bar> \<le> 2 ^ 100" "\<bar>of_int (1250000000 * k) :: rat\<bar> \<le> 2 ^ 100" using k by simp_all
  ultimately have "\<exists>v. fin (of_int (10 ^ 9 * k) * w) = Fin v \<and> of_int (750000000 * k) \<le> v \<and> v \<le> of_int (1250000000 * k)"
    by (intro fin_between [OF ex])
  then show ?thesis unfolding y(1) z(1) w(1) by (simp only: float_mul.simps(1))
qed

text \<open>C37: the backoff is exponential and bounded. With the default configuration (whatever the number of
  retries) the wait before attempt \<open>n + 1\<close> is at least 75 and at most 125 percent of the smaller of
  \<open>2 ^ n\<close> and 30 seconds, for every attempt and every random number, also when the random source fails;
  no intermediate value overflows into a wrong duration.\<close>

theorem default_delay_bounds:
  "750000000 * min (2 ^ n) 30 \<le> config_delay machine rand (DefaultReconnectConfig\<lparr>MaxRetries := k\<rparr>) n \<and>
   config_delay machine rand (DefaultReconnectConfig\<lparr>MaxRetries := k\<rparr>) n \<le> 1250000000 * min (2 ^ n) 30"
proof -
  define b where "b = min (2 ^ n) (30 :: int)"
  have b: "0 \<le> b" "b \<le> 30" by (simp_all add: b_def)
  have c: "(1 :: int) * 10 ^ 9 = 1000000000" "(30 :: int) * 10 ^ 9 = 30000000000" by simp_all
  obtain v where v: "float_mul (Fin (of_int (10 ^ 9 * b))) (float_add (Fin 1) (float_mul (Fin (1 / 4)) (cryptoRandFloat64 rand))) = Fin v"
      "of_int (750000000 * b) \<le> v" "v \<le> of_int (1250000000 * b)"
    using jitter_bounds [OF b] by blast
  have f: "750000000 * b \<le> \<lfloor>v\<rfloor>" "\<lfloor>v\<rfloor> \<le> 1250000000 * b" using v(2,3) by (simp_all add: le_floor_iff floor_le_iff del: of_int_mult)
  have pos: "0 \<le> v" using v(2) b(1) by (meson of_int_0_le_iff order_trans mult_nonneg_nonneg zero_le_numeral)
  have "v < 9223372036854775808"
  proof -
    have "\<lfloor>v\<rfloor> < 9223372036854775808" using f(2) b(2) by linarith
    then show ?thesis by (simp add: floor_less_iff)
  qed
  with pos have "Duration machine (Fin v) = \<lfloor>v\<rfloor>" by (simp add: Duration_def Let_def)
  moreover have "config_delay machine rand (DefaultReconnectConfig\<lparr>MaxRetries := k\<rparr>) n =
      (let result = Duration machine (Fin v) in if result < 0 then 0 else result)"
  proof -
    have j: "Fin 0 < Fin (1 / 4)" by simp
    have "(let d = float_mul (float_of_int 1000000000) (math_Pow (Fin 2) n)
      in if float_of_int 30000000000 < d then float_of_int 30000000000 else d) = Fin (of_int (10 ^ 9 * b))"
      unfolding b_def by (rule default_base)
    then show ?thesis
      unfolding config_delay_def DefaultReconnectConfig_def by (simp only: reconnect_config.simps Let_def c j if_True v(1))
  qed
  ultimately show ?thesis using f pos by (simp add: b_def [symmetric] Let_def)
qed

subsection \<open>What the loop does\<close>

text \<open>Walking through the calls: the failing connects since the last success, and the connect that has not been
  followed by a \<^verbatim>\<open>cleanup()\<close> yet (a second one on top of it is \<^term>\<open>None\<close>).\<close>

fun failures_within :: "nat \<Rightarrow> nat \<Rightarrow> call list \<Rightarrow> bool" where
  "failures_within n k [] = True"
| "failures_within n k (Call_connect (Some e) # cs) = (k < n \<and> failures_within n (Suc k) cs)"
| "failures_within n k (Call_connect None # cs) = failures_within n 0 cs"
| "failures_within n k (_ # cs) = failures_within n k cs"

fun uncleaned :: "error option option \<Rightarrow> call list \<Rightarrow> error option option option" where
  "uncleaned s [] = Some s"
| "uncleaned s (Call_connect e # cs) = (if s = None then uncleaned (Some e) cs else None)"
| "uncleaned s (Call_cleanup # cs) = uncleaned None cs"
| "uncleaned s (_ # cs) = uncleaned s cs"

lemma notify_transparent [simp]:
  "failures_within n k (notify R ev @ cs) = failures_within n k cs"
  "uncleaned s (notify R ev @ cs) = uncleaned s cs"
  by (simp_all add: notify_def)

text \<open>What one round of the loop comes to.\<close>

lemma reconnect_loop_cases:
  assumes loop: "reconnect_loop R c attempt lastErr script = (res, calls)"
  obtains
    (exhausted) "0 \<le> MaxRetries c" "MaxRetries c \<le> int attempt" "calls = []"
      "res = Some (Some (Wrapf (''reconnect: max retries ('' @ Itoa (MaxRetries c) @ '') exhausted'') lastErr))"
  | (unfinished) "script = []" "res = None" "calls = []"
  | (cancelled) r rest cs where "script = r # rest" "res = Some (Some (re_ctxErr R))" "calls = cs @ [Call_cleanup]"
      "\<And>n k. failures_within n k calls" "\<And>s. uncleaned s calls = Some None"
  | (failed) r rest ev1 d err cs where "script = r # rest" "r_connect r = Some err"
      "MaxRetries c < 0 \<or> int attempt < MaxRetries c"
      "reconnect_loop R c (attempt + 1) err rest = (res, cs)"
      "calls = Call_cleanup # notify R ev1 @ Call_wait d # Call_connect (Some err) # cs"
  | (lost) r rest ev1 ev2 d cs where "script = r # rest" "r_connect r = None"
      "MaxRetries c < 0 \<or> int attempt < MaxRetries c"
      "reconnect_loop R c 0 connection_lost rest = (res, cs)"
      "calls = Call_cleanup # notify R ev1 @ Call_wait d # Call_connect None # notify R ev2 @ cs"
proof (cases "MaxRetries c \<ge> 0 \<and> int attempt \<ge> MaxRetries c")
  case True
  then show thesis using loop exhausted by (simp add: reconnect_loop.simps)
next
  case False
  then have more: "MaxRetries c < 0 \<or> int attempt < MaxRetries c" by auto
  show thesis
  proof (cases script)
    case Nil
    then show thesis using loop False unfinished by (auto simp: reconnect_loop.simps)
  next
    case (Cons r rest)
    note body = loop [unfolded Cons reconnect_loop.simps [of R c attempt lastErr "r # rest"] if_not_P [OF False] list.case Let_def]
    consider (early) "r_cancelled r" | (backoff) "\<not> r_cancelled r" "r_backoff r = Ctx_done"
      | (connect) err where "\<not> r_cancelled r" "r_backoff r = Other_case" "r_connect r = Some err"
      | (wait) "\<not> r_cancelled r" "r_backoff r = Other_case" "r_connect r = None" "r_wait r = Ctx_done"
      | (again) "\<not> r_cancelled r" "r_backoff r = Other_case" "r_connect r = None" "r_wait r = Other_case"
      by (cases "r_cancelled r"; cases "r_backoff r"; cases "r_connect r"; cases "r_wait r") auto
    then show thesis
    proof cases
      case early
      then show thesis using body by (simp, elim conjE) (rule cancelled [OF Cons, of "[]"], auto)
    next
      case backoff
      show thesis using body backoff(1) unfolding backoff(2) select_case.case
        by (simp, elim conjE) (rule cancelled [OF Cons], auto)
    next
      case connect
      then show thesis using body by (auto split: prod.splits intro: failed [OF Cons connect(3) more])
    next
      case wait
      show thesis using body wait(1) unfolding wait(2-4) select_case.case option.case
        by (simp, elim conjE) (rule cancelled [OF Cons], auto)
    next
      case again
      then show thesis using body by (auto split: prod.splits intro: lost [OF Cons again(3) more])
    qed
  qed
qed

lemma loop_failures:
  assumes "0 \<le> MaxRetries c" "k \<le> attempt + 1" "k \<le> nat (MaxRetries c) + 1"
  shows "failures_within (nat (MaxRetries c) + 1) k (snd (reconnect_loop R c attempt lastErr script))"
  using assms(2,3)
proof (induction script arbitrary: attempt lastErr k)
  case Nil
  then show ?case by (simp add: reconnect_loop.simps)
next
  case (Cons r rest)
  obtain res calls where l: "reconnect_loop R c attempt lastErr (r # rest) = (res, calls)" by fastforce
  from l show ?case
  proof (cases rule: reconnect_loop_cases)
    case (failed r' rest' ev1 d err cs)
    then show ?thesis using Cons.IH [of "Suc k" "attempt + 1" err] Cons.prems assms(1) l by auto
  next
    case (lost r' rest' ev1 ev2 d cs)
    then show ?thesis using Cons.IH [of 0 0 connection_lost] l by auto
  qed (use l in auto)
qed

lemma loop_uncleaned:
  assumes "MaxRetries c \<noteq> 0" "s = Some None \<Longrightarrow> attempt = 0"
  shows "\<exists>s'. uncleaned s (snd (reconnect_loop R c attempt lastErr script)) = Some s' \<and>
    (fst (reconnect_loop R c attempt lastErr script) \<noteq> None \<longrightarrow> s' \<noteq> Some None)"
  using assms(2)
proof (induction script arbitrary: attempt lastErr s)
  case Nil
  then show ?case using assms(1) by (auto simp: reconnect_loop.simps)
next
  case (Cons r rest)
  obtain res calls where l: "reconnect_loop R c attempt lastErr (r # rest) = (res, calls)" by fastforce
  from l show ?case
  proof (cases rule: reconnect_loop_cases)
    case exhausted
    then show ?thesis using Cons.prems assms(1) l by auto
  next
    case (failed r' rest' ev1 d err cs)
    then show ?thesis using Cons.IH [of "Some (Some err)" "attempt + 1" err] l by simp
  next
    case (lost r' rest' ev1 ev2 d cs)
    then show ?thesis using Cons.IH [of "Some None" 0 connection_lost] l by simp
  qed (use l in auto)
qed

text \<open>A round in which the context lives and the retry fails.\<close>

definition retry_fails :: "round_env \<Rightarrow> bool" where
  "retry_fails r \<longleftrightarrow> \<not> r_cancelled r \<and> r_backoff r = Other_case \<and> r_connect r \<noteq> None"

lemma loop_exhausts:
  assumes "int attempt + int (length script) = MaxRetries c" "list_all retry_fails script"
  shows "fst (reconnect_loop R c attempt lastErr script) =
    Some (Some (Wrapf (''reconnect: max retries ('' @ Itoa (MaxRetries c) @ '') exhausted'')
      (if script = [] then lastErr else the (r_connect (last script)))))"
  using assms
proof (induction script arbitrary: attempt lastErr)
  case (Cons r rest)
  obtain err where r: "\<not> r_cancelled r" "r_backoff r = Other_case" "r_connect r = Some err"
    using Cons.prems(2) by (auto simp: retry_fails_def)
  have "\<not> (MaxRetries c \<ge> 0 \<and> int attempt \<ge> MaxRetries c)" using Cons.prems(1) by simp
  then have "fst (reconnect_loop R c attempt lastErr (r # rest)) = fst (reconnect_loop R c (attempt + 1) err rest)"
    using r by (subst reconnect_loop.simps) (auto simp: Let_def split: prod.split)
  then show ?case using Cons.IH [of "attempt + 1" err] Cons.prems r(3) by simp
qed (simp add: reconnect_loop.simps)

text \<open>Runs on a configuration with two retries: with a script of failing rounds, and with a success among them.\<close>

definition sample_round :: "error option \<Rightarrow> select_case \<Rightarrow> round_env" where
  "sample_round outcome wait =
     \<lparr>r_cancelled = False, r_rand = Inl (Errorf ''entropy''), r_backoff = Other_case, r_connect = outcome, r_wait = wait\<rparr>"

definition sample_failing :: "round_env list" where
  "sample_failing = [sample_round (Some (Errorf ''refused'')) Other_case, sample_round (Some (Errorf ''no route'')) Other_case]"

definition sample_recovering :: "round_env list" where
  "sample_recovering = [sample_round (Some (Errorf ''refused'')) Other_case, sample_round None Other_case, sample_round None Ctx_done]"

definition sample_renv :: reconnect_env where
  "sample_renv = \<lparr>re_ctxErr = Errorf ''context canceled'', re_callback = True, re_machine = (\<lambda>x. 0)\<rparr>"

definition sample_config :: reconnect_config where
  "sample_config = DefaultReconnectConfig\<lparr>MaxRetries := 2\<rparr>"

lemmas sample_reconnect = sample_round_def sample_failing_def sample_recovering_def sample_renv_def sample_config_def
  DefaultReconnectConfig_def retry_fails_def

text \<open>Reconnecting is bounded. With a limit of \<open>n\<close> retries, whatever happens around the loop, there are never more
  than \<open>n + 1\<close> failing connects without a success between them (the first attempt and its retries), and after a
  success the count starts again.\<close>

lemma reconnect_bounded:
  assumes "0 \<le> MaxRetries c"
  shows "failures_within (nat (MaxRetries c) + 1) 0 (snd (RunWithReconnect R c first first_wait script))"
  using assms loop_failures [of c 1 0 R] loop_failures [of c 0 0 R]
  by (cases first; cases first_wait) (auto simp: RunWithReconnect_def case_prod_beta)

lemma reconnect_bounded_witness:
  "failures_within 3 0 (snd (RunWithReconnect sample_renv sample_config (Some (Errorf ''refused'')) Other_case sample_failing))"
  using reconnect_bounded [of sample_config sample_renv "Some (Errorf ''refused'')" Other_case sample_failing]
  by (simp add: sample_config_def DefaultReconnectConfig_def numeral_3_eq_3)

text \<open>C35: a loop that cannot reconnect ends. When the limit is positive, the first connect failed or the connection was
  lost, and that many retries fail while the context lives, then the function returns the error that names the
  limit and wraps the error of the last retry.\<close>

theorem reconnect_gives_up:
  assumes "0 < MaxRetries c" "int (length script) = MaxRetries c" "list_all retry_fails script"
    and "first \<noteq> None \<or> first_wait = Other_case"
  shows "fst (RunWithReconnect R c first first_wait script) =
    Some (Some (Wrapf (''reconnect: max retries ('' @ Itoa (MaxRetries c) @ '') exhausted'') (the (r_connect (last script)))))"
  using assms loop_exhausts [of 0 script c R]
  by (cases first; cases first_wait) (auto simp: RunWithReconnect_def case_prod_beta)

theorem reconnect_gives_up_witness:
  "fst (RunWithReconnect sample_renv sample_config None Other_case sample_failing) =
     Some (Some (Wrapf ''reconnect: max retries (2) exhausted'' (Errorf ''no route'')))"
proof -
  have i: "Itoa 2 = ''2''" by code_simp
  show ?thesis
    using reconnect_gives_up [of sample_config sample_failing None Other_case sample_renv]
    by (simp add: sample_reconnect i)
qed

text \<open>C36: connections are not leaked. No connect is made before what the one before it left has been cleaned up,
  failed attempts included; and when the function returns with reconnecting enabled, no successful connection is
  left without its cleanup.\<close>

theorem reconnect_cleans_up:
  "\<exists>s. uncleaned None (snd (RunWithReconnect R c first first_wait script)) = Some s \<and>
     (MaxRetries c \<noteq> 0 \<and> fst (RunWithReconnect R c first first_wait script) \<noteq> None \<longrightarrow> s \<noteq> Some None)"
proof (cases "MaxRetries c = 0")
  case True
  then show ?thesis by (cases first; cases first_wait) (auto simp: RunWithReconnect_def)
next
  case False
  then show ?thesis using loop_uncleaned [OF False, of "Some first" 0 R]
    by (cases first; cases first_wait) (auto simp: RunWithReconnect_def case_prod_beta)
qed

theorem reconnect_cleans_up_witness:
  "\<exists>s. uncleaned None (snd (RunWithReconnect sample_renv sample_config None Other_case sample_recovering)) = Some s \<and> s \<noteq> Some None"
proof -
  have "fst (RunWithReconnect sample_renv sample_config None Other_case sample_recovering) \<noteq> None"
    by (simp add: RunWithReconnect_def reconnect_loop.simps sample_reconnect Let_def)
  then show ?thesis
    using reconnect_cleans_up [of sample_renv sample_config None Other_case sample_recovering]
    by (auto simp: sample_config_def DefaultReconnectConfig_def)
qed

end
