(* ===== verification/Cmd_Helpers.thy ===== *)
theory Cmd_Helpers
  imports UI Reconnect
begin

text \<open>
  \<^verbatim>\<open>cmd/helpers.go\<close>: addresses on the command line, and the settings every command takes from flags and
  environment. What cobra has parsed is the record \<open>global_flags\<close>, the environment a function that is empty
  for a variable that is not set.
\<close>

definition defaultPort :: string where "defaultPort = ''1781''"

definition parseAddress :: "string \<Rightarrow> string \<Rightarrow> string" where
  "parseAddress addr0 defaultHost =
     (let addr = TrimSpace addr0 in
      if addr = [] then JoinHostPort defaultHost defaultPort
      else if HasPrefix addr '':'' then
        let port = drop 1 addr
        in JoinHostPort defaultHost (if port = [] then defaultPort else port)
      else case SplitHostPort addr of
        Inl _ \<Rightarrow> JoinHostPort addr defaultPort
      | Inr (host, port) \<Rightarrow>
          JoinHostPort (if host = [] then defaultHost else host) (if port = [] then defaultPort else port))"

definition parseBrokerAddress :: "string \<Rightarrow> string" where
  "parseBrokerAddress addr = parseAddress addr ''127.0.0.1''"

definition parseBindAddress :: "string \<Rightarrow> string" where
  "parseBindAddress addr = parseAddress addr ''0.0.0.0''"

record global_flags =
  g_verbose :: bool
  g_quiet :: bool
  g_no_color :: bool
  g_max_retries :: int
  g_max_retries_changed :: bool

type_synonym environ = "string \<Rightarrow> string"

definition uiFromCmd :: "u32 result \<Rightarrow> environ \<Rightarrow> global_flags \<Rightarrow> ui" where
  "uiFromCmd stat Getenv f =
     (let verbose = (if Getenv ''GO_CONNECT_VERBOSE'' = ''1'' \<and> \<not> g_verbose f then True else g_verbose f);
          quiet = (if Getenv ''GO_CONNECT_QUIET'' = ''1'' \<and> \<not> g_quiet f then True else g_quiet f);
          useColor = (\<not> g_no_color f \<and> Getenv ''NO_COLOR'' = [])
      in NewDefaultUI stat useColor verbose quiet)"

definition reconnectConfigFromCmd :: "environ \<Rightarrow> global_flags \<Rightarrow> reconnect_config" where
  "reconnectConfigFromCmd Getenv f =
     (let envVal = Getenv ''GO_CONNECT_MAX_RETRIES'';
          maxRetries =
            (if envVal \<noteq> [] \<and> \<not> g_max_retries_changed f
             then (case Sscanf_d envVal of Inr n \<Rightarrow> n | Inl _ \<Rightarrow> g_max_retries f)
             else g_max_retries f)
      in DefaultReconnectConfig\<lparr>MaxRetries := maxRetries\<rparr>)"

subsection \<open>Addresses\<close>

definition plain :: "string \<Rightarrow> bool" where
  "plain s \<longleftrightarrow> CHR ''['' \<notin> set s \<and> CHR '']'' \<notin> set s"

lemma last_index_Some:
  assumes "last_index c s = Some i"
  shows "c \<notin> set (drop (i + 1) s)" "i < length s"
proof -
  let ?k = "length (takeWhile (\<lambda>x. x \<noteq> c) (rev s))"
  have i: "i = length s - 1 - ?k" and k: "?k < length s"
    using assms by (auto simp: last_index_def index_byte_def Let_def split: if_splits)
  have "takeWhile (\<lambda>x. x \<noteq> c) (rev s) = take ?k (rev s)" by (metis takeWhile_eq_take)
  then have "c \<notin> set (take ?k (rev s))" by (metis (mono_tags, lifting) set_takeWhileD)
  moreover have "i + 1 = length s - ?k" using i k by linarith
  then have "take ?k (rev s) = rev (drop (i + 1) s)" by (simp add: take_rev)
  ultimately show "c \<notin> set (drop (i + 1) s)" by simp
  show "i < length s" using i k by simp
qed

lemma SplitHostPort_shape:
  assumes "SplitHostPort s = Inr (h, p)"
  shows "plain h" "plain p" "CHR '':'' \<notin> set p"
proof -
  from assms obtain i where i: "last_index (CHR '':'') s = Some i" by (auto simp: SplitHostPort_def split: option.splits)
  note l = last_index_Some [OF i]
  have "p = drop (i + 1) s \<and> plain h \<and> plain p"
  proof (cases "HasPrefix s ''[''")
    case True
    then obtain t where s: "s = CHR ''['' # t" by (cases s) (auto simp: HasPrefix_def)
    obtain e where e: "index_byte (CHR '']'') s = Some e" "e + 1 = i" "CHR ''['' \<notin> set (drop 1 s)" "CHR '']'' \<notin> set (drop (e + 1) s)"
        "h = drop 1 (take e s)" "p = drop (i + 1) s"
      using assms True by (auto simp: SplitHostPort_def i Let_def index_byte_None_iff split: option.splits if_splits)
    have "take e s = takeWhile (\<lambda>x. x \<noteq> CHR '']'') s"
      using e(1) by (auto simp: index_byte_def Let_def takeWhile_eq_take [symmetric] split: if_splits)
    then have "CHR '']'' \<notin> set (take e s)" by (metis (mono_tags, lifting) set_takeWhileD)
    moreover have "set (drop (i + 1) s) \<subseteq> set (drop 1 s)" "set (drop (i + 1) s) \<subseteq> set (drop (e + 1) s)"
      using e(2) by (simp_all add: set_drop_subset_set_drop)
    moreover have "set (drop 1 (take e s)) \<subseteq> set (take e s)" "set (drop 1 (take e s)) \<subseteq> set (drop 1 s)"
      by (rule set_drop_subset) (simp add: drop_take set_take_subset)
    ultimately show ?thesis using e(3-6) by (auto simp: plain_def)
  next
    case False
    then have "CHR ''['' \<notin> set s" "CHR '']'' \<notin> set s" "h = take i s" "p = drop (i + 1) s"
      using assms by (auto simp: SplitHostPort_def i Let_def index_byte_None_iff split: option.splits if_splits)
    then show ?thesis by (auto simp: plain_def dest: in_set_takeD in_set_dropD)
  qed
  then show "plain h" "plain p" "CHR '':'' \<notin> set p" using l(1) by auto
qed

lemma JoinHostPort_splits: "plain h \<Longrightarrow> plain p \<Longrightarrow> CHR '':'' \<notin> set p \<Longrightarrow> SplitHostPort (JoinHostPort h p) = Inr (h, p)"
  by (simp add: plain_def SplitHostPort_JoinHostPort)

lemma defaultPort_plain [simp]: "plain defaultPort" "CHR '':'' \<notin> set defaultPort" "defaultPort \<noteq> []"
  by (simp_all add: defaultPort_def plain_def)

text \<open>How an address is meant: the host and the port it gives, either of which may be missing.\<close>

definition address_parts :: "string \<Rightarrow> (string \<times> string) option" where
  "address_parts t =
     (if t = [] then Some ([], [])
      else case SplitHostPort t of
        Inr parts \<Rightarrow> Some parts
      | Inl _ \<Rightarrow> if plain t \<and> \<not> HasPrefix t '':'' then Some (t, []) else None)"

lemma SplitHostPort_colon:
  assumes "SplitHostPort (CHR '':'' # t) = Inr (h, p)"
  shows "h = [] \<and> p = t"
proof -
  obtain i where i: "last_index (CHR '':'') (CHR '':'' # t) = Some i" using assms by (auto simp: SplitHostPort_def split: option.splits)
  have "index_byte (CHR '':'') (take i (CHR '':'' # t)) = None" "h = take i (CHR '':'' # t)" "p = drop i t"
    using assms i by (auto simp: SplitHostPort_def HasPrefix_def Let_def split: if_splits option.splits)
  then show ?thesis by (cases i) (auto simp: index_byte_None_iff)
qed

text \<open>C40: Every form of address the documentation lists becomes an address that splits again into host and port, with
  the default for a missing part: an empty text, a host alone (also an IPv6 address without brackets that does not
  begin with a colon), a colon and a port, host and port, and IPv6 in brackets with a port.\<close>

theorem parseAddress_splits:
  assumes "plain dh" "address_parts (TrimSpace a) = Some (h, p)"
  shows "SplitHostPort (parseAddress a dh) = Inr (if h = [] then dh else h, if p = [] then defaultPort else p)"
proof (cases "TrimSpace a")
  case Nil
  then show ?thesis using assms by (simp add: parseAddress_def Let_def address_parts_def JoinHostPort_splits)
next
  case (Cons c t)
  note t = this
  show ?thesis
  proof (cases "SplitHostPort (TrimSpace a)")
    case (Inl err)
    then have "\<not> HasPrefix (TrimSpace a) '':''" "h = TrimSpace a" "p = []" "plain h"
      using assms(2) t by (auto simp: address_parts_def split: if_splits)
    then show ?thesis using Inl t by (simp add: parseAddress_def Let_def JoinHostPort_splits)
  next
    case (Inr parts)
    then have s: "SplitHostPort (TrimSpace a) = Inr (h, p)" using assms(2) t by (simp add: address_parts_def)
    note shape = SplitHostPort_shape [OF s]
    have "parseAddress a dh = JoinHostPort (if h = [] then dh else h) (if p = [] then defaultPort else p)"
    proof (cases "c = CHR '':''")
      case True
      then have "h = [] \<and> p = t" using SplitHostPort_colon s t by metis
      then show ?thesis using True t by (simp add: parseAddress_def Let_def HasPrefix_def)
    next
      case False
      then show ?thesis using s t by (simp add: parseAddress_def Let_def HasPrefix_def)
    qed
    then show ?thesis using shape assms(1) by (simp add: JoinHostPort_splits)
  qed
qed

theorem parseAddress_splits_witness:
  "SplitHostPort (parseAddress '' [::1]: '' ''127.0.0.1'') = Inr (''::1'', ''1781'')"
proof -
  have "address_parts (TrimSpace '' [::1]: '') = Some (''::1'', [])" by code_simp
  then show ?thesis using parseAddress_splits [of "''127.0.0.1''" "'' [::1]: ''" "''::1''" "[]"]
    by (simp add: plain_def defaultPort_def)
qed

text \<open>The two forms that are left: an IPv6 address in brackets without a port gets a second pair of brackets, and one
  that begins with a colon is taken for a port. Neither result can be dialled.\<close>

lemma parseAddress_ipv6_broken:
  "parseBrokerAddress ''[::1]'' = ''[[::1]]:1781''" "parseBrokerAddress ''::1'' = ''127.0.0.1::1''"
  "SplitHostPort (parseBrokerAddress ''[::1]'') = Inl (AddrError ''[[::1]]:1781'' missingPort)"
  "SplitHostPort (parseBrokerAddress ''::1'') = Inl (AddrError ''127.0.0.1::1'' tooManyColons)"
  by code_simp+

subsection \<open>The addresses the broker prints can be used as they are\<close>

lemma ip_char_ascii: "ip_char c \<Longrightarrow> 32 < ord c \<and> ord c < 128 \<and> c \<noteq> CHR ''['' \<and> c \<noteq> CHR '']''"
  by (auto simp: ip_char_def is_digit_def)

lemma Display_JoinHostPort:
  assumes "address_entry port i a = Some e" "a = IPNet ip \<or> a = IPAddr ip" "length ip = 4 \<or> length ip = 16"
  shows "Display e = JoinHostPort (ia_IP e) (ia_Port e)" "ia_IP e = IP_String ip" "ia_Port e = port"
  using assms IP_String_chars [OF assms(3)]
  by (auto simp: address_entry_def Let_def Display_def JoinHostPort_def index_byte_None_iff split: if_splits)

lemma printed_address_accepted:
  assumes ip: "length ip = 4 \<or> length ip = 16" and port: "list_all is_digit port" "port \<noteq> []"
  shows "parseBrokerAddress (JoinHostPort (IP_String ip) port) = JoinHostPort (IP_String ip) port"
proof -
  let ?s = "JoinHostPort (IP_String ip) port"
  note c = IP_String_chars [OF ip]
  have pl: "plain (IP_String ip)" using c(1) ip_char_ascii by (auto simp: plain_def list_all_iff)
  have d: "plain port" "CHR '':'' \<notin> set port" using port(1) by (auto simp: plain_def list_all_iff is_digit_def)
  have "list_all (\<lambda>c. 32 < ord c \<and> ord c < 128) (IP_String ip)" using c(1) ip_char_ascii by (auto simp: list_all_iff)
  moreover have "list_all (\<lambda>c. 32 < ord c \<and> ord c < 128) port" using port(1) by (auto simp: list_all_iff is_digit_def)
  ultimately have t: "TrimSpace ?s = ?s" by (intro space_free) (simp add: JoinHostPort_def)
  have h: "\<not> HasPrefix ?s '':''"
    using c(2,3,4) by (cases "IP_String ip") (auto simp: JoinHostPort_def HasPrefix_def index_byte_None_iff)
  have "?s \<noteq> []" by (simp add: JoinHostPort_def)
  then show ?thesis
    using t h JoinHostPort_splits [OF pl d] c(3) port(2) by (simp add: parseBrokerAddress_def parseAddress_def Let_def)
qed

text \<open>What the broker prints under its available addresses can be given to \<^verbatim>\<open>--broker\<close> as it stands. For
  every list of network interfaces, each entry belongs to an interface that is up, its text splits into the printed
  form of that address and the port of the broker, and reading it as a broker address gives the same text again.\<close>

lemma listed_addresses_usable:
  assumes "e \<in> set (ListAddresses (Inr ifaces) port)" "list_all is_digit port" "port \<noteq> []"
    and "\<forall>i\<in>set ifaces. \<forall>as. if_Addrs i = Inr as \<longrightarrow>
      (\<forall>a\<in>set as. \<forall>ip. a = IPNet ip \<or> a = IPAddr ip \<longrightarrow> length ip = 4 \<or> length ip = 16)"
  shows "parseBrokerAddress (Display e) = Display e \<and> SplitHostPort (Display e) = Inr (ia_IP e, port) \<and>
    (\<exists>i\<in>set ifaces. if_Name i = ia_Iface e \<and> and (if_Flags i) FlagUp \<noteq> 0)"
proof -
  from assms(1) have "e \<in> set (candidates port ifaces)" by (auto simp: ListAddresses_partition)
  then obtain i as a where i: "i \<in> set ifaces" "and (if_Flags i) FlagUp \<noteq> 0" "if_Addrs i = Inr as" "a \<in> set as" "address_entry port i a = Some e"
    using that by (auto simp: candidates_def List.map_filter_def split: if_splits sum.splits) (metis that)
  then obtain ip where a: "a = IPNet ip \<or> a = IPAddr ip" and n: "if_Name i = ia_Iface e"
    by (auto simp: address_entry_def Let_def split: net_addr.splits if_splits)
  then have l: "length ip = 4 \<or> length ip = 16" using assms(4) i(1,3,4) by blast
  note d = Display_JoinHostPort [OF i(5) a l]
  have "plain (IP_String ip)" using IP_String_chars(1) [OF l] ip_char_ascii by (auto simp: plain_def list_all_iff)
  moreover have "plain port" "CHR '':'' \<notin> set port" using assms(2) by (auto simp: plain_def list_all_iff is_digit_def)
  ultimately have "SplitHostPort (Display e) = Inr (ia_IP e, port)" by (simp add: d JoinHostPort_splits)
  moreover have "parseBrokerAddress (Display e) = Display e" using printed_address_accepted [OF l assms(2,3)] by (simp add: d)
  ultimately show ?thesis using i(1,2) n by blast
qed

definition sample_interface :: net_interface where
  "sample_interface = \<lparr>if_Name = ''eth0'', if_Flags = 1, if_Addrs = Inr [IPNet [192, 168, 0, 1], OtherAddr]\<rparr>"

lemma listed_addresses_usable_witness:
  "\<exists>e\<in>set (ListAddresses (Inr [sample_interface]) ''1781''). Display e = ''192.168.0.1:1781'' \<and>
     parseBrokerAddress (Display e) = Display e"
proof -
  let ?ip = "[192, 168, 0, 1] :: bytes"
  let ?e = "\<lparr>ia_IP = IP_String ?ip, ia_Port = ''1781'', ia_Iface = ''eth0'', ia_IsLoopback = False, ia_IsIPv6 = False\<rparr>"
  have s: "IP_String ?ip = ''192.168.0.1''" by code_simp
  have u: "\<not> IsUnspecified ?ip" by code_simp
  have "ListAddresses (Inr [sample_interface]) ''1781'' = [?e]"
    by (simp add: ListAddresses_partition candidates_def sample_interface_def address_entry_def Let_def List.map_filter_simps
        FlagUp_def FlagLoopback_def u IsMulticast_def To4_def)
  then have e: "?e \<in> set (ListAddresses (Inr [sample_interface]) ''1781'')" by simp
  have "parseBrokerAddress (Display ?e) = Display ?e"
    using listed_addresses_usable [OF e] by (auto simp: sample_interface_def is_digit_def)
  moreover have "Display ?e = ''192.168.0.1:1781''" by (simp add: Display_def s)
  ultimately show ?thesis using e by blast
qed

end
