(* ===== verification/Cmd_Broker.thy ===== *)
theory Cmd_Broker
  imports Cmd_Helpers Server
begin

text \<open>
  \<^verbatim>\<open>cmd/broker.go\<close>: the broker command. What cobra has parsed is the record \<open>broker_flags\<close>; what the
  command finds around it (environment, files, network, clock) is the record \<open>broker_world\<close>. The output is the
  text written to standard output. \<open>broker_start\<close> is the body of the command up to the start of the server,
  \<open>broker_RunE\<close> the whole; between start and signal the server runs, an argument of \<open>broker_RunE\<close>.
\<close>

record broker_flags =
  bf_global :: global_flags
  bf_bind_to :: string
  bf_passphrase :: string
  bf_enable_security_logs :: bool
  bf_enable_ipsum :: bool
  bf_enable_geo_blocker :: bool
  bf_blocked_countries :: string

record broker_world =
  bw_env :: environ
  bw_stdout :: "u32 result"
  bw_disk :: file_system
  bw_http :: http_client
  bw_open_db :: "string \<Rightarrow> geo_reader result"
  bw_cwd :: "string result"
  bw_listen :: "string \<Rightarrow> string result"
  bw_interfaces :: "net_interface list result"
  bw_wall :: go_time
  bw_now :: int
  bw_tables :: unicode_tables
  bw_net_text :: "error \<Rightarrow> string"

definition DefaultURL :: string where
  "DefaultURL = ''https://raw.githubusercontent.com/stamparm/ipsum/master/ipsum.txt''"
definition DefaultFilePath :: string where "DefaultFilePath = ''ipsum.txt''"
definition DefaultDBPath :: string where "DefaultDBPath = ''GeoLite2.mmdb''"

definition bw_Error :: "broker_world \<Rightarrow> error \<Rightarrow> string" where
  "bw_Error W err = error_text (bw_tables W) (bw_net_text W) err"

text \<open>A flag that the environment can switch on, and a text that it can supply.\<close>

definition switch :: "environ \<Rightarrow> bool \<Rightarrow> string \<Rightarrow> bool" where
  "switch Getenv flag var = (if \<not> flag \<and> Getenv var = ''1'' then True else flag)"

definition text_or_env :: "environ \<Rightarrow> string \<Rightarrow> string \<Rightarrow> string" where
  "text_or_env Getenv flag var = (if flag = [] then Getenv var else flag)"

definition broker_passphrase :: "broker_world \<Rightarrow> broker_flags \<Rightarrow> string" where
  "broker_passphrase W f = text_or_env (bw_env W) (bf_passphrase f) ''GO_CONNECT_PASSPHRASE''"

definition logs_enabled :: "broker_world \<Rightarrow> broker_flags \<Rightarrow> bool" where
  "logs_enabled W f = switch (bw_env W) (bf_enable_security_logs f) ''GO_CONNECT_ENABLE_SECURITY_LOGS''"

definition ipsum_enabled :: "broker_world \<Rightarrow> broker_flags \<Rightarrow> bool" where
  "ipsum_enabled W f = switch (bw_env W) (bf_enable_ipsum f) ''GO_CONNECT_ENABLE_IPSUM''"

definition geo_enabled :: "broker_world \<Rightarrow> broker_flags \<Rightarrow> bool" where
  "geo_enabled W f = switch (bw_env W) (bf_enable_geo_blocker f) ''GO_CONNECT_ENABLE_GEO_BLOCKER''"

definition broker_logger :: "broker_world \<Rightarrow> ui \<Rightarrow> bool \<Rightarrow> string \<times> logger option result" where
  "broker_logger W u enabled =
     (if \<not> enabled then ([], Inr None)
      else case NewLogger (bw_disk W) ''logs'' of
        Inl err \<Rightarrow> (ui_Error u ''Failed to initialize security logger'', Inl (Wrapf ''failed to create logger'' err))
      | Inr l \<Rightarrow> (ui_Success u ''Security logging enabled (logs/)'', Inr (Some l)))"

subsection \<open>The IP filter\<close>

definition ipsum_url :: "broker_world \<Rightarrow> string" where
  "ipsum_url W = (let url = TrimSpace (bw_env W ''GO_CONNECT_IPSUM_SOURCE'') in if url = [] then DefaultURL else url)"

definition ipsum_warn :: "ui \<Rightarrow> nat \<times> string \<Rightarrow> string" where
  "ipsum_warn u = (\<lambda>(lineNum, l). ui_Warning u (''IPsum line '' @ dec lineNum @ '': unparseable: '' @ l))"

definition ipsum_unavailable :: "error \<Rightarrow> error" where
  "ipsum_unavailable err = Wrapf ''ipsum feed required but unavailable'' err"

definition ipsum_fetch :: "broker_world \<Rightarrow> ui \<Rightarrow> string \<times> error option \<times> file_system" where
  "ipsum_fetch W u =
     (if files (bw_disk W) DefaultFilePath = None
      then case DownloadToFile (bw_http W) (bw_disk W) (ipsum_url W) DefaultFilePath of
          (Some err, fs) \<Rightarrow>
            (ui_Info u ''Downloading IPsum threat intelligence feed...'' @
             ui_Error u (''Failed to download IPsum feed: '' @ bw_Error W err), Some err, fs)
        | (None, fs) \<Rightarrow>
            (ui_Info u ''Downloading IPsum threat intelligence feed...'' @
             ui_Success u (''IPsum feed downloaded to '' @ DefaultFilePath), None, fs)
      else ([], None, bw_disk W))"

definition broker_ipsum :: "broker_world \<Rightarrow> ui \<Rightarrow> bool \<Rightarrow> string \<times> file_system \<times> DB option result" where
  "broker_ipsum W u enabled =
     (if \<not> enabled then ([], bw_disk W, Inr None)
      else case ipsum_fetch W u of
        (o1, Some err, fs) \<Rightarrow> (o1, fs, Inl (ipsum_unavailable err))
      | (o1, None, fs) \<Rightarrow>
          (case LoadFromFile fs (NewDB DefaultMinCount) DefaultFilePath of
             (Some err, warns, _) \<Rightarrow>
               (o1 @ concat (map (ipsum_warn u) warns) @ ui_Error u (''Failed to load IPsum feed: '' @ bw_Error W err),
                fs, Inl (ipsum_unavailable err))
           | (None, warns, db) \<Rightarrow>
               (o1 @ concat (map (ipsum_warn u) warns) @
                ui_Success u (''IPsum loaded: '' @ dec (Len db) @ '' IPs blocked (threshold >= '' @ Itoa DefaultMinCount @ '')''),
                fs, Inr (Some db))))"

subsection \<open>The country filter\<close>

definition blocked_countries :: "broker_world \<Rightarrow> broker_flags \<Rightarrow> string list" where
  "blocked_countries W f =
     filter (\<lambda>c. c \<noteq> [])
       (map TrimSpace (Split_byte (CHR '','') (text_or_env (bw_env W) (bf_blocked_countries f) ''GO_CONNECT_BLOCKED_COUNTRIES'')))"

text \<open>\<^verbatim>\<open>filepath.Abs\<close> of a relative path; its error is ignored and leaves the empty path.\<close>

definition geo_path :: "broker_world \<Rightarrow> string" where
  "geo_path W =
     (let env_path = TrimSpace (bw_env W ''GO_CONNECT_GEO_DB'');
          dbPath = (if env_path = [] then DefaultDBPath else env_path)
      in if HasPrefix dbPath ''/'' then dbPath
         else case bw_cwd W of Inl _ \<Rightarrow> [] | Inr wd \<Rightarrow> path_Join wd dbPath)"

definition broker_geo :: "broker_world \<Rightarrow> ui \<Rightarrow> broker_flags \<Rightarrow> bool \<Rightarrow> string \<times> geo_DB option result" where
  "broker_geo W u f enabled =
     (if \<not> enabled then ([], Inr None)
      else if blocked_countries W f = [] then
        (ui_Error u ''No blocked countries specified'' @
         ui_Hint u ''Use --blocked-countries or GO_CONNECT_BLOCKED_COUNTRIES to specify ISO country codes (e.g., 'RU,CN,KP').'',
         Inl (Errorf ''geo-blocker enabled but no countries specified''))
      else case geo_Open (bw_tables W) (bw_open_db W) (geo_path W) (blocked_countries W f) of
        Inl err \<Rightarrow>
          (ui_Error u (''Failed to open GeoLite2 database: '' @ bw_Error W err) @
           ui_Hint u ''Place a GeoLite2.mmdb file in the current directory or set GO_CONNECT_GEO_DB to the database path.'',
           Inl (Wrapf ''geo-block database required but unavailable'' err))
      | Inr db \<Rightarrow>
          (ui_Success u (''Geo-blocker loaded: '' @ dec (card (blocked db)) @ '' countries blocked''), Inr (Some db)))"

subsection \<open>The command\<close>

definition broker_ui :: "broker_world \<Rightarrow> broker_flags \<Rightarrow> ui" where
  "broker_ui W f = uiFromCmd (bw_stdout W) (bw_env W) (bf_global f)"

definition broker_options :: "string \<Rightarrow> logger option \<Rightarrow> DB option \<Rightarrow> geo_DB option \<Rightarrow> ServerOption list" where
  "broker_options passphrase lg ip geo =
     [WithPassphrase passphrase, WithLogger lg] @ (if ip = None then [] else [WithIPFilter ip]) @
     (if geo = None then [] else [WithGeoFilter geo])"

definition broker_start :: "broker_world \<Rightarrow> broker_flags \<Rightarrow> string \<times> server result" where
  "broker_start W f =
     (let u = broker_ui W f; addr = parseBindAddress (bf_bind_to f)
      in case broker_logger W u (logs_enabled W f) of
        (o1, Inl err) \<Rightarrow> (o1, Inl err)
      | (o1, Inr lg) \<Rightarrow>
      (case broker_ipsum W u (ipsum_enabled W f) of
        (o2, fs, Inl err) \<Rightarrow> (o1 @ o2, Inl err)
      | (o2, fs, Inr ip) \<Rightarrow>
      (case broker_geo W u f (geo_enabled W f) of
        (o3, Inl err) \<Rightarrow> (o1 @ o2 @ o3, Inl err)
      | (o3, Inr geo) \<Rightarrow>
      (case Start (bw_listen W) (NewServer fs (bw_wall W) (bw_now W) addr (broker_options (broker_passphrase W f) lg ip geo)) of
        (Some err, _) \<Rightarrow>
          (o1 @ o2 @ o3 @ ui_Error u (''Failed to start broker on '' @ addr) @
           ui_Hint u ''Check that the port is not already in use and you have permission to bind to this address.'',
           Inl (Wrapf ''failed to start broker'' err))
      | (None, srv) \<Rightarrow> (o1 @ o2 @ o3 @ ui_Success u (''Broker listening on '' @ Address srv), Inr srv)))))"

definition announce :: "broker_world \<Rightarrow> ui \<Rightarrow> server \<Rightarrow> string" where
  "announce W u srv =
     (case SplitHostPort (Address srv) of
        Inl _ \<Rightarrow> []
      | Inr (host, port) \<Rightarrow>
          if host = ''0.0.0.0'' \<or> host = ''::''
          then ui_BlankLine u @ ui_Info u ''Available addresses for clients:'' @
               concat (map (\<lambda>a. ui_Bullet u (pad_right 24 (Display a) @ '' ('' @ Label a @ '')'')) (ListAddresses (bw_interfaces W) port))
          else ui_BlankLine u @ ui_Info u ''Clients can connect with:'' @
               ui_Info u (''  go-connect listen  -b '' @ Address srv @ '' -p <port>'') @
               ui_Info u (''  go-connect connect -b '' @ Address srv @ '' -i <id> -p <port>''))"

definition broker_RunE :: "broker_world \<Rightarrow> broker_env \<Rightarrow> (server \<Rightarrow> server) \<Rightarrow> cid list \<Rightarrow> broker_flags \<Rightarrow>
    string \<times> error option \<times> server option" where
  "broker_RunE W E life order f =
     (let u = broker_ui W f
      in case broker_start W f of
           (o1, Inl err) \<Rightarrow> (o1, Some err, None)
         | (o1, Inr srv) \<Rightarrow>
             (o1 @ announce W u srv @ ui_BlankLine u @ ui_Info u ''Waiting for connections...'' @
              ui_BlankLine u @ ui_Info u ''Shutting down broker...'', None, Some (Stop E order (life srv))))"

subsection \<open>A protection that was asked for is there or the broker does not start\<close>

lemma NewServer_options:
  "NewServer fs w t addr (broker_options passphrase lg ip geo) =
     \<lparr>address = addr, hub = \<lparr>router = NewRouter, heap = [], now = t\<rparr>, listener = None, accepting = False,
      clients = {}, connSem = 0, closeCh = False, passphraseHash = sha256_Sum256 (bytes_of_string passphrase), slogger = lg,
      ipFilter = ip, geoFilter = geo, beats = {}, disk = fs, wall = w\<rparr>"
proof -
  have "sha256_Sum256 m \<noteq> []" for m by (metis length_sha256 list.size(3) zero_neq_numeral)
  then show ?thesis
    by (auto simp: NewServer_def broker_options_def Let_def WithPassphrase_def WithLogger_def WithIPFilter_def WithGeoFilter_def)
qed

lemma broker_ipsum_loaded:
  assumes "broker_ipsum W u True = (o2, fs, Inr ip)"
  obtains db warns where "ip = Some db" "LoadFromFile fs (NewDB DefaultMinCount) DefaultFilePath = (None, warns, db)"
  using assms by (auto simp: broker_ipsum_def split: prod.splits option.splits)

lemma broker_geo_opened:
  assumes "broker_geo W u f True = (o3, Inr geo)"
  obtains db where "geo = Some db" "blocked_countries W f \<noteq> []"
    "geo_Open (bw_tables W) (bw_open_db W) (geo_path W) (blocked_countries W f) = Inr db"
  using assms by (auto simp: broker_geo_def split: if_splits sum.splits)

text \<open>C34: the broker fails closed. When the command gets as far as accepting connections, every protection that flags or
  environment ask for is in place: clients are checked against the given passphrase, the security log is open, the
  IP filter is the database that was loaded without error from the feed file with threshold 3, and the country
  filter is an opened database that blocks a list of codes that is not empty. In every other case the
  command returns an error and no server runs.\<close>

theorem broker_fails_closed:
  "case broker_RunE W E life order f of
     (out, Some err, srv) \<Rightarrow> srv = None
   | (out, None, srv) \<Rightarrow>
       \<exists>s fs. srv = Some (Stop E order (life s)) \<and> accepting s \<and> disk s = fs \<and>
         address s = parseBindAddress (bf_bind_to f) \<and>
         passphraseHash s = sha256_Sum256 (bytes_of_string (broker_passphrase W f)) \<and>
         slogger s = (if logs_enabled W f then Some \<lparr>dir = ''logs''\<rparr> else None) \<and>
         (if ipsum_enabled W f
          then \<exists>db warns. ipFilter s = Some db \<and> LoadFromFile fs (NewDB 3) ''ipsum.txt'' = (None, warns, db)
          else ipFilter s = None) \<and>
         (if geo_enabled W f
          then \<exists>db. geoFilter s = Some db \<and> blocked_countries W f \<noteq> [] \<and>
                 geo_Open (bw_tables W) (bw_open_db W) (geo_path W) (blocked_countries W f) = Inr db
          else geoFilter s = None)"
proof (cases "broker_start W f")
  case (Pair o1 res)
  show ?thesis
  proof (cases res)
    case (Inl err)
    then show ?thesis using Pair by (simp add: broker_RunE_def Let_def)
  next
    case (Inr s)
    let ?u = "broker_ui W f"
    obtain o1 lg o2 fs ip o3 geo bound where parts:
      "broker_logger W ?u (logs_enabled W f) = (o1, Inr lg)" "broker_ipsum W ?u (ipsum_enabled W f) = (o2, fs, Inr ip)"
      "broker_geo W ?u f (geo_enabled W f) = (o3, Inr geo)"
      "s = (NewServer fs (bw_wall W) (bw_now W) (parseBindAddress (bf_bind_to f)) (broker_options (broker_passphrase W f) lg ip geo))
             \<lparr>listener := Some bound, accepting := True\<rparr>"
      using Pair Inr by (auto simp: broker_start_def Let_def Start_def split: prod.splits sum.splits option.splits)
    have "lg = (if logs_enabled W f then Some \<lparr>dir = ''logs''\<rparr> else None)"
      using parts(1) by (auto simp: broker_logger_def NewLogger_def split: if_splits sum.splits option.splits)
    moreover have "if ipsum_enabled W f then \<exists>db warns. ip = Some db \<and> LoadFromFile fs (NewDB 3) ''ipsum.txt'' = (None, warns, db) else ip = None"
    proof (cases "ipsum_enabled W f")
      case True
      with parts(2) have "broker_ipsum W ?u True = (o2, fs, Inr ip)" by simp
      then obtain db warns where "ip = Some db" "LoadFromFile fs (NewDB DefaultMinCount) DefaultFilePath = (None, warns, db)"
        by (rule broker_ipsum_loaded)
      then show ?thesis using True by (auto simp: DefaultMinCount_def DefaultFilePath_def)
    qed (use parts(2) in \<open>auto simp: broker_ipsum_def\<close>)
    moreover have "if geo_enabled W f then \<exists>db. geo = Some db \<and> blocked_countries W f \<noteq> [] \<and>
        geo_Open (bw_tables W) (bw_open_db W) (geo_path W) (blocked_countries W f) = Inr db else geo = None"
    proof (cases "geo_enabled W f")
      case True
      with parts(3) have "broker_geo W ?u f True = (o3, Inr geo)" by simp
      from broker_geo_opened [OF this] show ?thesis using True by auto
    qed (use parts(3) in \<open>auto simp: broker_geo_def\<close>)
    moreover have "accepting s" "disk s = fs" "address s = parseBindAddress (bf_bind_to f)" "slogger s = lg" "ipFilter s = ip" "geoFilter s = geo"
        "passphraseHash s = sha256_Sum256 (bytes_of_string (broker_passphrase W f))"
      by (simp_all add: parts(4) NewServer_options)
    moreover obtain out where "broker_RunE W E life order f = (out, None, Some (Stop E order (life s)))"
      using Pair Inr by (simp add: broker_RunE_def Let_def)
    ultimately show ?thesis by (auto intro!: exI [of _ s])
  qed
qed

end
