(* ===== verification/Cmd_Tunnel.thy ===== *)
theory Cmd_Tunnel
  imports Cmd_Helpers Tunnel_Listener Tunnel_Connector
begin

text \<open>
  \<^verbatim>\<open>cmd/listen.go\<close> and \<^verbatim>\<open>cmd/connect.go\<close>: the two client commands. Both run
  \<open>RunWithReconnect\<close> over four closures; a round of its script is made from the world of that round
  (\<open>attempt_env\<close>), in which \<open>Listener_Start\<close> or \<open>Connector_Start\<close> decides how the connect ends. The
  output is what the command's own goroutine writes, call by call; the goroutine that waits for a signal writes
  \<open>shutdown_output\<close> before it cancels the context.
\<close>

record tunnel_flags =
  tf_global :: global_flags
  tf_port :: int
  tf_broker :: string
  tf_id :: string
  tf_passphrase :: string

record tunnel_world =
  tw_env :: environ
  tw_stdout :: "u32 result"
  tw_uuid :: string
  tw_ctxErr :: error
  tw_machine :: "float64 \<Rightarrow> int"
  tw_tables :: unicode_tables
  tw_net_text :: "error \<Rightarrow> string"
  tw_tunnel :: tunnel_env

text \<open>One round: the connection that the dialler gives, the randomness and the luck of the handshake, the outcome of
  \<^verbatim>\<open>net.Listen\<close> (for the connector), and the choices of the loop around it.\<close>

record attempt_env =
  at_cancelled :: bool
  at_jitter :: "bytes result"
  at_backoff :: select_case
  at_dial :: dialer
  at_rand :: "bytes result"
  at_sent :: bool
  at_listen :: "string \<Rightarrow> error option"
  at_wait :: select_case

definition round_of :: "attempt_env \<Rightarrow> error option \<Rightarrow> round_env" where
  "round_of a outcome =
     \<lparr>r_cancelled = at_cancelled a, r_rand = at_jitter a, r_backoff = at_backoff a, r_connect = outcome, r_wait = at_wait a\<rparr>"

subsection \<open>Settings\<close>

definition tunnel_id :: "tunnel_world \<Rightarrow> tunnel_flags \<Rightarrow> string" where
  "tunnel_id W f = (let i = TrimSpace (tf_id f) in if i = [] then TrimSpace (tw_env W ''GO_CONNECT_ID'') else i)"

definition listen_id :: "tunnel_world \<Rightarrow> tunnel_flags \<Rightarrow> string" where
  "listen_id W f = (if tunnel_id W f = [] then tw_uuid W else tunnel_id W f)"

definition tunnel_passphrase :: "tunnel_world \<Rightarrow> tunnel_flags \<Rightarrow> string" where
  "tunnel_passphrase W f = (if tf_passphrase f = [] then tw_env W ''GO_CONNECT_PASSPHRASE'' else tf_passphrase f)"

definition tunnel_ui :: "tunnel_world \<Rightarrow> tunnel_flags \<Rightarrow> ui" where
  "tunnel_ui W f = uiFromCmd (tw_stdout W) (tw_env W) (tf_global f)"

definition tunnel_renv :: "tunnel_world \<Rightarrow> reconnect_env" where
  "tunnel_renv W = \<lparr>re_ctxErr = tw_ctxErr W, re_callback = True, re_machine = tw_machine W\<rparr>"

subsection \<open>Output\<close>

definition shutdown_output :: "ui \<Rightarrow> string \<Rightarrow> string" where
  "shutdown_output u what = ui_BlankLine u @ ui_Info u (''Shutting down '' @ what @ ''...'')"

text \<open>The callback; the commands differ in the last of the three success messages.\<close>

definition reconnect_output :: "ui \<Rightarrow> string \<Rightarrow> reconnect_event \<Rightarrow> string" where
  "reconnect_output u again ev =
     (if re_Connected ev
      then ui_Success u ''Re-established connection to broker'' @ ui_Success u ''Encryption re-negotiated'' @ ui_Success u again
      else (if re_Attempt ev = 1
            then ui_Warning u ''Connection to broker lost'' @ ui_BlankLine u @ ui_Info u ''Reconnecting...''
            else []) @
           (let retryLabel = (if re_MaxRetries ev = -1 then [CHR 0xE2, CHR 0x88, CHR 0x9E] else Itoa (re_MaxRetries ev))
            in ui_Info u (''  Attempt '' @ Itoa (re_Attempt ev) @ ''/'' @ retryLabel @ '' ... failed (waiting '' @
                 Duration_String (Duration_Round (re_Delay ev) Millisecond) @ '')'')))"

definition listen_connected :: "ui \<Rightarrow> string \<Rightarrow> string \<Rightarrow> string \<Rightarrow> string" where
  "listen_connected u brokerAddr connectionID localPort =
     ui_Success u (''Connected to broker at '' @ brokerAddr) @
     ui_Success u ''Encryption established (X25519 + AES-256-GCM)'' @
     ui_BlankLine u @
     (if IsQuiet u then ui_Raw u connectionID
      else ui_Info u (''Connection ID: '' @ connectionID) @
           ui_BlankLine u @
           ui_Info u ''Share this ID with the connecting client.'' @
           ui_Info u (''Listening for connections on local port '' @ localPort @ ''...''))"

definition connect_connected :: "ui \<Rightarrow> string \<Rightarrow> string \<Rightarrow> string \<Rightarrow> string" where
  "connect_connected u brokerAddr connectionID localPort =
     ui_Success u (''Connected to broker at '' @ brokerAddr) @
     ui_Success u ''Encryption established (X25519 + AES-256-GCM)'' @
     ui_Success u (''Linked to listener '' @ connectionID) @
     ui_BlankLine u @
     ui_Info u (''Local service available on 127.0.0.1:'' @ localPort)"

text \<open>What the closures write during the calls of the reconnect loop; \<open>first\<close> is \<^verbatim>\<open>firstConnect\<close>.\<close>

fun run_output :: "(reconnect_event \<Rightarrow> string) \<Rightarrow> string \<Rightarrow> bool \<Rightarrow> call list \<Rightarrow> string" where
  "run_output cb up first [] = []"
| "run_output cb up first (Call_connect None # cs) = (if first then up else []) @ run_output cb up False cs"
| "run_output cb up first (Call_callback ev # cs) = cb ev @ run_output cb up first cs"
| "run_output cb up first (_ # cs) = run_output cb up first cs"

definition broker_unreachable :: "ui \<Rightarrow> string \<Rightarrow> string" where
  "broker_unreachable u brokerAddr =
     ui_Error u (''Cannot reach broker at '' @ brokerAddr) @
     ui_Hint u (''Is the broker running? Start it with: go-connect broker --bind-to='' @ brokerAddr)"

definition authentication_failed :: "ui \<Rightarrow> string" where
  "authentication_failed u =
     ui_Error u ''Authentication failed'' @
     ui_Hint u ''The passphrase does not match. Check --passphrase or GO_CONNECT_PASSPHRASE.''"

definition listen_report :: "ui \<Rightarrow> string \<Rightarrow> string \<Rightarrow> string" where
  "listen_report u brokerAddr errMsg =
     (if Contains errMsg ''connection refused'' then broker_unreachable u brokerAddr
      else if Contains errMsg ''registration rejected''
        then ui_Error u ''Registration rejected by broker'' @
             ui_Hint u ''The connection ID may already be in use. Try a different --id.''
      else if Contains errMsg ''passphrase mismatch'' \<or> Contains errMsg ''EOF'' then authentication_failed u
      else ui_Error u (''Failed to connect: '' @ errMsg))"

definition connect_report :: "unicode_tables \<Rightarrow> ui \<Rightarrow> string \<Rightarrow> string \<Rightarrow> string \<Rightarrow> string" where
  "connect_report tables u brokerAddr connectionID errMsg =
     (if Contains errMsg ''no listener registered''
        then ui_Error u (''No listener found for ID '' @ Quote tables connectionID) @
             ui_Hint u ''The listener may not have started yet, the ID may be incorrect, or the listener disconnected.'' @
             ui_Hint u (''Run '' @ [CHR 0x22] @ ''go-connect listen -p <port> -b '' @ brokerAddr @ [CHR 0x22] @ '' on the remote machine first.'')
      else if Contains errMsg ''connection refused'' then broker_unreachable u brokerAddr
      else if Contains errMsg ''passphrase mismatch'' \<or> Contains errMsg ''EOF'' then authentication_failed u
      else ui_Error u (''Failed to connect: '' @ errMsg))"

subsection \<open>The closures\<close>

definition listen_connect :: "tunnel_world \<Rightarrow> tunnel_flags \<Rightarrow> attempt_env \<Rightarrow> error option \<times> listener" where
  "listen_connect W f a =
     (case Listener_Start (tw_tunnel W) (at_dial a) (at_rand a) (at_sent a)
             (NewListener (Itoa (tf_port f)) (parseBrokerAddress (tf_broker f)) (listen_id W f) (tunnel_passphrase W f)) of
        (err, _, l) \<Rightarrow> (err, l))"

definition connect_connect :: "tunnel_world \<Rightarrow> tunnel_flags \<Rightarrow> attempt_env \<Rightarrow> error option \<times> connector" where
  "connect_connect W f a =
     (case Connector_Start (tw_tunnel W) (at_dial a) (at_listen a) (at_rand a) (at_sent a)
             (NewConnector (parseBrokerAddress (tf_broker f)) (tunnel_id W f) (Itoa (tf_port f)) (tunnel_passphrase W f)) of
        (err, _, c) \<Rightarrow> (err, c))"

text \<open>\<^verbatim>\<open>done\<close> and \<^verbatim>\<open>cleanup\<close> on the variable the closures share; a variable that is \<^verbatim>\<open>nil\<close> counts as
  done.\<close>

definition listen_done :: "listener option \<Rightarrow> bool" where
  "listen_done v = (case v of None \<Rightarrow> True | Some l \<Rightarrow> Listener_Done l)"

definition listen_cleanup :: "tunnel_env \<Rightarrow> listener option \<Rightarrow> listener option \<times> listener option" where
  "listen_cleanup E v = (map_option (Listener_Close E) v, None)"

definition connect_done :: "connector option \<Rightarrow> bool" where
  "connect_done v = (case v of None \<Rightarrow> True | Some c \<Rightarrow> Connector_Done c)"

definition connect_cleanup :: "tunnel_env \<Rightarrow> connector option \<Rightarrow> connector option \<times> connector option" where
  "connect_cleanup E v = (map_option (Connector_Close E) v, None)"

subsection \<open>The commands\<close>

text \<open>The end of both commands; \<open>cancelled\<close> is whether the context is cancelled when the loop has returned.\<close>

definition finish_run :: "(string \<Rightarrow> string) \<Rightarrow> string \<Rightarrow> tunnel_world \<Rightarrow> bool \<Rightarrow> error option option \<Rightarrow> string \<times> error option option" where
  "finish_run report what W cancelled res =
     (case res of
        None \<Rightarrow> ([], None)
      | Some None \<Rightarrow> ([], Some None)
      | Some (Some err) \<Rightarrow>
          if cancelled then ([], Some None)
          else (report (error_text (tw_tables W) (tw_net_text W) err), Some (Some (Wrapf what err))))"

definition listen_loop :: "tunnel_world \<Rightarrow> tunnel_flags \<Rightarrow> attempt_env \<Rightarrow> attempt_env list \<Rightarrow> error option option \<times> call list" where
  "listen_loop W f first script =
     RunWithReconnect (tunnel_renv W) (reconnectConfigFromCmd (tw_env W) (tf_global f)) (fst (listen_connect W f first))
       (at_wait first) (map (\<lambda>a. round_of a (fst (listen_connect W f a))) script)"

definition listen_RunE :: "tunnel_world \<Rightarrow> tunnel_flags \<Rightarrow> attempt_env \<Rightarrow> attempt_env list \<Rightarrow> bool \<Rightarrow> string \<times> error option option" where
  "listen_RunE W f first script cancelled =
     (let u = tunnel_ui W f; brokerAddr = parseBrokerAddress (tf_broker f); connectionID = listen_id W f
      in case listen_loop W f first script of
        (res, calls) \<Rightarrow>
          (case finish_run (listen_report u brokerAddr) ''failed to start listener'' W cancelled res of
             (o2, ret) \<Rightarrow>
               (run_output (reconnect_output u (''Re-registered as listener (Connection ID: '' @ connectionID @ '')''))
                  (listen_connected u brokerAddr connectionID (Itoa (tf_port f))) True calls @ o2, ret)))"

definition connect_RunE :: "tunnel_world \<Rightarrow> tunnel_flags \<Rightarrow> attempt_env \<Rightarrow> attempt_env list \<Rightarrow> bool \<Rightarrow> string \<times> error option option" where
  "connect_RunE W f first script cancelled =
     (let u = tunnel_ui W f; brokerAddr = parseBrokerAddress (tf_broker f); connectionID = tunnel_id W f
      in if connectionID = [] then
           (ui_Error u ''Connection ID is required'' @ ui_Hint u ''Provide --id flag or set GO_CONNECT_ID environment variable.'',
            Some (Some (Errorf ''--id flag or GO_CONNECT_ID environment variable is required'')))
         else case RunWithReconnect (tunnel_renv W) (reconnectConfigFromCmd (tw_env W) (tf_global f)) (fst (connect_connect W f first))
                (at_wait first) (map (\<lambda>a. round_of a (fst (connect_connect W f a))) script) of
        (res, calls) \<Rightarrow>
          (case finish_run (connect_report (tw_tables W) u brokerAddr connectionID) ''failed to start connector'' W cancelled res of
             (o2, ret) \<Rightarrow>
               (run_output (reconnect_output u (''Re-linked to listener '' @ connectionID))
                  (connect_connected u brokerAddr connectionID (Itoa (tf_port f))) True calls @ o2, ret)))"

subsection \<open>Quiet mode\<close>

lemma quiet_outputs:
  assumes "u_quiet u"
  shows "reconnect_output u again ev = (if \<not> re_Connected ev \<and> re_Attempt ev = 1 then [newline] else [])"
    and "listen_connected u b i p = newline # i @ [newline]"
  using assms by (simp_all add: reconnect_output_def listen_connected_def ui_BlankLine_def ui_Raw_def IsQuiet_def Let_def)

lemma quiet_report: "u_quiet u \<Longrightarrow> \<exists>msg. listen_report u b m = ui_Error u msg"
  by (auto simp: listen_report_def broker_unreachable_def authentication_failed_def)

lemma quiet_run:
  assumes "\<And>ev. cb ev = [] \<or> cb ev = [newline]" "up = newline # i @ [newline]"
  shows "\<exists>before behind. run_output cb up first calls =
      replicate before newline @ (if first \<and> Call_connect None \<in> set calls then i @ newline # replicate behind newline else []) \<and>
      (first \<and> Call_connect None \<in> set calls \<longrightarrow> 0 < before)"
  using assms
proof (induction cb up first calls rule: run_output.induct)
  case (1 cb up first)
  show ?case by (intro exI [of _ 0]) simp
next
  case (2 cb up first cs)
  then obtain n where n: "run_output cb up False cs = replicate n newline" by auto
  show ?case
  proof (cases first)
    case True
    have "run_output cb up first (Call_connect None # cs) = replicate 1 newline @ i @ newline # replicate n newline"
      using n True "2.prems"(2) by simp
    then show ?thesis using True by (intro exI [of _ 1] exI [of _ n]) (simp only: list.set insert_iff simp_thms if_True zero_less_one)
  next
    case False
    show ?thesis by (rule exI [of _ n]) (simp add: n False)
  qed
next
  case (3 cb up first ev cs)
  then obtain n m where n: "run_output cb up first cs =
      replicate n newline @ (if first \<and> Call_connect None \<in> set cs then i @ newline # replicate m newline else [])"
    "first \<and> Call_connect None \<in> set cs \<longrightarrow> 0 < n" by blast
  have "replicate (length (cb ev)) newline = cb ev" using "3.prems"(1) [of ev] by auto
  then have "run_output cb up first (Call_callback ev # cs) = replicate (length (cb ev) + n) newline @
      (if first \<and> Call_connect None \<in> set cs then i @ newline # replicate m newline else [])"
    using n(1) by (simp add: replicate_add)
  then show ?case using n(2) by (intro exI [of _ "length (cb ev) + n"] exI [of _ m]) simp
qed auto

lemma quiet_run_output:
  assumes "u_quiet u"
  shows "\<exists>before behind. run_output (reconnect_output u again) (listen_connected u b i p) first calls =
      replicate before newline @ (if first \<and> Call_connect None \<in> set calls then i @ newline # replicate behind newline else []) \<and>
      (first \<and> Call_connect None \<in> set calls \<longrightarrow> 0 < before)"
  by (rule quiet_run) (auto simp: quiet_outputs [OF assms])

text \<open>A loop that reports a connection has had a successful attempt.\<close>

lemma loop_connects:
  "Call_connect None \<in> set (snd (reconnect_loop R c attempt e script)) \<Longrightarrow> \<exists>r\<in>set script. r_connect r = None"
proof (induction script arbitrary: attempt e)
  case Nil
  then show ?case by (simp add: reconnect_loop.simps split: if_splits)
next
  case (Cons r script)
  then show ?case
    by (auto simp: reconnect_loop.simps [of R c attempt e "r # script"] Let_def notify_def
        split: if_splits select_case.splits option.splits prod.splits) (metis snd_conv)+
qed

lemma listen_loop_connects:
  assumes "Call_connect None \<in> set (snd (listen_loop W f first script))"
  shows "\<exists>a\<in>set (first # script). fst (listen_connect W f a) = None"
proof (cases "fst (listen_connect W f first)")
  case (Some err)
  let ?c = "reconnectConfigFromCmd (tw_env W) (tf_global f)" and ?rs = "map (\<lambda>a. round_of a (fst (listen_connect W f a))) script"
  have "Call_connect None \<in> set (snd (reconnect_loop (tunnel_renv W) ?c 0 err ?rs))"
    using assms Some by (auto simp: listen_loop_def RunWithReconnect_def split: if_splits prod.splits)
  then have "\<exists>r\<in>set ?rs. r_connect r = None" by (rule loop_connects)
  then show ?thesis by (auto simp: round_of_def)
qed simp

text \<open>C39: what the command writes in quiet mode. Whatever happens to the connection (failed attempts, lost connections,
  reconnects, a cancellation), the output consists of empty lines, then, exactly when the listener has been registered, the
  connection ID as a line of its own, once, and further empty lines; and, exactly when the command fails, an error message at the
  end, which quiet mode does not suppress. There is at least one empty line in front of the ID.\<close>

theorem listen_quiet_output:
  assumes "u_quiet (tunnel_ui W f)" "listen_RunE W f first script cancelled = (out, ret)"
  shows "\<exists>registered before behind report.
    out = replicate before newline @ (if registered then listen_id W f @ newline # replicate behind newline else []) @ report \<and>
    (registered \<longleftrightarrow> Call_connect None \<in> set (snd (listen_loop W f first script))) \<and>
    (registered \<longrightarrow> 0 < before \<and> (\<exists>a\<in>set (first # script). fst (listen_connect W f a) = None)) \<and>
    (if \<exists>err. ret = Some (Some err) then \<exists>msg. report = ui_Error (tunnel_ui W f) msg else report = [])"
proof (cases "listen_loop W f first script")
  case (Pair res calls)
  let ?again = "''Re-registered as listener (Connection ID: '' @ listen_id W f @ '')''" and ?b = "parseBrokerAddress (tf_broker f)"
  obtain o2 where fin: "finish_run (listen_report (tunnel_ui W f) ?b) ''failed to start listener'' W cancelled res = (o2, ret)"
    and out: "out = run_output (reconnect_output (tunnel_ui W f) ?again)
      (listen_connected (tunnel_ui W f) ?b (listen_id W f) (Itoa (tf_port f))) True calls @ o2"
    using assms(2) Pair by (auto simp: listen_RunE_def Let_def split: prod.splits)
  obtain n m where n: "out = replicate n newline @ (if Call_connect None \<in> set calls then listen_id W f @ newline # replicate m newline else []) @ o2"
      "Call_connect None \<in> set calls \<longrightarrow> 0 < n"
    using quiet_run_output [OF assms(1), of ?again ?b "listen_id W f" "Itoa (tf_port f)" True calls] unfolding out append_assoc [symmetric]
    by (auto simp del: append_assoc)
  have "if \<exists>err. ret = Some (Some err) then \<exists>msg. o2 = ui_Error (tunnel_ui W f) msg else o2 = []"
    using fin quiet_report [OF assms(1)] by (auto simp: finish_run_def split: option.splits if_splits)
  then show ?thesis using n listen_loop_connects [of W f first script] Pair
    by (intro exI [of _ "Call_connect None \<in> set calls"] exI [of _ n] exI [of _ m] exI [of _ o2]) simp
qed

text \<open>The ID is not all that is printed: an empty line comes first.\<close>

lemma listen_quiet_leading_blank:
  assumes "u_quiet (tunnel_ui W f)" "fst (listen_connect W f first) = None" "at_wait first = Ctx_done"
  shows "listen_RunE W f first script True = (newline # listen_id W f @ [newline], Some None)"
  using assms by (simp add: listen_RunE_def listen_loop_def RunWithReconnect_def finish_run_def Let_def quiet_outputs)

definition sample_tw :: tunnel_world where
  "sample_tw = \<lparr>tw_env = (\<lambda>v. if v = ''GO_CONNECT_QUIET'' then ''1'' else []), tw_stdout = Inr 0,
     tw_uuid = ''327ac625-3b0c-4bd7-ab1b-bb9d733774ae'', tw_ctxErr = Errorf ''context canceled'', tw_machine = (\<lambda>x. 0),
     tw_tables = \<lparr>IsPrint_rune = (\<lambda>r. False), ToUpper_nonASCII = (\<lambda>s. s)\<rparr>, tw_net_text = (\<lambda>e. ''network''),
     tw_tunnel = sample_tenv\<rparr>"

definition sample_tf :: tunnel_flags where
  "sample_tf = \<lparr>tf_global = \<lparr>g_verbose = False, g_quiet = False, g_no_color = False, g_max_retries = 10, g_max_retries_changed = False\<rparr>,
     tf_port = 5900, tf_broker = [], tf_id = [], tf_passphrase = []\<rparr>"

definition sample_attempt :: "net_conn \<Rightarrow> attempt_env" where
  "sample_attempt cn = \<lparr>at_cancelled = False, at_jitter = Inl (Errorf ''entropy''), at_backoff = Ctx_done,
     at_dial = (\<lambda>a. Inr cn), at_rand = Inr (replicate 32 1), at_sent = True, at_listen = (\<lambda>a. None), at_wait = Other_case\<rparr>"

lemma sample_quiet_id:
  "u_quiet (tunnel_ui sample_tw sample_tf)" "listen_id sample_tw sample_tf = ''327ac625-3b0c-4bd7-ab1b-bb9d733774ae''"
proof -
  have "TrimSpace [] = []" by code_simp
  then show "listen_id sample_tw sample_tf = ''327ac625-3b0c-4bd7-ab1b-bb9d733774ae''"
    by (simp add: listen_id_def tunnel_id_def sample_tw_def sample_tf_def Let_def)
qed (simp add: tunnel_ui_def uiFromCmd_def NewDefaultUI_def NewUI_def sample_tw_def sample_tf_def Let_def)

theorem listen_quiet_output_witness:
  "\<exists>cn before behind. fst (listen_RunE sample_tw sample_tf (sample_attempt cn) [sample_attempt cn] True) =
     replicate before newline @ ''327ac625-3b0c-4bd7-ab1b-bb9d733774ae'' @ newline # replicate behind newline \<and> 0 < before"
proof -
  note q = sample_quiet_id
  have "sendable (Envelope_Register \<lparr>Register_ConnectionId = listen_id sample_tw sample_tf\<rparr>)"
    by (simp add: q(2) sendable_simps)
  then obtain cn s where "Listener_Start sample_tenv (\<lambda>_. Inr cn) (Inr (replicate 32 1)) True
      (NewListener (Itoa (tf_port sample_tf)) (parseBrokerAddress (tf_broker sample_tf)) (listen_id sample_tw sample_tf)
        (tunnel_passphrase sample_tw sample_tf)) = (None, s)"
    using sample_Listener_Start by blast
  moreover have "tw_tunnel sample_tw = sample_tenv" by (simp add: sample_tw_def)
  ultimately have cn: "fst (listen_connect sample_tw sample_tf (sample_attempt cn)) = None"
    by (simp add: listen_connect_def sample_attempt_def split: prod.split)
  have m: "MaxRetries (reconnectConfigFromCmd (tw_env sample_tw) (tf_global sample_tf)) = 10"
    by (simp add: reconnectConfigFromCmd_def sample_tw_def sample_tf_def Let_def)
  have calls: "Call_connect None \<in> set (snd (listen_loop sample_tw sample_tf (sample_attempt cn) [sample_attempt cn]))"
    by (auto simp: listen_loop_def RunWithReconnect_def cn m split: select_case.splits prod.splits)
  obtain out ret where r: "listen_RunE sample_tw sample_tf (sample_attempt cn) [sample_attempt cn] True = (out, ret)" by fastforce
  then have "ret = None \<or> ret = Some None"
    by (auto simp: listen_RunE_def Let_def finish_run_def split: prod.splits option.splits)
  then have ok: "\<not> (\<exists>err. ret = Some (Some err))" by auto
  obtain registered before behind report where
    t: "out = replicate before newline @ (if registered then listen_id sample_tw sample_tf @ newline # replicate behind newline else []) @ report"
      "registered \<longleftrightarrow> Call_connect None \<in> set (snd (listen_loop sample_tw sample_tf (sample_attempt cn) [sample_attempt cn]))"
      "registered \<longrightarrow> 0 < before"
      "if \<exists>err. ret = Some (Some err) then \<exists>msg. report = ui_Error (tunnel_ui sample_tw sample_tf) msg else report = []"
    using listen_quiet_output [OF q(1) r] by blast
  have "report = []" using t(4) ok by (simp only: if_False)
  with t(1-3) calls have "fst (listen_RunE sample_tw sample_tf (sample_attempt cn) [sample_attempt cn] True) =
     replicate before newline @ ''327ac625-3b0c-4bd7-ab1b-bb9d733774ae'' @ newline # replicate behind newline" "0 < before"
    by (simp_all add: q(2) r)
  then show ?thesis by blast
qed

end
