(* ===== verification/Commands.thy ===== *)
theory Commands
  imports Cmd_Broker Cmd_Tunnel
begin

text \<open>
  The command tree of \<^verbatim>\<open>types/app_context.go\<close> and the \<^verbatim>\<open>New...Command\<close> functions as data, and how the flags of
  the tree become the values the commands work with. cobra, which parses the command line and looks flags up, is a
  parameter (\<open>pflag\<close>).
\<close>

subsection \<open>Flags and commands\<close>

datatype flag_value = Bool_value bool | Int_value int | String_value string

record flag_decl =
  flag_name :: string
  flag_short :: string
  flag_default :: flag_value
  flag_usage :: string
  flag_required :: bool

definition declare_flag :: "string \<Rightarrow> string \<Rightarrow> flag_value \<Rightarrow> string \<Rightarrow> flag_decl" where
  "declare_flag n s d u = \<lparr>flag_name = n, flag_short = s, flag_default = d, flag_usage = u, flag_required = False\<rparr>"

definition MarkFlagRequired :: "string \<Rightarrow> flag_decl list \<Rightarrow> flag_decl list" where
  "MarkFlagRequired n fs = map (\<lambda>f. if flag_name f = n then f\<lparr>flag_required := True\<rparr> else f) fs"

record command =
  Use :: string
  Aliases :: "string list"
  Short :: string
  Long :: string
  no_args :: bool
  Flags :: "flag_decl list"

record app_context =
  rootCommand :: command
  PersistentFlags :: "flag_decl list"
  subcommands :: "command list"

definition broker_flag_decls :: "flag_decl list" where
  "broker_flag_decls =
     [declare_flag ''bind-to'' '''' (String_value ''0.0.0.0:1781'') ''address to listen on (host:port, :port, or host)'',
      declare_flag ''passphrase'' '''' (String_value '''')
        ''passphrase for client authentication (overrides GO_CONNECT_PASSPHRASE env var)'',
      declare_flag ''enable-ipsum'' '''' (Bool_value False)
        ''enable IPsum IP blocking (overrides GO_CONNECT_ENABLE_IPSUM env var)'',
      declare_flag ''enable-geo-blocker'' '''' (Bool_value False)
        ''enable GeoLite2 country blocking (overrides GO_CONNECT_ENABLE_GEO_BLOCKER env var)'',
      declare_flag ''blocked-countries'' '''' (String_value '''')
        ''comma-separated ISO country codes to block (overrides GO_CONNECT_BLOCKED_COUNTRIES env var)'',
      declare_flag ''enable-security-logs'' '''' (Bool_value False)
        ''enable security event logging (overrides GO_CONNECT_ENABLE_SECURITY_LOGS env var)'']"

definition NewBrokerCommand :: command where
  "NewBrokerCommand = \<lparr>Use = ''broker'', Aliases = [''b''], Short = ''Start the broker server'',
     Long = ''Starts the broker (Vermittler) that relays encrypted connections between clients'', no_args = True,
     Flags = broker_flag_decls\<rparr>"

definition listen_flag_decls :: "flag_decl list" where
  "listen_flag_decls =
     (let fs1 = [declare_flag ''port'' ''p'' (Int_value 0) ''local port of the service to expose (required)''];
          fs2 = MarkFlagRequired ''port'' fs1
      in fs2 @
        [declare_flag ''broker'' ''b'' (String_value ''127.0.0.1:1781'') ''broker address (host:port, :port, or host)'',
         declare_flag ''id'' ''i'' (String_value '''')
           ''connection ID to use (overrides GO_CONNECT_ID env var; auto-generated if empty)'',
         declare_flag ''passphrase'' '''' (String_value '''')
           ''passphrase for broker authentication (overrides GO_CONNECT_PASSPHRASE env var)''])"

definition NewListenCommand :: command where
  "NewListenCommand = \<lparr>Use = ''listen'', Aliases = [''l''], Short = ''Register as listener with the broker'',
     Long = ''Connects to the broker and registers as a listener, forwarding traffic to a local service'', no_args = True,
     Flags = listen_flag_decls\<rparr>"

definition connect_flag_decls :: "flag_decl list" where
  "connect_flag_decls =
     [declare_flag ''broker'' ''b'' (String_value ''127.0.0.1:1781'') ''broker address (host:port, :port, or host)'',
      declare_flag ''id'' ''i'' (String_value '''')
        ''connection ID of the listener to connect to (overrides GO_CONNECT_ID env var)'',
      declare_flag ''port'' ''p'' (Int_value 12345) ''local port to expose the service on'',
      declare_flag ''passphrase'' '''' (String_value '''')
        ''passphrase for broker authentication (overrides GO_CONNECT_PASSPHRASE env var)'']"

definition NewConnectCommand :: command where
  "NewConnectCommand = \<lparr>Use = ''connect'', Aliases = [''c''], Short = ''Connect to a listener via the broker'',
     Long = ''Connects to a listener through the broker and exposes the remote service on a local port'', no_args = True,
     Flags = connect_flag_decls\<rparr>"

definition NewVersionCommand :: command where
  "NewVersionCommand = \<lparr>Use = ''version'', Aliases = [], Short = ''Print version information'', Long = '''', no_args = False, Flags = []\<rparr>"

definition NewAppContext :: app_context where
  "NewAppContext =
     \<lparr>rootCommand = \<lparr>Use = ''go-connect'', Aliases = [], Short = ''Encrypted TCP tunnel tool'',
        Long = ''Creates encrypted connections between clients via a broker over TCP/IP'', no_args = False, Flags = []\<rparr>,
      PersistentFlags =
        [declare_flag ''verbose'' ''v'' (Bool_value False) ''enable verbose output with debug details'',
         declare_flag ''quiet'' ''q'' (Bool_value False) ''suppress all output except errors and essential info'',
         declare_flag ''no-color'' '''' (Bool_value False) ''disable colored output (also respects NO_COLOR env var)'',
         declare_flag ''max-retries'' '''' (Int_value 10) ''max reconnect attempts (-1=infinite, 0=disabled)''],
      subcommands = [NewBrokerCommand, NewListenCommand, NewConnectCommand, NewVersionCommand]\<rparr>"

text \<open>The flags a subcommand sees: its own and the persistent ones of the root.\<close>

definition visible :: "app_context \<Rightarrow> command \<Rightarrow> flag_decl list" where
  "visible app c = Flags c @ PersistentFlags app"

subsection \<open>Reading flags\<close>

text \<open>What the command line has set; and the lookups of the flag library.\<close>

type_synonym given = "string \<rightharpoonup> flag_value"

record pflag =
  GetBool :: "flag_decl list \<Rightarrow> given \<Rightarrow> string \<Rightarrow> bool"
  GetInt :: "flag_decl list \<Rightarrow> given \<Rightarrow> string \<Rightarrow> int"
  GetString :: "flag_decl list \<Rightarrow> given \<Rightarrow> string \<Rightarrow> string"
  Changed :: "flag_decl list \<Rightarrow> given \<Rightarrow> string \<Rightarrow> bool"

definition given_bool :: "given \<Rightarrow> string \<Rightarrow> bool \<Rightarrow> bool" where
  "given_bool g n d = (case g n of Some (Bool_value v) \<Rightarrow> v | _ \<Rightarrow> d)"

definition given_int :: "given \<Rightarrow> string \<Rightarrow> int \<Rightarrow> int" where
  "given_int g n d = (case g n of Some (Int_value v) \<Rightarrow> v | _ \<Rightarrow> d)"

definition given_string :: "given \<Rightarrow> string \<Rightarrow> string \<Rightarrow> string" where
  "given_string g n d = (case g n of Some (String_value v) \<Rightarrow> v | _ \<Rightarrow> d)"

text \<open>The documentation of the library: a flag that is declared, once and with the type that is asked for, has the value that
  was given, or its default; about any other flag nothing is promised (the error is ignored by the program).\<close>

definition pflag_ok :: "pflag \<Rightarrow> bool" where
  "pflag_ok P \<longleftrightarrow>
     (\<forall>fs g f. f \<in> set fs \<longrightarrow> distinct (map flag_name fs) \<longrightarrow>
        (\<forall>d. flag_default f = Bool_value d \<longrightarrow> GetBool P fs g (flag_name f) = given_bool g (flag_name f) d) \<and>
        (\<forall>d. flag_default f = Int_value d \<longrightarrow> GetInt P fs g (flag_name f) = given_int g (flag_name f) d) \<and>
        (\<forall>d. flag_default f = String_value d \<longrightarrow> GetString P fs g (flag_name f) = given_string g (flag_name f) d) \<and>
        (Changed P fs g (flag_name f) \<longleftrightarrow> g (flag_name f) \<noteq> None))"

definition read_global :: "pflag \<Rightarrow> flag_decl list \<Rightarrow> given \<Rightarrow> global_flags" where
  "read_global P fs g =
     \<lparr>g_verbose = GetBool P fs g ''verbose'', g_quiet = GetBool P fs g ''quiet'', g_no_color = GetBool P fs g ''no-color'',
      g_max_retries = GetInt P fs g ''max-retries'', g_max_retries_changed = Changed P fs g ''max-retries''\<rparr>"

definition read_broker :: "pflag \<Rightarrow> flag_decl list \<Rightarrow> given \<Rightarrow> broker_flags" where
  "read_broker P fs g =
     \<lparr>bf_global = read_global P fs g, bf_bind_to = GetString P fs g ''bind-to'', bf_passphrase = GetString P fs g ''passphrase'',
      bf_enable_security_logs = GetBool P fs g ''enable-security-logs'', bf_enable_ipsum = GetBool P fs g ''enable-ipsum'',
      bf_enable_geo_blocker = GetBool P fs g ''enable-geo-blocker'', bf_blocked_countries = GetString P fs g ''blocked-countries''\<rparr>"

definition read_tunnel :: "pflag \<Rightarrow> flag_decl list \<Rightarrow> given \<Rightarrow> tunnel_flags" where
  "read_tunnel P fs g =
     \<lparr>tf_global = read_global P fs g, tf_port = GetInt P fs g ''port'', tf_broker = GetString P fs g ''broker'',
      tf_id = GetString P fs g ''id'', tf_passphrase = GetString P fs g ''passphrase''\<rparr>"

subsection \<open>The tree is well formed\<close>

text \<open>What cobra insists on, or else panics or picks the wrong command: no two flags that are visible together share a name or a
  shorthand, none takes the name of the help flag it adds itself, and no two subcommands answer to the same word.\<close>

definition shorthands :: "flag_decl list \<Rightarrow> string list" where
  "shorthands fs = filter (\<lambda>s. s \<noteq> []) (map flag_short fs)"

definition command_words :: "app_context \<Rightarrow> string list" where
  "command_words app = concat (map (\<lambda>c. Use c # Aliases c) (subcommands app))"

definition commands_ok :: "app_context \<Rightarrow> bool" where
  "commands_ok app \<longleftrightarrow> distinct (command_words app @ [''help'', ''completion'']) \<and>
     (\<forall>c\<in>set (subcommands app). distinct (map flag_name (visible app c) @ [''help'']) \<and> distinct (shorthands (visible app c) @ [''h'']))"

lemma NewAppContext_ok: "commands_ok NewAppContext"
  by code_simp

lemma pflag_okD:
  assumes "pflag_ok P" "f \<in> set fs" "distinct (map flag_name fs)"
  shows "flag_default f = Bool_value d \<Longrightarrow> GetBool P fs g (flag_name f) = given_bool g (flag_name f) d"
    "flag_default f = Int_value k \<Longrightarrow> GetInt P fs g (flag_name f) = given_int g (flag_name f) k"
    "flag_default f = String_value s \<Longrightarrow> GetString P fs g (flag_name f) = given_string g (flag_name f) s"
    "Changed P fs g (flag_name f) \<longleftrightarrow> g (flag_name f) \<noteq> None"
  using assms unfolding pflag_ok_def by blast+

lemma visible_distinct:
  "c \<in> set (subcommands NewAppContext) \<Longrightarrow> distinct (map flag_name (visible NewAppContext c))"
  using NewAppContext_ok by (auto simp: commands_ok_def)

text \<open>Looking up a flag that is declared with the default \<open>v\<close>.\<close>

definition declared :: "command \<Rightarrow> (string \<times> flag_value) set" where
  "declared c = set (map (\<lambda>f. (flag_name f, flag_default f)) (visible NewAppContext c))"

lemma flag_lookup:
  assumes "pflag_ok P" "c \<in> set (subcommands NewAppContext)"
  shows "(n, Bool_value d) \<in> declared c \<Longrightarrow> GetBool P (visible NewAppContext c) g n = given_bool g n d"
    "(n, Int_value k) \<in> declared c \<Longrightarrow> GetInt P (visible NewAppContext c) g n = given_int g n k"
    "(n, String_value t) \<in> declared c \<Longrightarrow> GetString P (visible NewAppContext c) g n = given_string g n t"
    "(n, v) \<in> declared c \<Longrightarrow> Changed P (visible NewAppContext c) g n \<longleftrightarrow> g n \<noteq> None"
proof -
  note p = pflag_okD [OF assms(1) _ visible_distinct [OF assms(2)]]
  have f: "\<exists>f\<in>set (visible NewAppContext c). flag_name f = n \<and> flag_default f = v" if "(n, v) \<in> declared c" for v
    using that by (auto simp: declared_def)
  show "(n, Bool_value d) \<in> declared c \<Longrightarrow> GetBool P (visible NewAppContext c) g n = given_bool g n d"
    "(n, Int_value k) \<in> declared c \<Longrightarrow> GetInt P (visible NewAppContext c) g n = given_int g n k"
    "(n, String_value t) \<in> declared c \<Longrightarrow> GetString P (visible NewAppContext c) g n = given_string g n t"
    "(n, v) \<in> declared c \<Longrightarrow> Changed P (visible NewAppContext c) g n \<longleftrightarrow> g n \<noteq> None"
    by (metis f p(1), metis f p(2), metis f p(3), metis f p(4))
qed

lemmas tree_defs = declared_def visible_def NewAppContext_def NewBrokerCommand_def NewListenCommand_def NewConnectCommand_def
  broker_flag_decls_def listen_flag_decls_def connect_flag_decls_def MarkFlagRequired_def declare_flag_def

lemma subcommand: "NewBrokerCommand \<in> set (subcommands NewAppContext)" "NewListenCommand \<in> set (subcommands NewAppContext)"
  "NewConnectCommand \<in> set (subcommands NewAppContext)"
  by (simp_all add: NewAppContext_def)

definition given_global :: "given \<Rightarrow> global_flags" where
  "given_global g = \<lparr>g_verbose = given_bool g ''verbose'' False, g_quiet = given_bool g ''quiet'' False,
     g_no_color = given_bool g ''no-color'' False, g_max_retries = given_int g ''max-retries'' 10,
     g_max_retries_changed = (g ''max-retries'' \<noteq> None)\<rparr>"

lemma read_global_given:
  assumes "pflag_ok P" "c \<in> set (subcommands NewAppContext)"
  shows "read_global P (visible NewAppContext c) g = given_global g"
proof -
  have d: "{(''verbose'', Bool_value False), (''quiet'', Bool_value False), (''no-color'', Bool_value False),
      (''max-retries'', Int_value 10)} \<subseteq> declared c"
    by (simp add: declared_def visible_def NewAppContext_def declare_flag_def)
  show ?thesis
    using d flag_lookup(1,2) [OF assms] flag_lookup(4) [OF assms, of "''max-retries''" "Int_value 10"] unfolding read_global_def given_global_def by simp
qed

lemma read_broker_given:
  assumes "pflag_ok P"
  shows "read_broker P (visible NewAppContext NewBrokerCommand) g =
    \<lparr>bf_global = given_global g, bf_bind_to = given_string g ''bind-to'' ''0.0.0.0:1781'', bf_passphrase = given_string g ''passphrase'' [],
     bf_enable_security_logs = given_bool g ''enable-security-logs'' False, bf_enable_ipsum = given_bool g ''enable-ipsum'' False,
     bf_enable_geo_blocker = given_bool g ''enable-geo-blocker'' False, bf_blocked_countries = given_string g ''blocked-countries'' []\<rparr>"
proof -
  have d: "{(''bind-to'', String_value ''0.0.0.0:1781''), (''passphrase'', String_value []), (''enable-security-logs'', Bool_value False),
      (''enable-ipsum'', Bool_value False), (''enable-geo-blocker'', Bool_value False), (''blocked-countries'', String_value [])}
    \<subseteq> declared NewBrokerCommand" by (simp add: tree_defs)
  show ?thesis
    using d flag_lookup(1,3) [OF assms subcommand(1)] unfolding read_broker_def read_global_given [OF assms subcommand(1)] by simp
qed

lemma read_tunnel_given:
  assumes "pflag_ok P" "c \<in> {NewListenCommand, NewConnectCommand}" "(''port'', Int_value p) \<in> declared c"
  shows "read_tunnel P (visible NewAppContext c) g =
    \<lparr>tf_global = given_global g, tf_port = given_int g ''port'' p, tf_broker = given_string g ''broker'' ''127.0.0.1:1781'',
     tf_id = given_string g ''id'' [], tf_passphrase = given_string g ''passphrase'' []\<rparr>"
proof -
  have c: "c \<in> set (subcommands NewAppContext)" using assms(2) subcommand by blast
  have d: "{(''broker'', String_value ''127.0.0.1:1781''), (''id'', String_value []), (''passphrase'', String_value [])} \<subseteq> declared c"
    using assms(2) by (auto simp: tree_defs)
  show ?thesis
    using d assms(3) flag_lookup(2,3) [OF assms(1) c] unfolding read_tunnel_def read_global_given [OF assms(1) c] by simp
qed

lemma port_declared: "(''port'', Int_value 0) \<in> declared NewListenCommand" "(''port'', Int_value 12345) \<in> declared NewConnectCommand"
  by (simp_all add: tree_defs)

text \<open>C38: the commands get the flags they ask for. The command tree is well formed (cobra does not panic on it and every command
  word means one command); every flag a command reads is declared on it or on the root, with the type it is read with, although
  the program ignores the error of every lookup: so with a flag library that keeps its promises the values are those that were given, or the
  declared defaults; and the port is the one flag \<^verbatim>\<open>listen\<close> cannot be started without.\<close>

theorem flags_reach_commands:
  assumes "pflag_ok P"
  shows "commands_ok NewAppContext \<and>
    read_broker P (visible NewAppContext NewBrokerCommand) g =
      \<lparr>bf_global = given_global g, bf_bind_to = given_string g ''bind-to'' ''0.0.0.0:1781'', bf_passphrase = given_string g ''passphrase'' [],
       bf_enable_security_logs = given_bool g ''enable-security-logs'' False, bf_enable_ipsum = given_bool g ''enable-ipsum'' False,
       bf_enable_geo_blocker = given_bool g ''enable-geo-blocker'' False, bf_blocked_countries = given_string g ''blocked-countries'' []\<rparr> \<and>
    read_tunnel P (visible NewAppContext NewListenCommand) g =
      \<lparr>tf_global = given_global g, tf_port = given_int g ''port'' 0, tf_broker = given_string g ''broker'' ''127.0.0.1:1781'',
       tf_id = given_string g ''id'' [], tf_passphrase = given_string g ''passphrase'' []\<rparr> \<and>
    read_tunnel P (visible NewAppContext NewConnectCommand) g =
      \<lparr>tf_global = given_global g, tf_port = given_int g ''port'' 12345, tf_broker = given_string g ''broker'' ''127.0.0.1:1781'',
       tf_id = given_string g ''id'' [], tf_passphrase = given_string g ''passphrase'' []\<rparr> \<and>
    map flag_name (filter flag_required (visible NewAppContext NewListenCommand)) = [''port'']"
proof (intro conjI)
  show "map flag_name (filter flag_required (visible NewAppContext NewListenCommand)) = [''port'']"
    by code_simp
qed (rule NewAppContext_ok read_broker_given [OF assms] read_tunnel_given [OF assms _ port_declared(1)] read_tunnel_given [OF assms _ port_declared(2)];
    (rule insertI1 | rule insertI2 [OF singletonI])?)+

subsection \<open>A concrete flag library\<close>

definition plain_pflag :: pflag where
  "plain_pflag =
     \<lparr>GetBool = (\<lambda>fs g n. case find (\<lambda>f. flag_name f = n) fs of
          Some f \<Rightarrow> (case flag_default f of Bool_value d \<Rightarrow> given_bool g n d | _ \<Rightarrow> False) | None \<Rightarrow> False),
      GetInt = (\<lambda>fs g n. case find (\<lambda>f. flag_name f = n) fs of
          Some f \<Rightarrow> (case flag_default f of Int_value d \<Rightarrow> given_int g n d | _ \<Rightarrow> 0) | None \<Rightarrow> 0),
      GetString = (\<lambda>fs g n. case find (\<lambda>f. flag_name f = n) fs of
          Some f \<Rightarrow> (case flag_default f of String_value d \<Rightarrow> given_string g n d | _ \<Rightarrow> []) | None \<Rightarrow> []),
      Changed = (\<lambda>fs g n. g n \<noteq> None)\<rparr>"

lemma plain_pflag_ok: "pflag_ok plain_pflag"
proof -
  have "find (\<lambda>h. flag_name h = flag_name f) fs = Some f" if "f \<in> set fs" "distinct (map flag_name fs)" for f :: flag_decl and fs
    using that by (induction fs) (auto simp: image_iff)
  then show ?thesis by (auto simp: pflag_ok_def plain_pflag_def)
qed

theorem flags_reach_commands_witness:
  "tf_port (read_tunnel plain_pflag (visible NewAppContext NewConnectCommand) [''id'' \<mapsto> String_value ''web'']) = 12345 \<and>
   tf_id (read_tunnel plain_pflag (visible NewAppContext NewConnectCommand) [''id'' \<mapsto> String_value ''web'']) = ''web''"
  using flags_reach_commands [OF plain_pflag_ok, of "[''id'' \<mapsto> String_value ''web'']"]
  by (simp add: given_int_def given_string_def)

end
