(* ===== verification/App.thy ===== *)
theory App
  imports Commands
begin

text \<open>
  The program around the commands: \<^verbatim>\<open>main.go\<close>, \<^verbatim>\<open>types/app_context.go\<close>, \<^verbatim>\<open>cmd/version.go\<close>,
  and the values the flags have when they are not given. Parsing the command line and running the chosen command is
  cobra's; its outcome is an argument of \<open>main_exit\<close>.
\<close>

definition Version :: string where "Version = ''0.0.0''"

definition version_Run :: string where
  "version_Run = ''go-connect v'' @ Version @ [newline]"

text \<open>The exit status of the process.\<close>

definition main_exit :: "error option \<Rightarrow> int" where
  "main_exit run = (case run of Some _ \<Rightarrow> 1 | None \<Rightarrow> 0)"

definition default_global_flags :: global_flags where
  "default_global_flags =
     \<lparr>g_verbose = False, g_quiet = False, g_no_color = False, g_max_retries = 10, g_max_retries_changed = False\<rparr>"

definition default_broker_flags :: broker_flags where
  "default_broker_flags = \<lparr>bf_global = default_global_flags, bf_bind_to = ''0.0.0.0:1781'', bf_passphrase = [],
     bf_enable_security_logs = False, bf_enable_ipsum = False, bf_enable_geo_blocker = False, bf_blocked_countries = []\<rparr>"

text \<open>The port of \<^verbatim>\<open>listen\<close> has to be given.\<close>

definition default_listen_flags :: "int \<Rightarrow> tunnel_flags" where
  "default_listen_flags port =
     \<lparr>tf_global = default_global_flags, tf_port = port, tf_broker = ''127.0.0.1:1781'', tf_id = [], tf_passphrase = []\<rparr>"

definition default_connect_flags :: tunnel_flags where
  "default_connect_flags =
     \<lparr>tf_global = default_global_flags, tf_port = 12345, tf_broker = ''127.0.0.1:1781'', tf_id = [], tf_passphrase = []\<rparr>"

lemma default_flags_declared:
  assumes "pflag_ok P"
  shows "read_broker P (visible NewAppContext NewBrokerCommand) Map.empty = default_broker_flags"
    "read_tunnel P (visible NewAppContext NewConnectCommand) Map.empty = default_connect_flags"
    "read_tunnel P (visible NewAppContext NewListenCommand) [''port'' \<mapsto> Int_value p] = default_listen_flags p"
  using read_broker_given [OF assms] read_tunnel_given [OF assms _ port_declared(1)] read_tunnel_given [OF assms _ port_declared(2)]
  by (simp_all add: given_global_def given_bool_def given_int_def given_string_def default_broker_flags_def default_connect_flags_def
      default_listen_flags_def default_global_flags_def)

subsection \<open>The commands together\<close>

text \<open>Without flags the clients look for the broker on the port on which it listens without flags.\<close>

lemma default_ports_agree:
  "SplitHostPort (parseBindAddress (bf_bind_to default_broker_flags)) = Inr (''0.0.0.0'', defaultPort)"
  "SplitHostPort (parseBrokerAddress (tf_broker (default_listen_flags p))) = Inr (''127.0.0.1'', defaultPort)"
  "SplitHostPort (parseBrokerAddress (tf_broker default_connect_flags)) = Inr (''127.0.0.1'', defaultPort)"
proof -
  have "SplitHostPort (parseBindAddress ''0.0.0.0:1781'') = Inr (''0.0.0.0'', defaultPort)"
    "SplitHostPort (parseBrokerAddress ''127.0.0.1:1781'') = Inr (''127.0.0.1'', defaultPort)" by code_simp+
  then show "SplitHostPort (parseBindAddress (bf_bind_to default_broker_flags)) = Inr (''0.0.0.0'', defaultPort)"
    "SplitHostPort (parseBrokerAddress (tf_broker (default_listen_flags p))) = Inr (''127.0.0.1'', defaultPort)"
    "SplitHostPort (parseBrokerAddress (tf_broker default_connect_flags)) = Inr (''127.0.0.1'', defaultPort)"
    by (simp_all add: default_broker_flags_def default_listen_flags_def default_connect_flags_def)
qed

text \<open>The broker answers a request for an ID nobody registered with a fixed text that does not say so; the error that
  \<open>Connector_Start\<close> makes of it, also wrapped by the reconnect loop, therefore never reaches the branch of the
  connect command that explains a missing listener.\<close>

lemma missing_listener_unexplained:
  assumes "ack = GetConnectAck (connect_ack False)"
  shows "connect_report t u addr i
      (error_text t net (Wrapf ''reconnect: max retries (10) exhausted''
        (Errorf (''connector: connection rejected: '' @ ConnectAck_GetMessage ack)))) =
    ui_Error u ''Failed to connect: reconnect: max retries (10) exhausted: connector: connection rejected: connection failed''"
proof -
  have m: "ConnectAck_GetMessage ack = ''connection failed''"
    using assms by (simp add: connect_ack_def getter_defs ConnectAck_GetMessage_def)
  let ?s = "''reconnect: max retries (10) exhausted: connector: connection rejected: connection failed''"
  have "\<not> Contains ?s ''no listener registered''" "\<not> Contains ?s ''connection refused''"
    "\<not> Contains ?s ''passphrase mismatch''" "\<not> Contains ?s ''EOF''" by code_simp+
  then show ?thesis unfolding connect_report_def error_text.simps m by simp
qed

text \<open>A client that the broker turns away without an answer (IP or country filter, all slots taken) reads the end of the
  stream during the handshake; the commands report that as a wrong passphrase.\<close>

lemma turned_away:
  assumes "\<not> conn_closed cn" "rx cn = []" "rx_end cn = EOF" "GenerateKeyPair cv rand = Inr kp" "Marshal c (handshake_env kp) = Inr d"
  shows "fst (PerformHandshake c cv rand sent cn) =
    Inl (Wrapf ''handshake: failed to read remote handshake'' (Wrapf ''failed to read frame header'' EOF))"
proof -
  obtain e cw where w: "WriteFrame cn d = (e, cw)" by fastforce
  then have "\<not> conn_closed cw" "rx cw = []" "rx_end cw = EOF"
    using assms(1-3) by (auto simp: WriteFrame_def conn_Write_def Let_def split: if_splits option.splits prod.splits)
  then have "fst (ReadFrame (if sent then cw else cn)) = Inl (Wrapf ''failed to read frame header'' EOF)"
    using assms(1-3) by (simp add: ReadFrame_def io_ReadFull_def frameLengthSize_def)
  then obtain r where "ReadFrame (if sent then cw else cn) = (Inl (Wrapf ''failed to read frame header'' EOF), r)" by (metis prod.collapse)
  then show ?thesis using assms(4,5) w by (simp add: PerformHandshake_def)
qed

lemma rejected_client_misreported:
  assumes "at_dial a (parseBrokerAddress (tf_broker f)) = Inr cn" "\<not> conn_closed cn" "rx cn = []" "rx_end cn = EOF"
    and "GenerateKeyPair (te_curve (tw_tunnel W)) (at_rand a) = Inr kp" "Marshal (te_codec (tw_tunnel W)) (handshake_env kp) = Inr d"
  shows "\<exists>err. fst (listen_connect W f a) = Some err \<and>
    listen_report u addr (error_text t net err) = authentication_failed u"
proof -
  let ?e = "Wrapf ''handshake: failed to read remote handshake'' (Wrapf ''failed to read frame header'' EOF)"
  obtain r where "PerformHandshake (te_codec (tw_tunnel W)) (te_curve (tw_tunnel W)) (at_rand a) (at_sent a) cn = (Inl ?e, r)"
    using turned_away [OF assms(2-6), of "at_sent a"] by (metis prod.collapse)
  then have "fst (listen_connect W f a) = Some (Wrapf ''listener: handshake failed'' ?e)"
    using assms(1) by (simp add: listen_connect_def Listener_Start_def NewListener_def)
  moreover have "error_text t net (Wrapf ''listener: handshake failed'' ?e) =
      ''listener: handshake failed: handshake: failed to read remote handshake: failed to read frame header: EOF''" by simp
  moreover have "\<not> Contains ''listener: handshake failed: handshake: failed to read remote handshake: failed to read frame header: EOF'' ''connection refused''"
    "\<not> Contains ''listener: handshake failed: handshake: failed to read remote handshake: failed to read frame header: EOF'' ''registration rejected''"
    "Contains ''listener: handshake failed: handshake: failed to read remote handshake: failed to read frame header: EOF'' ''EOF''"
    by code_simp+
  ultimately show ?thesis by (auto simp: listen_report_def simp del: error_text.simps Contains.simps)
qed

end
