(* ===== verification/Spec2Isabelle.thy ===== *)
theory Spec2Isabelle
  imports Tunnel_Streams Relay_Robust Broker_Gate Broker_Adequacy App
begin

text \<open>
  A verification development of go-connect, a TCP tunnel: a \<^bold>\<open>listener\<close> next to a service and a \<^bold>\<open>connector\<close> next
  to its users both dial a \<^bold>\<open>broker\<close>, which pairs them by a connection ID and passes their messages on. All paths
  below are relative to \<^verbatim>\<open>src/\<close>.

  \<^bold>\<open>The program and how its parts interact.\<close> A client dials the broker (\<^verbatim>\<open>pkg/tunnel\<close>); the two exchange X25519
  keys in clear (\<^verbatim>\<open>pkg/protocol/handshake.go\<close>, \<^verbatim>\<open>pkg/crypto/handshake.go\<close>) and from then on
  send protobuf envelopes, each encrypted with AES-GCM under a counter nonce (\<^verbatim>\<open>pkg/crypto/aead.go\<close>,
  \<^verbatim>\<open>pkg/protocol/session.go\<close>) and written as a length-prefixed frame (\<^verbatim>\<open>pkg/protocol/framing.go\<close>).
  The broker (\<^verbatim>\<open>pkg/broker\<close>) filters addresses (\<^verbatim>\<open>pkg/ipsum\<close>, \<^verbatim>\<open>pkg/geoblock\<close>), checks the
  passphrase, registers listeners and links connectors in its router, and relays between linked clients; incidents go to a
  security log (\<^verbatim>\<open>pkg/logging\<close>). For each local connection the connector opens a numbered stream, the
  listener dials its service for it, and each end pumps what it reads into \<^verbatim>\<open>Data\<close> envelopes. A lost tunnel is set up
  again with exponential backoff (\<^verbatim>\<open>pkg/tunnel/reconnect.go\<close>). \<^verbatim>\<open>cmd\<close>, \<^verbatim>\<open>types\<close>,
  \<^verbatim>\<open>pkg/ui\<close> and \<^verbatim>\<open>main.go\<close> are the command line around it.
\<close>

subsection \<open>Which theory models what\<close>

text \<open>
  Every theory opens with the correspondence in detail; definitions carry the names of the source where that is possible,
  with a prefix where two files use the same name (\<open>Listener_\<close>, \<open>Connector_\<close>, \<open>cc_\<close>, \<open>geo_\<close>, \<open>ui_\<close>).

  \<^item> \<open>Prelude\<close>: bytes, words, errors as values, \<^verbatim>\<open>encoding/binary\<close>, shared lemmas and collections.
  \<^item> \<open>Go_Crypto\<close>, \<open>Go_Strings\<close>, \<open>Go_Net\<close>, \<open>Go_OS\<close>, \<open>Go_Fmt\<close>, \<open>Go_Float\<close>: what the program uses of Go's standard
    library, executable: SHA-256, HMAC, HKDF, AES-256 and GCM; strings and quoting; address parsing and printing; a file system
    whose operations can fail at any point; error texts and number formats; \<^verbatim>\<open>float64\<close> with rounding.
  \<^item> \<open>Conn\<close>: \<^verbatim>\<open>net.Conn\<close> as the bytes that wait to be read and those that have been written, and the contract
    \<open>fifo_channel\<close> of a reliable channel.
  \<^item> \<open>Framing\<close>, \<open>Aead\<close>, \<open>KeyExchange\<close>, \<open>Session\<close>, \<open>Protocol_Handshake\<close>: \<^verbatim>\<open>pkg/protocol\<close>,
    \<^verbatim>\<open>pkg/crypto\<close>. Frames and sessions are interpretations of \<open>fifo_channel\<close>.
  \<^item> \<open>Envelope\<close>, \<open>Proto_Wire\<close>, \<open>Proto_Tight\<close>: \<^verbatim>\<open>pb/messages.pb.go\<close> and \<^verbatim>\<open>proto/messages.proto\<close>: the
    messages, the schema as data, and, as an instance of the codec for the witnesses, the protobuf wire format driven by it, whose encodings are the shortest.
  \<^item> \<open>Router\<close>, \<open>ClientConn\<close>, \<open>Server\<close>: \<^verbatim>\<open>pkg/broker\<close>, every function run without interruption. A
    \<^verbatim>\<open>*ClientConn\<close> is an index into the heap of all clients; heap, router and clock are the record \<open>hub\<close>, the
    \<^verbatim>\<open>Server\<close> struct is the record \<open>server\<close> around it. \<open>Relay_Robust\<close> runs the relay against arbitrary bytes.
  \<^item> \<open>Logger\<close>, \<open>Ipsum\<close>, \<open>Geoblock\<close>: the packages of the same names.
  \<^item> \<open>Step_System\<close>: the contract between a step relation and what is proved of its runs (kept invariants, and the steps that
    bring something about); the broker, the listener and the connector are interpretations of it.
  \<^item> \<open>Broker_Concurrent\<close>: the broker as a step relation (\<open>broker_step\<close>) over handlers, closers, heartbeats, accept loop, network
    and clock. A handler's position is a \<open>phase\<close>; a step is a piece of \<^verbatim>\<open>server.go\<close> no other goroutine can see
    half-done. \<open>Broker_Invariant\<close> has what holds in every reachable state and what every run has in its past, \<open>Broker_Gate\<close>
    the filters over all runs, \<open>Broker_Adequacy\<close> that the pieces compose to the functions of \<open>Server\<close> and what a handler
    leaves behind when it ends.
  \<^item> \<open>Tunnel_Common\<close>, \<open>Tunnel_Listener\<close>, \<open>Tunnel_Connector\<close>: \<^verbatim>\<open>pkg/tunnel/listener.go\<close> and
    \<^verbatim>\<open>connector.go\<close>. Both are interpretations of \<open>stream_demux\<close>, the contract of a table of streams to which incoming
    messages are distributed. \<open>Listener_Concurrent\<close>, \<open>Connector_Concurrent\<close>: their goroutines interleaved
    (\<open>listener_step\<close>, \<open>connector_step\<close>).
  \<^item> \<open>Tunnel_EndToEnd\<close>, \<open>Login\<close>, \<open>Tunnel_Login\<close>, \<open>Tunnel_Streams\<close>: the three programs together, from the dial to the last byte.
  \<^item> \<open>Reconnect\<close>: \<^verbatim>\<open>pkg/tunnel/reconnect.go\<close>, over a script of what happens outside.
  \<^item> \<open>UI\<close>, \<open>Cmd_Helpers\<close>, \<open>Cmd_Broker\<close>, \<open>Cmd_Tunnel\<close>, \<open>Commands\<close>, \<open>App\<close>: \<^verbatim>\<open>pkg/ui\<close>,
    \<^verbatim>\<open>cmd\<close>, \<^verbatim>\<open>types\<close>, \<^verbatim>\<open>main.go\<close>; \<open>Commands\<close> has the command tree and its flags as data.
\<close>

subsection \<open>What the lemmas show\<close>

text \<open>
  \<^item> The channel: frames and sessions deliver what was sent, complete and in order; nonces do not repeat within \<open>2 ^ 64\<close>
    messages; a replayed, reordered or skipped ciphertext is rejected; both ends of a key exchange derive mirrored keys, and two
    ends that shake hands have a working channel.
  \<^item> The broker: links are mutual and IDs unique in every reachable state of the concurrent system, slots and tracked clients
    match the handlers, no route goes stale; every run in which a client gets into the router contains the step in which the
    client sent the passphrase hash; nobody whose address is blocked is ever served; an uninterrupted handler ends and leaves
    nothing behind, whatever the client sends; \<^verbatim>\<open>Close\<close> takes down both
    sides, its pieces terminate; the router refines an abstract registry whatever order Go visits its map in; whatever bytes a client sends, it cannot put the session of its peer out of
    step.
  \<^item> The filters and the log: exactly the listed addresses are blocked; a failed load or download changes nothing; whatever a
    client sends, it cannot forge a line of the log.
  \<^item> The tunnel: data that arrives before a stream is open is kept and delivered first; streams do not disturb each other; stream
    numbers do not repeat; the message loops end with everything closed; an acknowledgement never blocks the loop.
  \<^item> The whole: a listener and a connector with the right passphrase get linked (\<open>tunnel_established\<close>), a wrong one gets nowhere
    (\<open>login_refused\<close>), a local connection becomes a stream (\<open>stream_opens\<close>), and bytes pass in both directions unchanged
    (\<open>tunnel_end_to_end\<close>, \<open>reply_delivered\<close>). They fit together: a login ends \<open>linked\<close>, where streams can be opened, and an
    opened stream is the \<open>tunnel\<close> that carries the bytes.
  \<^item> Reconnecting gives up after the configured number of attempts, cleans up before every retry and waits within the documented
    bounds; the broker command refuses to start when a filter it was asked for is not available.
  \<^item> Where the code does not do what it means to, the lemma says what it does instead: an encoding of the last 28 allowed bytes
    puts a session out of step, a connector can link to a listener that is closing, early data can be overtaken while it is
    drained, a stream can be opened in a closed listener or over an open stream, a timed-out stream stays open at the other end, an IPv6 address in brackets
    without a port is mangled, quiet mode prints empty lines around the ID.
\<close>

subsection \<open>Parameters, bounds and what is assumed\<close>

text \<open>
  Not under \<^verbatim>\<open>src/\<close>, and therefore parameters: the protobuf codec (\<open>codec\<close>; \<open>codec_ok\<close> says that what is marshalled
  unmarshals to the same message, \<open>codec_tight\<close> that marshalling a message again takes no more bytes; \<open>proto_codec\<close> is an
  instance of both), X25519 (\<open>curve\<close>; where it matters, that both sides compute the same secret), the MaxMind reader,
  the HTTP response, pflag (\<open>pflag_ok\<close>), UUIDs, the order in which Go visits a map (\<open>order_ok\<close>: some order of its keys), Unicode tables
  beyond ASCII and the text of network errors. Each hypothesis has a concrete instance in the witnesses (\<open>proto_codec\<close>,
  \<open>sample_curve\<close>, \<open>plain_pflag\<close>, ...).

  Counters, stream numbers and frame lengths are words of their width and wrap around. Loops are total functions, with the unread
  bytes of the connection as the measure of the message loops; the connector's loop has the result \<^term>\<open>None\<close> where the program would
  block for ever. There is no fuel, except that the reconnect loop runs as far as its script goes: \<^term>\<open>None\<close> means that the script
  was used up, and the theorems about it say from which script on it ends.

  Where two programs run at the same time and wait for each other (logins, handshakes), they are put together by their bytes: each
  reads exactly what the other writes. The concurrent systems take one goroutine from one lock region or blocking call to the
  next; memory is sequentially consistent. Connections deliver in order and may fail at any byte; theorems about success
  assume a \<open>healthy\<close> one.
\<close>

subsection \<open>Not modelled\<close>

text \<open>
  The reflection tables of the generated \<^verbatim>\<open>pb/messages.pb.go\<close>, which only the protobuf library uses; unknown fields,
  which the library keeps in a message and \<open>proto_codec\<close> drops; groups, which proto3 does not have; command line parsing and help texts, which are cobra's; lines that \<^verbatim>\<open>log.Printf\<close> writes to standard
  error; the moment at which a signal arrives (the commands take the outcome of each wait as an argument); elapsed time inside a blocking call
  (a timeout is an outcome of the call); in the functions that run without interruption, a read that waits on an idle connection
  (what a connection holds always ends, with the end of the stream or an error; only the network step of the broker lets more arrive); inside
  \<open>broker_step\<close>, other goroutines during the login of a client (\<^verbatim>\<open>authenticateClient\<close>) or one round of
  \<^verbatim>\<open>acceptLoop\<close>, which are single steps; the deferred \<^verbatim>\<open>geoDB.Close\<close> of the broker command; the Go memory model below locks and channels; tests.
\<close>

end
